(* ===== verification/Prelude.thy ===== *)
theory Prelude
  imports Main "HOL-Library.Word"
begin

text \<open>
  What every component shares: the names of the machine types, the lemma collections, and
  the facts on lists and words that the library does not have in this form.

  Rust integers keep their width: \<open>u64\<close> and \<open>usize\<close> (a 64-bit target) are
  \<^typ>\<open>64 word\<close>, \<open>u16\<close> is \<^typ>\<open>16 word\<close>. \<open>+\<close> and \<open>-\<close> wrap around as
  they do in a release build; a development build panics exactly where the wrap-around
  happens, and the lemmas on the counters state when it does not.
  Indices into a collection and collection lengths are \<^typ>\<open>nat\<close>.
\<close>

type_synonym u64 = "64 word"
type_synonym usize = "64 word"
type_synonym u16 = "16 word"

text \<open>
  \<open>SocketAddr\<close> values only label log lines here; \<open>SystemTime\<close> is the signed distance to
  the Unix epoch in nanoseconds.
\<close>

type_synonym SocketAddr = string
type_synonym SystemTime = int

named_theorems frame_simps \<open>fields an operation leaves unchanged\<close>
named_theorems wf_intros \<open>preservation of the well-formedness invariants\<close>

subsection \<open>Words\<close>

text \<open>A counter that is not at its limits counts exactly.\<close>

lemma unat_Suc_word:
  fixes x :: "'a::len word"
  assumes "unat x + 1 < 2 ^ LENGTH('a)"
  shows "unat (x + 1) = unat x + 1"
  using assms by (simp add: unat_word_ariths)

lemma unat_pred_word:
  fixes x :: "'a::len word"
  assumes "0 < unat x"
  shows "unat (x - 1) = unat x - 1"
  using assms by (simp add: unat_minus_one unat_gt_0)

lemma unat_u16_le: "unat (n :: u16) \<le> 65535"
proof -
  have "unat n < 2 ^ LENGTH(16)" by (rule unsigned_less)
  then show ?thesis by simp
qed

lemma unat_pos_word: "w \<noteq> 0 \<Longrightarrow> 0 < unat w"
  by (simp add: unat_gt_0)

lemma word_pred_zero: "(0 :: 'a::len word) - 1 = - 1"
  by simp

lemma of_nat_Suc_word: "(of_nat (Suc n) :: 'a::len word) = of_nat n + 1"
  by simp

subsection \<open>Lists\<close>

text \<open>The sum of a list after one element changed.\<close>

lemma length_filter_update:
  assumes "i < length xs"
  shows "length (filter P (xs[i := x])) + (if P (xs ! i) then 1 else 0)
    = length (filter P xs) + (if P x then 1 else 0)"
  using assms
proof (induction xs arbitrary: i)
  case Nil
  then show ?case by simp
next
  case (Cons y ys)
  show ?case
  proof (cases i)
    case 0
    then show ?thesis by simp
  next
    case (Suc j)
    with Cons.prems have "j < length ys" by simp
    from Cons.IH [OF this] Suc show ?thesis by simp
  qed
qed

lemma of_nat_filter_update:
  assumes "i < length xs"
  shows "of_nat (length (filter P (xs[i := x])))
    = (of_nat (length (filter P xs)) + of_bool (P x) - of_bool (P (xs ! i)) :: 'a::ring_1)"
proof -
  have "(of_nat (length (filter P (xs[i := x])) + (if P (xs ! i) then 1 else 0)) :: 'a)
      = of_nat (length (filter P xs) + (if P x then 1 else 0))"
    by (simp only: length_filter_update [OF assms])
  then show ?thesis by (auto simp: algebra_simps split: if_splits)
qed

lemma length_filter_mono_imp:
  assumes "\<And>x. x \<in> set xs \<Longrightarrow> P x \<Longrightarrow> Q x"
  shows "length (filter P xs) \<le> length (filter Q xs)"
  using assms by (induction xs) auto

end
