(* ===== verification/Text.thy ===== *)
theory Text
  imports Prelude
begin

text \<open>
  Text: the part of \<open>str\<close>, \<open>char\<close>, \<open>FromStr\<close> and \<open>Display\<close> the program uses.
  Strings are lists of ASCII characters. Every class of characters the program tests is an
  ASCII class, so a character outside ASCII could only ever end a token or be rejected.
\<close>

subsection \<open>Character classes\<close>

abbreviation ord :: "char \<Rightarrow> int" where
  "ord \<equiv> of_char"

definition is_digit :: "char \<Rightarrow> bool" where
  "is_digit c \<longleftrightarrow> 48 \<le> ord c \<and> ord c \<le> 57"

definition is_upper :: "char \<Rightarrow> bool" where
  "is_upper c \<longleftrightarrow> 65 \<le> ord c \<and> ord c \<le> 90"

definition is_lower :: "char \<Rightarrow> bool" where
  "is_lower c \<longleftrightarrow> 97 \<le> ord c \<and> ord c \<le> 122"

definition is_alpha :: "char \<Rightarrow> bool" where
  "is_alpha c \<longleftrightarrow> is_upper c \<or> is_lower c"

definition is_alphanumeric :: "char \<Rightarrow> bool" where
  "is_alphanumeric c \<longleftrightarrow> is_alpha c \<or> is_digit c"

definition is_hexdigit :: "char \<Rightarrow> bool" where
  "is_hexdigit c \<longleftrightarrow> is_digit c \<or> (65 \<le> ord c \<and> ord c \<le> 70) \<or> (97 \<le> ord c \<and> ord c \<le> 102)"

definition is_space :: "char \<Rightarrow> bool" where
  "is_space c \<longleftrightarrow> ord c = 32 \<or> (9 \<le> ord c \<and> ord c \<le> 13)"

lemmas char_class_defs = is_digit_def is_upper_def is_lower_def is_alpha_def
  is_alphanumeric_def is_hexdigit_def is_space_def

text \<open>\<open>to_ascii_lowercase\<close> and \<open>to_ascii_uppercase\<close>.\<close>

definition lower_char :: "char \<Rightarrow> char" where
  "lower_char c = (if is_upper c then char_of (ord c + 32) else c)"

definition upper_char :: "char \<Rightarrow> char" where
  "upper_char c = (if is_lower c then char_of (ord c - 32) else c)"

definition to_lower :: "string \<Rightarrow> string" where
  "to_lower s = map lower_char s"

definition to_upper :: "string \<Rightarrow> string" where
  "to_upper s = map upper_char s"

definition trim_end :: "string \<Rightarrow> string" where
  "trim_end s = rev (dropWhile is_space (rev s))"

text \<open>\<open>rsplit_once\<close>: the text before and after the last occurrence of a character.\<close>

fun rsplit_once :: "char \<Rightarrow> string \<Rightarrow> (string \<times> string) option" where
  "rsplit_once c [] = None"
| "rsplit_once c (x # xs) =
     (case rsplit_once c xs of
        Some (a, b) \<Rightarrow> Some (x # a, b)
      | None \<Rightarrow> if x = c then Some ([], xs) else None)"

text \<open>\<open>splitn(2, c)\<close> as the first piece and the optional rest.\<close>

fun splitn2 :: "char \<Rightarrow> string \<Rightarrow> string \<times> string option" where
  "splitn2 c [] = ([], None)"
| "splitn2 c (x # xs) =
     (if x = c then ([], Some xs)
      else (case splitn2 c xs of (a, r) \<Rightarrow> (x # a, r)))"

lemma rsplit_once_last:
  "c \<notin> set b \<Longrightarrow> rsplit_once c (a @ c # b) = Some (a, b)"
proof (induction a)
  case Nil
  then have "rsplit_once c b = None"
    by (induction b) auto
  then show ?case by simp
next
  case (Cons x a)
  then show ?case by simp
qed

lemma splitn2_absent: "c \<notin> set s \<Longrightarrow> splitn2 c s = (s, None)"
  by (induction s) auto

lemma splitn2_present: "c \<notin> set a \<Longrightarrow> splitn2 c (a @ c # b) = (a, Some b)"
  by (induction a) auto

subsection \<open>Decimal numbers\<close>

definition digit_char :: "int \<Rightarrow> char" where
  "digit_char d = char_of (48 + d)"

definition digit_val :: "char \<Rightarrow> int" where
  "digit_val c = ord c - 48"

text \<open>The decimal digits of a number that is not negative.\<close>

function show_int :: "int \<Rightarrow> string" where
  "show_int n =
     (if n < 10 then [digit_char n] else show_int (n div 10) @ [digit_char (n mod 10)])"
  by pat_completeness auto
termination
  by (relation "measure nat") auto

declare show_int.simps [simp del]

definition show_nat :: "nat \<Rightarrow> string" where
  "show_nat n = show_int (int n)"

definition show_word :: "'a::len word \<Rightarrow> string" where
  "show_word w = show_int (uint w)"

definition digits_value :: "string \<Rightarrow> int" where
  "digits_value ds = foldl (\<lambda>a c. 10 * a + digit_val c) 0 ds"

lemma digits_value_snoc [simp]: "digits_value (ds @ [c]) = 10 * digits_value ds + digit_val c"
  by (simp add: digits_value_def)

lemma digits_value_Nil [simp]: "digits_value [] = 0"
  by (simp add: digits_value_def)

lemma ord_digit_char: "0 \<le> d \<Longrightarrow> d < 10 \<Longrightarrow> ord (digit_char d) = 48 + d"
  by (simp add: digit_char_def)

lemma is_digit_digit_char [simp]: "0 \<le> d \<Longrightarrow> d < 10 \<Longrightarrow> is_digit (digit_char d)"
  by (simp add: is_digit_def ord_digit_char)

lemma digit_val_digit_char [simp]: "0 \<le> d \<Longrightarrow> d < 10 \<Longrightarrow> digit_val (digit_char d) = d"
  by (simp add: digit_val_def ord_digit_char)

lemma show_int_digits: "0 \<le> n \<Longrightarrow> list_all is_digit (show_int n)"
proof (induction n rule: show_int.induct)
  case (1 n)
  then show ?case
    by (subst show_int.simps) auto
qed

lemma show_int_nonempty [simp]: "show_int n \<noteq> []"
  by (subst show_int.simps) simp

lemma digits_value_show_int [simp]: "0 \<le> n \<Longrightarrow> digits_value (show_int n) = n"
proof (induction n rule: show_int.induct)
  case (1 n)
  show ?case
  proof (cases "n < 10")
    case True
    with "1.prems" show ?thesis by (subst show_int.simps) (simp add: digits_value_def)
  next
    case False
    with "1.IH" show ?thesis by (subst show_int.simps) simp
  qed
qed

text \<open>Leading digits of a printed number followed by something else.\<close>

lemma takeWhile_show_int:
  assumes "0 \<le> n" and "r = [] \<or> \<not> is_digit (hd r)"
  shows "takeWhile is_digit (show_int n @ r) = show_int n"
    and "dropWhile is_digit (show_int n @ r) = r"
  using show_int_digits [OF assms(1)] assms(2)
  by (cases r; auto simp: list_all_iff takeWhile_append dropWhile_append)+

text \<open>
  \<open>FromStr\<close> of the unsigned integers: an optional \<open>+\<close>, then one or more digits, with a
  value that fits; everything else is an error.
\<close>

definition parse_uint :: "int \<Rightarrow> string \<Rightarrow> int option" where
  "parse_uint limit s =
     (let ds = (case s of c # cs \<Rightarrow> if c = CHR ''+'' then cs else s | [] \<Rightarrow> s)
      in if ds \<noteq> [] \<and> list_all is_digit ds \<and> digits_value ds < limit
         then Some (digits_value ds) else None)"

definition parse_u16 :: "string \<Rightarrow> u16 option" where
  "parse_u16 s = map_option of_int (parse_uint 65536 s)"

definition parse_u64 :: "string \<Rightarrow> u64 option" where
  "parse_u64 s = map_option of_int (parse_uint 18446744073709551616 s)"

definition parse_bool :: "string \<Rightarrow> bool option" where
  "parse_bool s = (if s = ''true'' then Some True else if s = ''false'' then Some False else None)"

lemma parse_uint_show_int:
  assumes "0 \<le> n" and "n < limit"
  shows "parse_uint limit (show_int n) = Some n"
proof -
  obtain c cs where s: "show_int n = c # cs"
    using show_int_nonempty [of n] by (cases "show_int n") auto
  then have "c \<noteq> CHR ''+''"
    using show_int_digits [OF assms(1)] by (auto simp: is_digit_def)
  with s show ?thesis
    using show_int_digits [OF assms(1)] digits_value_show_int [OF assms(1)] assms(2)
    by (simp add: parse_uint_def)
qed

lemma parse_u16_show: "parse_u16 (show_word w) = Some w"
proof -
  have "uint w < 65536"
    using unsigned_less [of w, where ?'a = int] by simp
  then show ?thesis
    by (simp add: parse_u16_def show_word_def parse_uint_show_int)
qed

subsection \<open>Lines\<close>

text \<open>What a reader of lines makes of a text: the pieces between line feeds.\<close>

fun lines_of :: "string \<Rightarrow> string list" where
  "lines_of [] = [[]]"
| "lines_of (c # cs) =
     (if c = CHR 10 then [] # lines_of cs
      else (case lines_of cs of [] \<Rightarrow> [[c]] | l # ls \<Rightarrow> (c # l) # ls))"

lemma lines_of_line: "CHR 10 \<notin> set a \<Longrightarrow> lines_of a = [a]"
  by (induction a) auto

lemma lines_of_append: "CHR 10 \<notin> set a \<Longrightarrow> lines_of (a @ CHR 10 # r) = a # lines_of r"
  by (induction a) auto

lemma show_int_no_feed: "0 \<le> n \<Longrightarrow> CHR 10 \<notin> set (show_int n)"
  using show_int_digits [of n] by (auto simp: list_all_iff is_digit_def)

lemma show_no_feed [simp]: "CHR 10 \<notin> set (show_word w)" "CHR 10 \<notin> set (show_nat n)"
  by (simp_all add: show_word_def show_nat_def show_int_no_feed)

end
