(* ===== verification/Errors.thy ===== *)
theory Errors
  imports Text
begin

text \<open>
  The error type of the program (\<open>src/error.rs\<close>): its variants, the numeric codes sent to
  JSON-RPC clients and the texts sent over the control protocol. The payload of a variant
  that wraps another library's error is the text that error prints.
\<close>

datatype Error =
    TunnelParseError string
  | SocketSpecParseError string
  | SocketAddrParse string
  | IOError string
  | TunnelExists
  | TunnelDoesNotExist
  | RemoteExists
  | RemoteDoesNotExist
  | ControlProtocolLineError string
  | ControlProtocolError string
  | NoRemote
  | InvalidLBStrategy
  | RPCError string
  | CertificateError string

type_synonym 'a result = "Error + 'a"

text \<open>The conversion of a certificate error, for the operator \<open>?\<close>.\<close>

definition from_webpki_error :: "string \<Rightarrow> Error" where
  [simp]: "from_webpki_error value = CertificateError value"

definition ERROR_BASE :: int where
  "ERROR_BASE = 1000"

fun error_code :: "Error \<Rightarrow> int" where
  "error_code (TunnelParseError _) = ERROR_BASE + 1"
| "error_code (SocketSpecParseError _) = ERROR_BASE + 2"
| "error_code (SocketAddrParse _) = ERROR_BASE + 3"
| "error_code (IOError _) = ERROR_BASE + 4"
| "error_code TunnelExists = ERROR_BASE + 5"
| "error_code TunnelDoesNotExist = ERROR_BASE + 6"
| "error_code RemoteExists = ERROR_BASE + 7"
| "error_code RemoteDoesNotExist = ERROR_BASE + 8"
| "error_code (ControlProtocolLineError _) = ERROR_BASE + 9"
| "error_code (ControlProtocolError _) = ERROR_BASE + 10"
| "error_code NoRemote = ERROR_BASE + 11"
| "error_code InvalidLBStrategy = ERROR_BASE + 12"
| "error_code (RPCError _) = ERROR_BASE + 13"
| "error_code (CertificateError _) = ERROR_BASE + 14"

fun error_to_string :: "Error \<Rightarrow> string" where
  "error_to_string (TunnelParseError s) = ''Tunnel definition parsing error: '' @ s"
| "error_to_string (SocketSpecParseError s) = ''Socket spec parse error: '' @ s"
| "error_to_string (SocketAddrParse s) = ''Socket address parse error: '' @ s"
| "error_to_string (IOError s) = ''IO error: '' @ s"
| "error_to_string TunnelExists = ''Tunnel already exists''"
| "error_to_string TunnelDoesNotExist = ''Tunnel doesn'' @ [CHR 39] @ ''t exist''"
| "error_to_string RemoteExists = ''Remote already exists''"
| "error_to_string RemoteDoesNotExist = ''Remote does not exists''"
| "error_to_string (ControlProtocolLineError s) = ''Invalid control protocol line: '' @ s"
| "error_to_string (ControlProtocolError s) = ''Control protocol error: '' @ s"
| "error_to_string NoRemote = ''No remote available''"
| "error_to_string InvalidLBStrategy = ''Invalid loadbalancing strategy string''"
| "error_to_string (RPCError s) = ''RPC error: '' @ s"
| "error_to_string (CertificateError s) = ''Certificate error: '' @ s"

end
