(* ===== verification/F32.thy ===== *)
theory F32
  imports Text
begin

text \<open>
  \<open>f32\<close>, as far as the program uses it: parsed from option text and command-line arguments,
  turned into a \<open>Duration\<close> by \<open>Duration::from_secs_f32\<close>, which panics on negative,
  non-finite and too large values, and printed.

  A finite value is sign, mantissa and exponent: \<open>Finite s m e\<close> is
  \<open>(-1)^s * m * 2^e\<close> with \<open>m < 2^24\<close> and \<open>-149 \<le> e \<le> 104\<close>.
  Parsing rounds to nearest, ties to even, as \<open>f32::from_str\<close> does.
\<close>

datatype f32 = NaN | Infinite bool | Finite bool int int

text \<open>The number of binary digits.\<close>

function bit_len :: "int \<Rightarrow> int" where
  "bit_len n = (if n \<le> 0 then 0 else 1 + bit_len (n div 2))"
  by pat_completeness auto
termination
  by (relation "measure nat") auto

declare bit_len.simps [simp del]

text \<open>Division rounded to the nearest integer, ties to even.\<close>

definition div_nearest :: "int \<Rightarrow> int \<Rightarrow> int" where
  "div_nearest n d =
     (let q = n div d; r = n mod d
      in if d < 2 * r \<or> (2 * r = d \<and> odd q) then q + 1 else q)"

text \<open>\<open>n / d * 2 ^ k\<close> as a pair of numerator and denominator.\<close>

definition scale2 :: "int \<Rightarrow> int \<Rightarrow> int \<Rightarrow> int \<times> int" where
  "scale2 n d k = (if 0 \<le> k then (n * 2 ^ nat k, d) else (n, d * 2 ^ nat (- k)))"

text \<open>The largest \<open>k\<close> with \<open>2 ^ k \<le> n / d\<close>.\<close>

definition floor_log2 :: "int \<Rightarrow> int \<Rightarrow> int" where
  "floor_log2 n d =
     (let k = bit_len n - bit_len d; (a, b) = scale2 n d (- k)
      in if b \<le> a then k else k - 1)"

definition round_f32 :: "bool \<Rightarrow> int \<Rightarrow> int \<Rightarrow> f32" where
  "round_f32 s n d =
     (if n = 0 then Finite s 0 (-149)
      else let e = max (floor_log2 n d - 23) (-149);
               (a, b) = scale2 n d (- e);
               m = div_nearest a b;
               (m', e') = (if m = 2 ^ 24 then (2 ^ 23, e + 1) else (m, e))
           in if 104 < e' then Infinite s else Finite s m' e')"

text \<open>
  The decimal grammar: digits with an optional point, at least one digit, and an optional
  exponent.
\<close>

definition split_sign :: "string \<Rightarrow> bool \<times> string" where
  "split_sign s =
     (case s of
        [] \<Rightarrow> (False, [])
      | c # cs \<Rightarrow> if c = CHR ''-'' then (True, cs) else if c = CHR ''+'' then (False, cs)
                  else (False, s))"

definition parse_exponent :: "string \<Rightarrow> int option" where
  "parse_exponent s =
     (case s of
        [] \<Rightarrow> Some 0
      | c # cs \<Rightarrow>
          (case split_sign cs of (neg, ds) \<Rightarrow>
             if lower_char c = CHR ''e'' \<and> ds \<noteq> [] \<and> list_all is_digit ds
             then Some (if neg then - digits_value ds else digits_value ds)
             else None))"

definition parse_decimal :: "bool \<Rightarrow> string \<Rightarrow> f32 option" where
  "parse_decimal neg s =
     (let ip = takeWhile is_digit s; s1 = dropWhile is_digit s;
          (fp, s2) = (case s1 of
                        c # cs \<Rightarrow> if c = CHR ''.'' then (takeWhile is_digit cs, dropWhile is_digit cs)
                                  else ([], s1)
                      | [] \<Rightarrow> ([], []))
      in if ip @ fp = [] then None
         else (case parse_exponent s2 of
                 None \<Rightarrow> None
               | Some e \<Rightarrow>
                   let v = digits_value (ip @ fp); x = e - int (length fp)
                   in Some (if 0 \<le> x then round_f32 neg (v * 10 ^ nat x) 1
                            else round_f32 neg v (10 ^ nat (- x)))))"

definition parse_f32 :: "string \<Rightarrow> f32 option" where
  "parse_f32 s =
     (case split_sign s of (neg, body) \<Rightarrow>
        if body = [] then None
        else if to_lower body \<in> {''inf'', ''infinity''} then Some (Infinite neg)
        else if to_lower body = ''nan'' then Some NaN
        else parse_decimal neg body)"

subsection \<open>Duration\<close>

text \<open>A \<open>Duration\<close> counts nanoseconds. \<open>None\<close> is the panic of \<open>from_secs_f32\<close>.\<close>

type_synonym Duration = int

definition duration_from_secs_f32 :: "f32 \<Rightarrow> Duration option" where
  "duration_from_secs_f32 x =
     (case x of
        NaN \<Rightarrow> None
      | Infinite _ \<Rightarrow> None
      | Finite s m e \<Rightarrow>
          if s \<and> m \<noteq> 0 then None
          else (case scale2 m 1 e of (a, b) \<Rightarrow>
                  if b * 2 ^ 64 \<le> a then None else Some (div_nearest (a * 10 ^ 9) b)))"

text \<open>The literal \<open>10.0\<close>, the default of every timeout.\<close>

definition f32_ten :: f32 where
  "f32_ten = Finite False 10485760 (-20)"

lemma duration_ten: "duration_from_secs_f32 f32_ten = Some 10000000000"
  by (simp add: duration_from_secs_f32_def f32_ten_def scale2_def div_nearest_def)

lemma parse_f32_ten: "parse_f32 ''10.0'' = Some f32_ten"
  by code_simp

subsection \<open>Display\<close>

text \<open>
  \<open>Display\<close> prints the shortest decimal that reads back as the same number, the nearest one if
  several are as short, without an exponent. For a positive value \<open>m * 2 ^ e\<close>:
  \<open>lead_zeros a b\<close> is the number of zeros after the point of \<open>a / b < 1\<close>, \<open>point_place\<close> the number
  of digits before the point, negative for zeros after it.
\<close>

function lead_zeros :: "int \<Rightarrow> int \<Rightarrow> int" where
  "lead_zeros a b = (if a \<le> 0 \<or> b \<le> 10 * a then 0 else 1 + lead_zeros (10 * a) b)"
  by pat_completeness auto
termination
  by (relation "measure (\<lambda>(a, b). nat (b - a))") auto

declare lead_zeros.simps [simp del]

definition point_place :: "int \<Rightarrow> int \<Rightarrow> int" where
  "point_place a b = (if b \<le> a then int (length (show_int (a div b))) else - lead_zeros a b)"

text \<open>\<open>d * 10 ^ k\<close>, rounded.\<close>

definition decimal_f32 :: "int \<Rightarrow> int \<Rightarrow> f32" where
  "decimal_f32 d k =
     (if 0 \<le> k then round_f32 False (d * 10 ^ nat k) 1 else round_f32 False d (10 ^ nat (- k)))"

text \<open>
  The decimal with \<open>n\<close> digits, as digits and exponent: one of the two neighbours of the value
  on that grid.
\<close>

definition decimal_with :: "nat \<Rightarrow> int \<Rightarrow> int \<Rightarrow> (int \<times> int) option" where
  "decimal_with n m e =
     (let (a, b) = scale2 m 1 e; p = point_place a b; k = p - int n;
          (a', b') = (if 0 \<le> k then (a, b * 10 ^ nat k) else (a * 10 ^ nat (- k), b));
          lo = a' div b'; r = a' mod b'; x = Finite False m e;
          norm = (\<lambda>d. if d = 10 ^ n then (1, p) else (d, k));
          lo_ok = decimal_f32 lo k = x; hi_ok = decimal_f32 (lo + 1) k = x
      in if hi_ok \<and> (\<not> lo_ok \<or> b' \<le> 2 * r) then Some (norm (lo + 1))
         else if lo_ok then Some (norm lo) else None)"

fun first_decimal :: "nat list \<Rightarrow> int \<Rightarrow> int \<Rightarrow> int \<times> int" where
  "first_decimal [] m e = (m, 0)"
| "first_decimal (n # ns) m e =
     (case decimal_with n m e of Some d \<Rightarrow> d | None \<Rightarrow> first_decimal ns m e)"

text \<open>Nine digits distinguish all values of the type.\<close>

definition shortest_decimal :: "int \<Rightarrow> int \<Rightarrow> int \<times> int" where
  "shortest_decimal m e = first_decimal [1..<10] m e"

definition place_point :: "string \<Rightarrow> int \<Rightarrow> string" where
  "place_point ds k =
     (if 0 \<le> k then ds @ replicate (nat k) CHR ''0''
      else if int (length ds) + k \<le> 0
      then ''0.'' @ replicate (nat (- k - int (length ds))) CHR ''0'' @ ds
      else take (nat (int (length ds) + k)) ds @ ''.'' @ drop (nat (int (length ds) + k)) ds)"

definition show_f32 :: "f32 \<Rightarrow> string" where
  "show_f32 x =
     (case x of
        NaN \<Rightarrow> ''NaN''
      | Infinite s \<Rightarrow> (if s then ''-'' else '''') @ ''inf''
      | Finite s m e \<Rightarrow>
          (if s then ''-'' else '''')
          @ (if m = 0 then ''0''
             else (case shortest_decimal m e of (d, k) \<Rightarrow> place_point (show_int d) k)))"

lemma show_f32_examples:
  "show_f32 f32_ten = ''10''"
  "map_option show_f32 (parse_f32 ''55.50'') = Some ''55.5''"
  "map_option show_f32 (parse_f32 ''1e-5'') = Some ''0.00001''"
  by code_simp+

end
