(* ===== verification/Tunnel.thy ===== *)
theory Tunnel
  imports Errors F32
begin

text \<open>
  The data of a tunnel specification (\<open>src/tunnel.rs\<close>), the load-balancing strategy it
  names (the enumeration of \<open>src/state/strategy.rs\<close>) and the program's configuration
  (\<open>Args\<close> of \<open>src/config.rs\<close>).
\<close>

subsection \<open>Strategy names\<close>

datatype TunnelLBStrategy = Random | RoundRobin | MinimumOpenConnections

definition lb_default :: TunnelLBStrategy where
  "lb_default = Random"

instantiation TunnelLBStrategy :: default
begin

definition default_TunnelLBStrategy :: TunnelLBStrategy where
  "default_TunnelLBStrategy = lb_default"

instance ..

end

definition lb_from_str :: "string \<Rightarrow> TunnelLBStrategy result" where
  "lb_from_str s =
     (let l = to_lower s
      in if l = ''random'' then Inr Random
         else if l \<in> {''roundrobin'', ''round-robin'', ''round_robin''} then Inr RoundRobin
         else if l \<in> {''minimum-open-connections'', ''minimum_open_connections'',
                      ''minimumopenconnections'', ''min-open-connections'',
                      ''min_open_connections'', ''minopenconnections''}
              then Inr MinimumOpenConnections
         else Inl InvalidLBStrategy)"

fun lb_to_string :: "TunnelLBStrategy \<Rightarrow> string" where
  "lb_to_string Random = ''random''"
| "lb_to_string RoundRobin = ''round-robin''"
| "lb_to_string MinimumOpenConnections = ''minimum-open-connections''"

subsection \<open>Socket specifications\<close>

datatype SocketSpec = SocketSpec (inner: string)

text \<open>
  \<open>as_tuple\<close> unwraps twice: \<open>None\<close> is the panic on a text that is not normalized.
\<close>

definition strip_brackets :: "string \<Rightarrow> string" where
  "strip_brackets h =
     (if h \<noteq> [] \<and> hd h = CHR ''['' \<and> last h = CHR '']'' then butlast (tl h) else h)"

definition as_tuple :: "SocketSpec \<Rightarrow> (string \<times> u16) option" where
  "as_tuple s =
     (case rsplit_once CHR '':'' (inner s) of
        None \<Rightarrow> None
      | Some (h, p) \<Rightarrow>
          (case parse_u16 p of
             None \<Rightarrow> None
           | Some n \<Rightarrow> Some (strip_brackets h, n)))"

definition spec_port :: "SocketSpec \<Rightarrow> u16 option" where
  "spec_port s = map_option snd (as_tuple s)"

definition spec_host :: "SocketSpec \<Rightarrow> string option" where
  "spec_host s = map_option fst (as_tuple s)"

subsection \<open>Options and tunnels\<close>

record TunnelRemoteOptions =
  ro_errors_till_dead :: u64
  ro_connect_timeout :: f32
  ro_dead_retry :: f32
  ro_tls :: bool

record TunnelOptions =
  to_lb_strategy :: TunnelLBStrategy
  to_remote_connect_retries :: u16
  to_options :: TunnelRemoteOptions

definition DEFAULT_TUNNEL_OPTIONS :: TunnelOptions where
  "DEFAULT_TUNNEL_OPTIONS =
     \<lparr>to_lb_strategy = Random, to_remote_connect_retries = 3,
      to_options = \<lparr>ro_errors_till_dead = 1, ro_connect_timeout = f32_ten, ro_dead_retry = f32_ten,
                 ro_tls = False\<rparr>\<rparr>"

text \<open>
  The default options are a mutable static: \<open>static\<close> is its value, which is set once and read
  wherever options are not given.
\<close>

definition set_default_tunnel_options :: "TunnelOptions \<Rightarrow> TunnelOptions \<Rightarrow> TunnelOptions" where
  "set_default_tunnel_options opts static = opts"

definition default_tunnel_options :: "TunnelOptions \<Rightarrow> TunnelOptions" where
  "default_tunnel_options static = static"

lemma default_after_set [simp]:
  "default_tunnel_options (set_default_tunnel_options opts static) = opts"
  by (simp add: default_tunnel_options_def set_default_tunnel_options_def)

text \<open>\<open>Display\<close> of the options; a blank follows the comma before the last one.\<close>

definition options_to_string :: "TunnelOptions \<Rightarrow> string" where
  "options_to_string o1 =
     ''strategy='' @ lb_to_string (to_lb_strategy o1)
     @ '',retries='' @ show_word (to_remote_connect_retries o1)
     @ '',timeout='' @ show_f32 (ro_connect_timeout (to_options o1))
     @ '', errors='' @ show_word (ro_errors_till_dead (to_options o1))"

record Tunnel =
  tun_local :: SocketSpec
  tun_remote :: "SocketSpec list"
  tun_options :: "TunnelOptions option"

subsection \<open>Command-line configuration\<close>

record Args =
  arg_control_socket :: "SocketAddr option"
  arg_rpc_socket :: "SocketAddr option"
  arg_tunnels :: "string list option"
  arg_copy_buffer_size :: usize
  arg_remote_timeout :: f32
  arg_remote_retries :: u16
  arg_remote_errors :: u64
  arg_remote_dead_check_interval :: f32
  arg_help_tunnel :: bool
  arg_ca_bundle :: "string option"
  arg_prometheus_socket :: "SocketAddr option"

definition default_Args :: Args where
  "default_Args =
     \<lparr>arg_control_socket = None, arg_rpc_socket = None, arg_tunnels = None, arg_copy_buffer_size = 8192,
      arg_remote_timeout = f32_ten, arg_remote_retries = 3, arg_remote_errors = 1,
      arg_remote_dead_check_interval = f32_ten, arg_help_tunnel = False, arg_ca_bundle = None,
      arg_prometheus_socket = None\<rparr>"

text \<open>What \<open>main\<close> installs as the default options before anything else runs.\<close>

definition default_options_of_args :: "Args \<Rightarrow> TunnelOptions" where
  "default_options_of_args a =
     \<lparr>to_lb_strategy = lb_default, to_remote_connect_retries = arg_remote_retries a,
      to_options = \<lparr>ro_errors_till_dead = arg_remote_errors a, ro_connect_timeout = arg_remote_timeout a,
                 ro_dead_retry = arg_remote_dead_check_interval a, ro_tls = False\<rparr>\<rparr>"

lemma default_options_of_default_args:
  "default_options_of_args default_Args = DEFAULT_TUNNEL_OPTIONS"
  by (simp add: default_options_of_args_def default_Args_def DEFAULT_TUNNEL_OPTIONS_def
      lb_default_def)

lemma lb_roundtrip: "lb_from_str (lb_to_string k) = Inr k"
  by (cases k) (simp_all add: lb_from_str_def to_lower_def lower_char_def is_upper_def)

text \<open>A text in the form the parser produces splits into its host and its port.\<close>

lemma as_tuple_formatted:
  "as_tuple (SocketSpec (h @ CHR '':'' # show_word p)) = Some (strip_brackets h, p)"
proof -
  have "CHR '':'' \<notin> set (show_word p)"
    using show_int_digits [of "uint p"] by (auto simp: show_word_def list_all_iff is_digit_def)
  then show ?thesis
    by (simp add: as_tuple_def rsplit_once_last parse_u16_show)
qed

end
