(* ===== verification/Index_Map.thy ===== *)
theory Index_Map
  imports Prelude
begin

text \<open>
  Insertion-ordered maps: the containers \<open>IndexMap\<close> and \<open>DashMap\<close> that the state is made
  of, as association lists with distinct keys. Only their documented behaviour is used:
  a new key goes to the end, inserting at a present key keeps its position and replaces its
  value, \<open>get_index\<close> reads by position, and \<open>remove\<close> moves the last entry into the hole
  (\<open>IndexMap::remove\<close> of indexmap 1.9 is \<open>swap_remove\<close>). The iteration order of a
  \<open>DashMap\<close> is unspecified; the properties of the development say nothing that depends on it.

  The locale \<open>ordered_map\<close> is the interface the state relies on.
\<close>

type_synonym ('k, 'v) imap = "('k \<times> 'v) list"

definition im_wf :: "('k, 'v) imap \<Rightarrow> bool" where
  "im_wf m \<longleftrightarrow> distinct (map fst m)"

definition im_keys :: "('k, 'v) imap \<Rightarrow> 'k list" where
  "im_keys m = map fst m"

abbreviation im_get :: "('k, 'v) imap \<Rightarrow> 'k \<Rightarrow> 'v option" where
  "im_get \<equiv> map_of"

definition im_contains_key :: "('k, 'v) imap \<Rightarrow> 'k \<Rightarrow> bool" where
  "im_contains_key m k \<longleftrightarrow> im_get m k \<noteq> None"

fun im_insert :: "'k \<Rightarrow> 'v \<Rightarrow> ('k, 'v) imap \<Rightarrow> ('k, 'v) imap" where
  "im_insert k v [] = [(k, v)]"
| "im_insert k v ((k', v') # m) =
     (if k = k' then (k, v) # m else (k', v') # im_insert k v m)"

text \<open>\<open>get_mut\<close> followed by a mutation of the value found; nothing happens at an absent key.\<close>

fun im_update :: "'k \<Rightarrow> ('v \<Rightarrow> 'v) \<Rightarrow> ('k, 'v) imap \<Rightarrow> ('k, 'v) imap" where
  "im_update k f [] = []"
| "im_update k f ((k', v') # m) =
     (if k = k' then (k', f v') # m else (k', v') # im_update k f m)"

definition im_get_index :: "('k, 'v) imap \<Rightarrow> nat \<Rightarrow> ('k \<times> 'v) option" where
  "im_get_index m i = (if i < length m then Some (m ! i) else None)"

fun im_remove :: "'k \<Rightarrow> ('k, 'v) imap \<Rightarrow> ('k, 'v) imap" where
  "im_remove k [] = []"
| "im_remove k ((k', v') # m) =
     (if k = k' then (if m = [] then [] else last m # butlast m)
      else (k', v') # im_remove k m)"

definition im_of_list :: "('k \<times> 'v) list \<Rightarrow> ('k, 'v) imap" where
  "im_of_list kvs = fold (\<lambda>(k, v) m. im_insert k v m) kvs []"

subsection \<open>The interface\<close>

text \<open>
  What the state relies on: lookups after an insertion, an update or a removal, and that each
  operation keeps the keys distinct.
\<close>

locale ordered_map =
  fixes wf :: "'m \<Rightarrow> bool"
    and get :: "'m \<Rightarrow> 'k \<Rightarrow> 'v option"
    and keys :: "'m \<Rightarrow> 'k list"
    and insert_at :: "'k \<Rightarrow> 'v \<Rightarrow> 'm \<Rightarrow> 'm"
    and update_at :: "'k \<Rightarrow> ('v \<Rightarrow> 'v) \<Rightarrow> 'm \<Rightarrow> 'm"
    and remove_at :: "'k \<Rightarrow> 'm \<Rightarrow> 'm"
  assumes get_insert: "get (insert_at k v m) = (get m)(k \<mapsto> v)"
    and get_update: "get (update_at k f m) = (get m)(k := map_option f (get m k))"
    and get_remove: "wf m \<Longrightarrow> get (remove_at k m) = (get m)(k := None)"
    and wf_insert: "wf m \<Longrightarrow> wf (insert_at k v m)"
    and wf_update: "wf m \<Longrightarrow> wf (update_at k f m)"
    and wf_remove: "wf m \<Longrightarrow> wf (remove_at k m)"
    and dom_get: "dom (get m) = set (keys m)"
    and wf_keys: "wf m \<Longrightarrow> distinct (keys m)"
    and keys_update: "keys (update_at k f m) = keys m"
    and keys_insert_new: "get m k = None \<Longrightarrow> keys (insert_at k v m) = keys m @ [k]"
begin

lemma card_dom: "wf m \<Longrightarrow> card (dom (get m)) = length (keys m)"
  by (simp add: dom_get distinct_card [OF wf_keys])

lemma set_keys_remove: "wf m \<Longrightarrow> set (keys (remove_at k m)) = set (keys m) - {k}"
  using dom_get [of m] dom_get [of "remove_at k m"] by (auto simp: get_remove)

lemma set_keys_insert: "set (keys (insert_at k v m)) = Set.insert k (set (keys m))"
  using dom_get [of m] dom_get [of "insert_at k v m"] by (auto simp: get_insert)

lemma length_keys_remove:
  assumes "wf m" and "get m k \<noteq> None"
  shows "Suc (length (keys (remove_at k m))) = length (keys m)"
proof -
  have "length (keys (remove_at k m)) = card (set (keys m) - {k})"
    using assms(1) by (metis distinct_card set_keys_remove wf_keys wf_remove)
  moreover have "k \<in> set (keys m)"
    using assms(2) dom_get by fastforce
  ultimately show ?thesis
    using assms(1) by (metis List.finite_set card.remove distinct_card wf_keys)
qed

lemma length_keys_insert_new:
  "get m k = None \<Longrightarrow> length (keys (insert_at k v m)) = Suc (length (keys m))"
  by (simp add: keys_insert_new)

end

subsection \<open>Association lists implement it\<close>

lemma im_remove_snoc: "im_remove k ((k, v) # ys @ [y]) = y # ys"
  by simp

lemma set_im_remove:
  "im_wf m \<Longrightarrow> set (im_remove k m) = {kv \<in> set m. fst kv \<noteq> k}"
proof (induction k m rule: im_remove.induct)
  case (1 k)
  then show ?case by simp
next
  case (2 k k' v' m)
  show ?case
  proof (cases m rule: rev_cases)
    case Nil
    then show ?thesis by auto
  next
    case (snoc ys y)
    with "2.prems" "2.IH" show ?thesis
      by (cases "k = k'") (auto simp: im_wf_def rev_image_eqI)
  qed
qed

lemma im_wf_remove [wf_intros]: "im_wf m \<Longrightarrow> im_wf (im_remove k m)"
proof (induction k m rule: im_remove.induct)
  case (1 k)
  then show ?case by simp
next
  case (2 k k' v' m)
  then have wf: "im_wf m" by (simp add: im_wf_def)
  show ?case
  proof (cases "k = k'")
    case True
    with wf show ?thesis
      by (cases m rule: rev_cases) (auto simp: im_wf_def)
  next
    case False
    with "2.IH" wf have "im_wf (im_remove k m)" by simp
    moreover have "k' \<notin> fst ` set (im_remove k m)"
      using "2.prems" set_im_remove [OF wf, of k] by (auto simp: im_wf_def)
    ultimately show ?thesis using False by (simp add: im_wf_def)
  qed
qed

lemma im_get_insert [simp]: "im_get (im_insert k v m) = (im_get m)(k \<mapsto> v)"
  by (induction k v m rule: im_insert.induct) auto

lemma im_get_update [simp]:
  "im_get (im_update k f m) = (im_get m)(k := map_option f (im_get m k))"
  by (induction k f m rule: im_update.induct) auto

lemma im_get_remove [simp]: "im_wf m \<Longrightarrow> im_get (im_remove k m) = (im_get m)(k := None)"
proof
  fix x
  assume wf: "im_wf m"
  have "(im_get (im_remove k m) x = Some v) = (im_get m x = Some v \<and> x \<noteq> k)" for v
    using wf im_wf_remove [OF wf, of k] set_im_remove [OF wf, of k]
    by (auto simp: im_wf_def map_of_eq_Some_iff)
  then show "im_get (im_remove k m) x = ((im_get m)(k := None)) x"
    by (cases "im_get m x") (auto simp: fun_upd_apply intro: option.exhaust)
qed

lemma im_keys_update [simp]: "im_keys (im_update k f m) = im_keys m"
  by (induction k f m rule: im_update.induct) (auto simp: im_keys_def)

lemma im_keys_insert:
  "im_keys (im_insert k v m) = (if im_contains_key m k then im_keys m else im_keys m @ [k])"
  by (induction k v m rule: im_insert.induct) (auto simp: im_keys_def im_contains_key_def)

lemma im_contains_key_iff: "im_contains_key m k \<longleftrightarrow> k \<in> set (im_keys m)"
  by (auto simp: im_contains_key_def im_keys_def weak_map_of_SomeI map_of_eq_None_iff)

lemma im_wf_iff: "im_wf m \<longleftrightarrow> distinct (im_keys m)"
  by (simp add: im_wf_def im_keys_def)

lemma im_wf_insert [wf_intros]: "im_wf m \<Longrightarrow> im_wf (im_insert k v m)"
  by (auto simp: im_wf_iff im_keys_insert im_contains_key_iff)

lemma im_wf_update [wf_intros]: "im_wf m \<Longrightarrow> im_wf (im_update k f m)"
  by (simp add: im_wf_iff)

lemma im_wf_Nil [simp]: "im_wf []"
  by (simp add: im_wf_def)

interpretation im: ordered_map im_wf im_get im_keys im_insert im_update im_remove
proof unfold_locales
  fix m :: "('a, 'b) imap" and k :: 'a and v :: 'b
  show "im_get m k = None \<Longrightarrow> im_keys (im_insert k v m) = im_keys m @ [k]"
    by (simp add: im_keys_insert im_contains_key_def)
  show "dom (im_get m) = set (im_keys m)"
    by (simp add: im_keys_def dom_map_of_conv_image_fst)
qed (simp_all add: wf_intros im_wf_iff [symmetric])

subsection \<open>Facts of the representation\<close>

lemma im_length: "length m = length (im_keys m)"
  by (simp add: im_keys_def)

lemma im_length_remove:
  "im_wf m \<Longrightarrow> im_get m k \<noteq> None \<Longrightarrow> Suc (length (im_remove k m)) = length m"
  using im.length_keys_remove [of m k] by (simp add: im_length)

lemma im_length_insert_new: "im_get m k = None \<Longrightarrow> length (im_insert k v m) = Suc (length m)"
  using im.length_keys_insert_new [of m k v] by (simp add: im_length)

lemma im_length_update [simp]: "length (im_update k f m) = length m"
  by (simp add: im_length)

lemma im_update_absent: "im_get m k = None \<Longrightarrow> im_update k f m = m"
  by (induction k f m rule: im_update.induct) (auto split: if_splits)

lemma im_get_index_SomeD:
  "im_wf m \<Longrightarrow> im_get_index m i = Some (k, v) \<Longrightarrow> i < length m \<and> im_get m k = Some v"
  by (auto simp: im_get_index_def im_wf_def split: if_splits intro: map_of_is_SomeI
      intro!: map_of_is_SomeI simp: in_set_conv_nth)

lemma im_wf_of_list: "im_wf (im_of_list kvs)"
proof -
  have "im_wf (fold (\<lambda>(k, v) m. im_insert k v m) kvs m)" if "im_wf m" for m
    using that by (induction kvs arbitrary: m) (auto intro: im_wf_insert)
  then show ?thesis by (simp add: im_of_list_def)
qed

lemma set_keys_of_list: "set (im_keys (im_of_list kvs)) = fst ` set kvs"
proof -
  have "set (im_keys (fold (\<lambda>(k, v) m. im_insert k v m) kvs m)) = set (im_keys m) \<union> fst ` set kvs"
    for m :: "('a, 'b) imap"
    by (induction kvs arbitrary: m) (auto simp: im.set_keys_insert)
  then show ?thesis by (simp add: im_of_list_def im_keys_def)
qed

end
