(* ===== verification/Stats.thy ===== *)
theory Stats
  imports Tunnel Index_Map
begin

text \<open>
  Statistics and metrics instruments (\<open>src/state/stats.rs\<close>).

  A metrics instrument is known to the meter by its name; adding to it hands the meter an
  amount and the attributes \<open>tunnel\<close> and \<open>remote\<close>. What the program decides is which amounts
  it adds to which instruments, so the model keeps the list of these additions.
\<close>

subsection \<open>Statistics\<close>

record TunnelStats =
  ts_bytes_sent :: u64
  ts_streams_open :: usize
  ts_bytes_received :: u64
  ts_total_connections :: u64
  ts_errors :: u64

definition default_TunnelStats :: TunnelStats where
  "default_TunnelStats =
     \<lparr>ts_bytes_sent = 0, ts_streams_open = 0, ts_bytes_received = 0,
      ts_total_connections = 0, ts_errors = 0\<rparr>"

record RemoteStats =
  rs_bytes_sent :: u64
  rs_streams_open :: usize
  rs_streams_pending :: usize
  rs_bytes_received :: u64
  rs_total_connections :: u64
  rs_last_error_time :: "SystemTime option"
  rs_num_errors :: u64
  rs_total_errors :: u64

definition default_RemoteStats :: RemoteStats where
  "default_RemoteStats =
     \<lparr>rs_bytes_sent = 0, rs_streams_open = 0, rs_streams_pending = 0, rs_bytes_received = 0,
      rs_total_connections = 0, rs_last_error_time = None, rs_num_errors = 0,
      rs_total_errors = 0\<rparr>"

text \<open>
  The time of the last error as it is serialized: milliseconds since the epoch, truncated
  to 64 bits; a time before the epoch is serialized as absent.
\<close>

definition to_epoch_millis :: "SystemTime option \<Rightarrow> u64 option" where
  "to_epoch_millis t =
     (case t of
        None \<Rightarrow> None
      | Some ns \<Rightarrow> if ns < 0 then None else Some (of_int (ns div 1000000)))"

subsection \<open>Metrics\<close>

datatype instrument = Counter string | UpDownCounter string

text \<open>
  The value of an attribute is the text of a specification (the conversion from a borrowed and
  from an owned one); different specifications have different values, so the model keeps the
  specification itself.
\<close>

definition attribute_value :: "SocketSpec \<Rightarrow> string" where
  "attribute_value value = inner value"

lemma attribute_value_inject: "attribute_value s = attribute_value s' \<longleftrightarrow> s = s'"
  by (cases s; cases s') (simp add: attribute_value_def)

datatype metric_event = Add instrument int "(string \<times> SocketSpec) list"

record TunnelMetrics =
  tm_bytes_sent :: instrument
  tm_streams_open :: instrument
  tm_bytes_received :: instrument
  tm_total_connections :: instrument
  tm_errors :: instrument

definition new_TunnelMetrics :: TunnelMetrics where
  "new_TunnelMetrics =
     \<lparr>tm_bytes_sent = Counter ''tunnel_bytes_sent'',
      tm_streams_open = UpDownCounter ''tunnel_streams_open'',
      tm_bytes_received = Counter ''tunnel_bytes_received'',
      tm_total_connections = Counter ''tunnel_total_connections'',
      tm_errors = Counter ''tunnel_errors''\<rparr>"

record RemoteMetrics =
  rm_bytes_sent :: instrument
  rm_streams_open :: instrument
  rm_streams_pending :: instrument
  rm_bytes_received :: instrument
  rm_total_connections :: instrument
  rm_num_errors :: instrument
  rm_total_errors :: instrument

definition new_RemoteMetrics :: RemoteMetrics where
  "new_RemoteMetrics =
     \<lparr>rm_bytes_sent = Counter ''remote_bytes_sent'',
      rm_streams_open = UpDownCounter ''remote_streams_open'',
      rm_streams_pending = UpDownCounter ''remote_streams_pending'',
      rm_bytes_received = Counter ''remote_bytes_received'',
      rm_total_connections = Counter ''remote_total_connections'',
      rm_num_errors = UpDownCounter ''remote_errors'',
      rm_total_errors = Counter ''retote_total_error''\<rparr>"

text \<open>
  The two forms of the macro \<open>metric_add!\<close>: the attributes are the tunnel, or the tunnel and
  the remote.
\<close>

definition metric_add1 :: "(instrument \<times> int) list \<Rightarrow> SocketSpec \<Rightarrow> metric_event list" where
  "metric_add1 mvs tun = map (\<lambda>(m, v). Add m v [(''tunnel'', tun)]) mvs"

definition metric_add2 ::
  "(instrument \<times> int) list \<Rightarrow> SocketSpec \<Rightarrow> SocketSpec \<Rightarrow> metric_event list" where
  "metric_add2 mvs tun rem = map (\<lambda>(m, v). Add m v [(''tunnel'', tun), (''remote'', rem)]) mvs"

text \<open>What a list of additions adds to one instrument.\<close>

fun metric_sum :: "instrument \<Rightarrow> metric_event list \<Rightarrow> int" where
  "metric_sum m [] = 0"
| "metric_sum m (Add m' v attrs # es) = (if m = m' then v else 0) + metric_sum m es"

lemma metric_sum_append [simp]: "metric_sum m (es @ fs) = metric_sum m es + metric_sum m fs"
  by (induction m es rule: metric_sum.induct) auto

lemmas metrics_defs = metric_add1_def metric_add2_def new_TunnelMetrics_def new_RemoteMetrics_def

end
