(* ===== verification/Info.thy ===== *)
theory Info
  imports Stats
begin

text \<open>
  The records of one tunnel and of one remote end (\<open>src/state/info.rs\<close>) and their methods.
  A method returns the changed record and what it adds to the metrics; \<open>SystemTime::now()\<close> is
  the argument \<open>now\<close>.

  A close channel and a task handle are identified by numbers.
\<close>

datatype LBStrategy = RandomStrategy | RoundRobinStrategy | MinimumOpenConnectionsStrategy

fun create :: "TunnelLBStrategy \<Rightarrow> LBStrategy" where
  "create Random = RandomStrategy"
| "create RoundRobin = RoundRobinStrategy"
| "create MinimumOpenConnections = MinimumOpenConnectionsStrategy"

type_synonym task_id = nat
type_synonym channel_id = nat

record RemoteInfo =
  ri_stats :: RemoteStats
  ri_metrics :: RemoteMetrics

record DeadRemote =
  dr_remote :: RemoteInfo
  dr_join_handle :: "task_id option"

type_synonym RemotesMap = "(SocketSpec, RemoteInfo) imap"
type_synonym DeadRemotesMap = "(SocketSpec, DeadRemote) imap"

record TunnelInfo =
  ti_stats :: TunnelStats
  ti_metrics :: TunnelMetrics
  ti_close_channel :: channel_id
  ti_remotes :: RemotesMap
  ti_dead_remotes :: DeadRemotesMap
  ti_options :: TunnelOptions
  ti_lb_strategy :: LBStrategy
  ti_last_selected_index :: "nat option"

subsection \<open>Remote ends\<close>

definition new_RemoteInfo :: RemoteInfo where
  "new_RemoteInfo = \<lparr>ri_stats = default_RemoteStats, ri_metrics = new_RemoteMetrics\<rparr>"

definition ri_new_pending_stream ::
  "SocketSpec \<Rightarrow> SocketSpec \<Rightarrow> RemoteInfo \<Rightarrow> RemoteInfo \<times> metric_event list" where
  "ri_new_pending_stream tunnel remote ri =
     (ri\<lparr>ri_stats := (ri_stats ri)\<lparr>rs_streams_pending := rs_streams_pending (ri_stats ri) + 1\<rparr>\<rparr>,
      metric_add2 [(rm_streams_pending (ri_metrics ri), 1)] tunnel remote)"

definition ri_remote_connected ::
  "SocketSpec \<Rightarrow> SocketSpec \<Rightarrow> RemoteInfo \<Rightarrow> RemoteInfo \<times> metric_event list" where
  "ri_remote_connected tunnel remote ri =
     (let s = ri_stats ri; m = ri_metrics ri
      in (ri\<lparr>ri_stats := s\<lparr>rs_streams_open := rs_streams_open s + 1,
                           rs_total_connections := rs_total_connections s + 1,
                           rs_streams_pending := rs_streams_pending s - 1,
                           rs_num_errors := 0\<rparr>\<rparr>,
          metric_add2 [(rm_streams_open m, 1), (rm_total_connections m, 1),
                       (rm_streams_pending m, -1), (rm_num_errors m, sint (- rs_num_errors s))]
            tunnel remote))"

definition ri_error ::
  "SystemTime \<Rightarrow> SocketSpec \<Rightarrow> SocketSpec \<Rightarrow> SocketAddr option \<Rightarrow> RemoteInfo
     \<Rightarrow> RemoteInfo \<times> metric_event list" where
  "ri_error now tunnel remote client_addr ri =
     (let s = ri_stats ri; m = ri_metrics ri;
          s1 = s\<lparr>rs_total_errors := rs_total_errors s + 1,
                 rs_num_errors := rs_num_errors s + 1,
                 rs_last_error_time := Some now\<rparr>;
          s2 = (if client_addr \<noteq> None
                then s1\<lparr>rs_streams_pending := rs_streams_pending s1 - 1\<rparr> else s1)
      in (ri\<lparr>ri_stats := s2\<rparr>,
          metric_add2 ([(rm_total_errors m, 1), (rm_num_errors m, 1)]
                       @ (if client_addr \<noteq> None then [(rm_streams_pending m, -1)] else []))
            tunnel remote))"

definition ri_remote_recovered ::
  "SocketSpec \<Rightarrow> SocketSpec \<Rightarrow> RemoteInfo \<Rightarrow> RemoteInfo \<times> metric_event list" where
  "ri_remote_recovered tunnel remote ri =
     (ri\<lparr>ri_stats := (ri_stats ri)\<lparr>rs_num_errors := 0\<rparr>\<rparr>,
      metric_add2 [(rm_num_errors (ri_metrics ri), sint (- rs_num_errors (ri_stats ri)))]
        tunnel remote)"

definition ri_update_moved_bytes ::
  "bool \<Rightarrow> u64 \<Rightarrow> SocketSpec \<Rightarrow> SocketSpec \<Rightarrow> RemoteInfo \<Rightarrow> RemoteInfo \<times> metric_event list" where
  "ri_update_moved_bytes sent bytes tunnel remote ri =
     (let s = ri_stats ri; m = ri_metrics ri
      in if sent
         then (ri\<lparr>ri_stats := s\<lparr>rs_bytes_sent := rs_bytes_sent s + bytes\<rparr>\<rparr>,
               metric_add2 [(rm_bytes_sent m, uint bytes)] tunnel remote)
         else (ri\<lparr>ri_stats := s\<lparr>rs_bytes_received := rs_bytes_received s + bytes\<rparr>\<rparr>,
               metric_add2 [(rm_bytes_received m, uint bytes)] tunnel remote))"

definition ri_client_disconnected ::
  "SocketSpec \<Rightarrow> SocketSpec \<Rightarrow> RemoteInfo \<Rightarrow> RemoteInfo \<times> metric_event list" where
  "ri_client_disconnected tunnel remote ri =
     (ri\<lparr>ri_stats := (ri_stats ri)\<lparr>rs_streams_open := rs_streams_open (ri_stats ri) - 1\<rparr>\<rparr>,
      metric_add2 [(rm_streams_open (ri_metrics ri), -1)] tunnel remote)"

lemmas ri_defs = ri_new_pending_stream_def ri_remote_connected_def ri_error_def
  ri_remote_recovered_def ri_update_moved_bytes_def ri_client_disconnected_def

subsection \<open>Tunnels\<close>

definition new_TunnelInfo :: "channel_id \<Rightarrow> SocketSpec list \<Rightarrow> TunnelOptions \<Rightarrow> TunnelInfo" where
  "new_TunnelInfo close_channel remotes opts =
     \<lparr>ti_stats = default_TunnelStats, ti_metrics = new_TunnelMetrics,
      ti_close_channel = close_channel,
      ti_remotes = im_of_list (map (\<lambda>k. (k, new_RemoteInfo)) remotes),
      ti_dead_remotes = [], ti_options = opts, ti_lb_strategy = create (to_lb_strategy opts),
      ti_last_selected_index = None\<rparr>"

definition ti_client_connected ::
  "SocketSpec \<Rightarrow> TunnelInfo \<Rightarrow> TunnelInfo \<times> metric_event list" where
  "ti_client_connected tunnel ti =
     (let s = ti_stats ti; m = ti_metrics ti
      in (ti\<lparr>ti_stats := s\<lparr>ts_total_connections := ts_total_connections s + 1,
                           ts_streams_open := ts_streams_open s + 1\<rparr>\<rparr>,
          metric_add1 [(tm_total_connections m, 1), (tm_streams_open m, 1)] tunnel))"

definition ti_client_disconnected ::
  "SocketSpec \<Rightarrow> TunnelInfo \<Rightarrow> TunnelInfo \<times> metric_event list" where
  "ti_client_disconnected tunnel ti =
     (ti\<lparr>ti_stats := (ti_stats ti)\<lparr>ts_streams_open := ts_streams_open (ti_stats ti) - 1\<rparr>\<rparr>,
      metric_add1 [(tm_streams_open (ti_metrics ti), -1)] tunnel)"

definition ti_remote_error ::
  "SocketSpec \<Rightarrow> SocketSpec \<Rightarrow> TunnelInfo \<Rightarrow> TunnelInfo \<times> metric_event list" where
  "ti_remote_error tunnel remote ti =
     (ti\<lparr>ti_stats := (ti_stats ti)\<lparr>ts_errors := ts_errors (ti_stats ti) + 1\<rparr>\<rparr>,
      metric_add2 [(tm_errors (ti_metrics ti), 1)] tunnel remote)"

definition ti_update_moved_bytes ::
  "bool \<Rightarrow> u64 \<Rightarrow> SocketSpec \<Rightarrow> TunnelInfo \<Rightarrow> TunnelInfo \<times> metric_event list" where
  "ti_update_moved_bytes sent bytes tunnel ti =
     (let s = ti_stats ti; m = ti_metrics ti
      in if sent
         then (ti\<lparr>ti_stats := s\<lparr>ts_bytes_sent := ts_bytes_sent s + bytes\<rparr>\<rparr>,
               metric_add1 [(tm_bytes_sent m, uint bytes)] tunnel)
         else (ti\<lparr>ti_stats := s\<lparr>ts_bytes_received := ts_bytes_received s + bytes\<rparr>\<rparr>,
               metric_add1 [(tm_bytes_sent m, uint bytes)] tunnel))"

lemmas ti_defs = ti_client_connected_def ti_client_disconnected_def ti_remote_error_def
  ti_update_moved_bytes_def

subsection \<open>Metrics follow the statistics\<close>

text \<open>
  A method of a remote mirrors its statistics when what it adds to each instrument is, modulo
  the width of the counter, what it adds to the field of the same meaning.
\<close>

definition remote_mirrors :: "RemoteInfo \<Rightarrow> RemoteInfo \<times> metric_event list \<Rightarrow> bool" where
  "remote_mirrors ri res \<longleftrightarrow>
     (let m = ri_metrics ri; s = ri_stats ri; s' = ri_stats (fst res); es = snd res
      in of_int (metric_sum (rm_bytes_sent m) es) = rs_bytes_sent s' - rs_bytes_sent s
       \<and> of_int (metric_sum (rm_streams_open m) es) = rs_streams_open s' - rs_streams_open s
       \<and> of_int (metric_sum (rm_streams_pending m) es)
           = rs_streams_pending s' - rs_streams_pending s
       \<and> of_int (metric_sum (rm_bytes_received m) es) = rs_bytes_received s' - rs_bytes_received s
       \<and> of_int (metric_sum (rm_total_connections m) es)
           = rs_total_connections s' - rs_total_connections s
       \<and> of_int (metric_sum (rm_num_errors m) es) = rs_num_errors s' - rs_num_errors s
       \<and> of_int (metric_sum (rm_total_errors m) es) = rs_total_errors s' - rs_total_errors s)"

lemmas remote_mirror_simps = remote_mirrors_def ri_defs metrics_defs Let_def

text \<open>
  Every method of a remote end adds to each of its seven metrics exactly what it adds to
  the statistics field of the same meaning (modulo 2^64), error and recovery resets included.
\<close>

lemma remote_metrics_mirror_stats:
  assumes "ri_metrics ri = new_RemoteMetrics"
  shows "remote_mirrors ri (ri_new_pending_stream t r ri)
    \<and> remote_mirrors ri (ri_remote_connected t r ri)
    \<and> remote_mirrors ri (ri_error now t r c ri)
    \<and> remote_mirrors ri (ri_remote_recovered t r ri)
    \<and> remote_mirrors ri (ri_update_moved_bytes sent n t r ri)
    \<and> remote_mirrors ri (ri_client_disconnected t r ri)"
  using assms by (simp add: remote_mirror_simps)

lemma remote_metrics_mirror_stats_witness:
  "remote_mirrors new_RemoteInfo (ri_new_pending_stream (SocketSpec ''a:1'') (SocketSpec ''b:2'') new_RemoteInfo)"
proof -
  have h: "ri_metrics new_RemoteInfo = new_RemoteMetrics" by (simp add: new_RemoteInfo_def)
  show ?thesis by (rule remote_metrics_mirror_stats [OF h, THEN conjunct1])
qed

text \<open>
  The tunnel's own metrics follow its statistics for connections, errors and sent bytes,
  but bytes received from the remote are added to the counter of sent bytes: no method ever
  adds to \<open>tunnel_bytes_received\<close>.
\<close>

lemma tunnel_received_bytes_counted_as_sent:
  assumes "ti_metrics ti = new_TunnelMetrics"
  shows "metric_sum (tm_bytes_received (ti_metrics ti)) (snd (ti_client_connected t ti)) = 0
    \<and> metric_sum (tm_bytes_received (ti_metrics ti)) (snd (ti_client_disconnected t ti)) = 0
    \<and> metric_sum (tm_bytes_received (ti_metrics ti)) (snd (ti_remote_error t r ti)) = 0
    \<and> metric_sum (tm_bytes_received (ti_metrics ti)) (snd (ti_update_moved_bytes sent n t ti)) = 0
    \<and> metric_sum (tm_bytes_sent (ti_metrics ti)) (snd (ti_update_moved_bytes False n t ti)) = uint n
    \<and> ts_bytes_received (ti_stats (fst (ti_update_moved_bytes False n t ti)))
        = ts_bytes_received (ti_stats ti) + n
    \<and> ts_bytes_sent (ti_stats (fst (ti_update_moved_bytes False n t ti)))
        = ts_bytes_sent (ti_stats ti)"
  using assms by (simp add: ti_defs metrics_defs Let_def)

lemma tunnel_received_bytes_counted_as_sent_witness:
  "metric_sum (tm_bytes_sent new_TunnelMetrics)
     (snd (ti_update_moved_bytes False 7 (SocketSpec ''a:1'')
       (new_TunnelInfo 0 [] DEFAULT_TUNNEL_OPTIONS))) = 7"
proof -
  let ?ti = "new_TunnelInfo 0 [] DEFAULT_TUNNEL_OPTIONS"
  have h: "ti_metrics ?ti = new_TunnelMetrics" by (simp add: new_TunnelInfo_def)
  show ?thesis
    using tunnel_received_bytes_counted_as_sent [OF h, of "SocketSpec ''a:1''" _ True 7] h by simp
qed

end
