(* ===== verification/Strategy.thy ===== *)
theory Strategy
  imports Info
begin

text \<open>
  Load balancing (\<open>src/state/strategy.rs\<close>) and the selection of a remote by a tunnel
  (\<open>TunnelInfo::select_remote\<close> of \<open>src/state/info.rs\<close>).

  A strategy returns an index into the live remotes. \<open>None\<close> is a panic: drawing from an empty
  range, or the remainder by zero. A random draw is the argument \<open>rnd\<close>: \<open>gen_range(0..n)\<close> is
  \<open>rnd mod n\<close>, which ranges over all of \<open>0..n\<close> as \<open>rnd\<close> does.
\<close>

subsection \<open>The strategies\<close>

definition gen_range :: "nat \<Rightarrow> nat \<Rightarrow> nat option" where
  "gen_range rnd n = (if n = 0 then None else Some (rnd mod n))"

definition random_select :: "nat \<Rightarrow> TunnelInfo \<Rightarrow> nat result option" where
  "random_select rnd ti = map_option Inr (gen_range rnd (length (ti_remotes ti)))"

definition round_robin_select :: "nat \<Rightarrow> TunnelInfo \<Rightarrow> nat result option" where
  "round_robin_select rnd ti =
     (let size = length (ti_remotes ti);
          last = (case ti_last_selected_index ti of Some i \<Rightarrow> i | None \<Rightarrow> size - 1)
      in if size = 0 then None else Some (Inr ((last + 1) mod size)))"

definition open_conns :: "RemoteInfo \<Rightarrow> usize" where
  "open_conns r = rs_streams_open (ri_stats r) + rs_streams_pending (ri_stats r)"

fun min_open_scan :: "nat \<Rightarrow> usize list \<Rightarrow> nat \<Rightarrow> usize \<Rightarrow> nat" where
  "min_open_scan idx [] min_idx min_val = min_idx"
| "min_open_scan idx (c # cs) min_idx min_val =
     (if c = 0 then idx
      else if c < min_val then min_open_scan (Suc idx) cs idx c
      else min_open_scan (Suc idx) cs min_idx min_val)"

definition min_open_select :: "nat \<Rightarrow> TunnelInfo \<Rightarrow> nat result option" where
  "min_open_select rnd ti =
     Some (Inr (min_open_scan 0 (map (\<lambda>(_, r). open_conns r) (ti_remotes ti)) 0 (- 1)))"

fun lb_select :: "LBStrategy \<Rightarrow> nat \<Rightarrow> TunnelInfo \<Rightarrow> nat result option" where
  "lb_select RandomStrategy = random_select"
| "lb_select RoundRobinStrategy = round_robin_select"
| "lb_select MinimumOpenConnectionsStrategy = min_open_select"

subsection \<open>Selecting a remote\<close>

definition ti_select_with ::
  "(nat \<Rightarrow> TunnelInfo \<Rightarrow> nat result option) \<Rightarrow> nat \<Rightarrow> TunnelInfo
     \<Rightarrow> (SocketSpec result \<times> TunnelInfo) option" where
  "ti_select_with select rnd ti =
     (let size = length (ti_remotes ti)
      in if size = 0 then Some (Inl NoRemote, ti)
         else (case (if size = 1 then Some (Inr 0) else select rnd ti) of
                 None \<Rightarrow> None
               | Some (Inl e) \<Rightarrow> Some (Inl e, ti)
               | Some (Inr idx) \<Rightarrow>
                   Some (case im_get_index (ti_remotes ti) idx of
                           Some (k, _) \<Rightarrow> Inr k
                         | None \<Rightarrow> Inl NoRemote,
                         ti\<lparr>ti_last_selected_index := Some idx\<rparr>)))"

definition ti_select_remote ::
  "nat \<Rightarrow> TunnelInfo \<Rightarrow> (SocketSpec result \<times> TunnelInfo) option" where
  "ti_select_remote rnd ti = ti_select_with (lb_select (ti_lb_strategy ti)) rnd ti"

subsection \<open>The contract of a strategy\<close>

text \<open>
  What \<open>select_remote\<close> relies on: with a remote to choose from, a strategy neither panics nor
  fails and its index is in range.
\<close>

locale lb_strategy =
  fixes select :: "nat \<Rightarrow> TunnelInfo \<Rightarrow> nat result option"
  assumes select_in_range:
    "ti_remotes ti \<noteq> [] \<Longrightarrow> \<exists>idx < length (ti_remotes ti). select rnd ti = Some (Inr idx)"
begin

lemma selects_live:
  assumes "ti_remotes ti \<noteq> []"
  shows "\<exists>idx < length (ti_remotes ti). ti_select_with select rnd ti
    = Some (Inr (fst (ti_remotes ti ! idx)), ti\<lparr>ti_last_selected_index := Some idx\<rparr>)"
proof -
  obtain idx where idx: "idx < length (ti_remotes ti)"
    and sel: "(if length (ti_remotes ti) = 1 then Some (Inr 0) else select rnd ti) = Some (Inr idx)"
    using select_in_range [OF assms, of rnd] assms by (auto split: if_splits)
  then have "ti_select_with select rnd ti
      = Some (Inr (fst (ti_remotes ti ! idx)), ti\<lparr>ti_last_selected_index := Some idx\<rparr>)"
    using assms by (simp add: ti_select_with_def Let_def im_get_index_def split: prod.split)
  with idx show ?thesis by blast
qed

end

lemma min_open_scan_range:
  "min_idx < idx + length cs \<Longrightarrow> min_open_scan idx cs min_idx min_val < idx + length cs"
  by (induction idx cs min_idx min_val rule: min_open_scan.induct) auto

interpretation lb_random: lb_strategy random_select
  by unfold_locales (simp add: random_select_def gen_range_def)

interpretation lb_round_robin: lb_strategy round_robin_select
  by unfold_locales (simp add: round_robin_select_def Let_def)

interpretation lb_min_open: lb_strategy min_open_select
proof unfold_locales
  fix ti :: TunnelInfo and rnd
  assume "ti_remotes ti \<noteq> []"
  then show "\<exists>idx < length (ti_remotes ti). min_open_select rnd ti = Some (Inr idx)"
    using min_open_scan_range [of 0 0 "map (\<lambda>(_, r). open_conns r) (ti_remotes ti)" "- 1"]
    by (simp add: min_open_select_def)
qed

interpretation lb: lb_strategy "lb_select k" for k
  by (cases k) (simp_all add: lb_random.lb_strategy_axioms lb_round_robin.lb_strategy_axioms
      lb_min_open.lb_strategy_axioms)

text \<open>
  Selecting a remote never panics. Without a live remote it fails with \<open>NoRemote\<close> and
  changes nothing; otherwise, whatever the strategy and the random draw, it returns one of the
  live remotes and records its index.
\<close>

lemma select_remote_total:
  "(ti_remotes ti = [] \<longrightarrow> ti_select_remote rnd ti = Some (Inl NoRemote, ti))
   \<and> (ti_remotes ti \<noteq> [] \<longrightarrow>
       (\<exists>idx < length (ti_remotes ti). ti_select_remote rnd ti
          = Some (Inr (fst (ti_remotes ti ! idx)), ti\<lparr>ti_last_selected_index := Some idx\<rparr>)))"
  using lb.selects_live by (auto simp: ti_select_remote_def ti_select_with_def)

lemma select_remote_total_witness:
  "ti_select_remote 0 (new_TunnelInfo 0 [SocketSpec ''b:2''] DEFAULT_TUNNEL_OPTIONS)
   = Some (Inr (SocketSpec ''b:2''),
       (new_TunnelInfo 0 [SocketSpec ''b:2''] DEFAULT_TUNNEL_OPTIONS)
         \<lparr>ti_last_selected_index := Some 0\<rparr>)"
proof -
  let ?ti = "new_TunnelInfo 0 [SocketSpec ''b:2''] DEFAULT_TUNNEL_OPTIONS"
  have r: "ti_remotes ?ti = [(SocketSpec ''b:2'', new_RemoteInfo)]"
    by (simp add: new_TunnelInfo_def im_of_list_def)
  then show ?thesis
    using select_remote_total [THEN conjunct2, rule_format, of ?ti 0] by auto
qed

subsection \<open>Minimum open connections\<close>

text \<open>The first position of the least element.\<close>

definition first_min :: "usize list \<Rightarrow> nat \<Rightarrow> bool" where
  "first_min xs r \<longleftrightarrow>
     r < length xs \<and> (\<forall>j < length xs. xs ! r \<le> xs ! j) \<and> (\<forall>j < r. xs ! r < xs ! j)"

lemma first_min_snoc_less:
  "first_min xs r \<Longrightarrow> c < xs ! r \<Longrightarrow> first_min (xs @ [c]) (length xs)"
  by (fastforce simp: first_min_def nth_append less_Suc_eq)

lemma first_min_snoc_ge:
  "first_min xs r \<Longrightarrow> \<not> c < xs ! r \<Longrightarrow> first_min (xs @ [c]) r"
  by (auto simp: first_min_def nth_append less_Suc_eq)

lemma first_min_zero:
  assumes "0 \<notin> set pre"
  shows "first_min (pre @ 0 # cs) (length pre)"
proof -
  have "0 < pre ! j" if "j < length pre" for j
    using assms that by (metis nth_mem word_neq_0_conv)
  then show ?thesis by (simp add: first_min_def nth_append)
qed

lemma min_open_scan_first_min:
  assumes "first_min pre mi" and "0 \<notin> set pre"
  shows "first_min (pre @ cs) (min_open_scan (length pre) cs mi (pre ! mi))"
  using assms
proof (induction cs arbitrary: pre mi)
  case Nil
  then show ?case by simp
next
  case (Cons c cs)
  have len: "length (pre @ [c]) = Suc (length pre)" and at: "(pre @ [c]) ! length pre = c"
    by simp_all
  have keep: "(pre @ [c]) ! mi = pre ! mi"
    using Cons.prems(1) by (simp add: first_min_def nth_append)
  consider "c = 0" | "c \<noteq> 0" "c < pre ! mi" | "c \<noteq> 0" "\<not> c < pre ! mi" by blast
  then show ?case
  proof cases
    case 1
    then show ?thesis using first_min_zero [OF Cons.prems(2)] by simp
  next
    case 2
    then show ?thesis
      using Cons.IH [OF first_min_snoc_less [OF Cons.prems(1) 2(2)]] Cons.prems(2) len at by simp
  next
    case 3
    then show ?thesis
      using Cons.IH [OF first_min_snoc_ge [OF Cons.prems(1) 3(2)]] Cons.prems(2) len keep by simp
  qed
qed

lemma min_open_scan_start: "xs \<noteq> [] \<Longrightarrow> first_min xs (min_open_scan 0 xs 0 (- 1))"
proof -
  assume "xs \<noteq> []"
  then obtain c cs where xs: "xs = c # cs" by (cases xs) auto
  show ?thesis
  proof (cases "c = 0")
    case True
    then show ?thesis using first_min_zero [of "[]" cs] xs by simp
  next
    case False
    have "first_min [c] 0" by (simp add: first_min_def)
    moreover have "c < - 1 \<or> c = - 1"
      using word_order.not_eq_extremum by blast
    ultimately show ?thesis
      using False min_open_scan_first_min [of "[c]" 0 cs] xs by auto
  qed
qed

text \<open>
  C22: the minimum-open-connections strategy returns the first live remote with the least
  number of open and pending streams; stopping at the first idle remote is only a shortcut.
\<close>

theorem min_open_select_least:
  assumes "ti_remotes ti \<noteq> []"
  shows "\<exists>idx. min_open_select rnd ti = Some (Inr idx)
    \<and> first_min (map (\<lambda>(_, r). open_conns r) (ti_remotes ti)) idx"
  using min_open_scan_start [of "map (\<lambda>(_, r). open_conns r) (ti_remotes ti)"] assms
  by (simp add: min_open_select_def)

theorem min_open_select_least_witness:
  "\<exists>idx. min_open_select 0 (new_TunnelInfo 0 [SocketSpec ''b:2'', SocketSpec ''c:3'']
      DEFAULT_TUNNEL_OPTIONS) = Some (Inr idx)
    \<and> first_min [0, 0] idx"
proof -
  let ?ti = "new_TunnelInfo 0 [SocketSpec ''b:2'', SocketSpec ''c:3''] DEFAULT_TUNNEL_OPTIONS"
  have r: "ti_remotes ?ti = [(SocketSpec ''b:2'', new_RemoteInfo), (SocketSpec ''c:3'', new_RemoteInfo)]"
    by (simp add: new_TunnelInfo_def im_of_list_def)
  then have "ti_remotes ?ti \<noteq> []" by simp
  from min_open_select_least [OF this, of 0] r show ?thesis
    by (simp add: open_conns_def new_RemoteInfo_def default_RemoteStats_def)
qed

subsection \<open>Round robin\<close>

text \<open>The remotes chosen by consecutive selections.\<close>

fun picks :: "nat \<Rightarrow> nat \<Rightarrow> TunnelInfo \<Rightarrow> SocketSpec list" where
  "picks 0 rnd ti = []"
| "picks (Suc k) rnd ti =
     (case ti_select_remote rnd ti of
        Some (Inr r, ti') \<Rightarrow> r # picks k rnd ti'
      | _ \<Rightarrow> [])"

definition next_index :: "TunnelInfo \<Rightarrow> nat" where
  "next_index ti =
     (case ti_last_selected_index ti of Some i \<Rightarrow> i + 1 | None \<Rightarrow> 0) mod length (ti_remotes ti)"

lemma round_robin_step:
  assumes "ti_lb_strategy ti = RoundRobinStrategy" and "ti_remotes ti \<noteq> []"
  shows "ti_select_remote rnd ti
    = Some (Inr (fst (ti_remotes ti ! next_index ti)),
        ti\<lparr>ti_last_selected_index := Some (next_index ti)\<rparr>)"
proof -
  have "next_index ti < length (ti_remotes ti)"
    using assms(2) by (simp add: next_index_def)
  moreover have "length (ti_remotes ti) = Suc 0 \<Longrightarrow> next_index ti = 0"
    by (simp add: next_index_def)
  moreover have "round_robin_select rnd ti = Some (Inr (next_index ti))"
    using assms(2) by (auto simp: round_robin_select_def next_index_def Let_def split: option.split)
  ultimately show ?thesis
    using assms by (cases "length (ti_remotes ti) = Suc 0")
      (simp_all add: ti_select_remote_def ti_select_with_def Let_def im_get_index_def
        split: prod.split)
qed

lemma picks_round_robin:
  assumes "ti_lb_strategy ti = RoundRobinStrategy" and "ti_remotes ti \<noteq> []"
  shows "picks k rnd ti
    = map (\<lambda>j. fst (ti_remotes ti ! ((next_index ti + j) mod length (ti_remotes ti)))) [0..<k]"
  using assms
proof (induction k arbitrary: ti)
  case 0
  then show ?case by simp
next
  case (Suc k)
  let ?n = "length (ti_remotes ti)"
  let ?ti' = "ti\<lparr>ti_last_selected_index := Some (next_index ti)\<rparr>"
  have "next_index ti mod ?n = next_index ti" by (simp add: next_index_def)
  moreover have "next_index ?ti' = (next_index ti + 1) mod ?n"
    by (simp add: next_index_def [of ?ti'])
  then have "(next_index ?ti' + j) mod ?n = (next_index ti + Suc j) mod ?n" for j
    by (simp add: mod_add_left_eq)
  ultimately show ?case
    using Suc.IH [of ?ti'] Suc.prems
    by (simp add: round_robin_step upt_conv_Cons map_Suc_upt [symmetric] del: upt_Suc)
qed

lemma mod_shift_inj:
  assumes "(i + j) mod n = (i + k) mod n" and "k \<le> j" and "j < (n :: nat)"
  shows "j = k"
proof -
  have "n dvd (i + j) - (i + k)"
    using assms(1,2) by (metis add_left_mono mod_eq_dvd_iff_nat)
  then have "n dvd j - k" by simp
  moreover have "j - k < n" using assms(3) by simp
  ultimately show ?thesis
    using assms(2) by (metis diff_is_0_eq dvd_imp_le le_antisym not_le zero_less_iff_neq_zero)
qed

lemma mod_window:
  assumes "(0::nat) < n"
  shows "(\<lambda>j. (i + j) mod n) ` {..<n} = {..<n}"
proof -
  have "inj_on (\<lambda>j. (i + j) mod n) {..<n}"
  proof (rule inj_onI)
    fix j k
    assume "j \<in> {..<n}" "k \<in> {..<n}" and "(i + j) mod n = (i + k) mod n"
    then show "j = k"
      using mod_shift_inj [of i j n k] mod_shift_inj [of i k n j] by (cases "k \<le> j") auto
  qed
  with assms show ?thesis
    by (intro card_subset_eq) (auto simp: card_image)
qed

text \<open>
  C21: round robin is fair. From any starting point, as many selections as there are live
  remotes choose each of them exactly once.
\<close>

theorem round_robin_fair:
  assumes "ti_lb_strategy ti = RoundRobinStrategy" and "im_wf (ti_remotes ti)"
  shows "distinct (picks (length (ti_remotes ti)) rnd ti)
    \<and> set (picks (length (ti_remotes ti)) rnd ti) = set (im_keys (ti_remotes ti))"
proof (cases "ti_remotes ti = []")
  case True
  then show ?thesis by (simp add: im_keys_def)
next
  case False
  let ?n = "length (ti_remotes ti)" and ?i = "next_index ti"
  let ?p = "picks ?n rnd ti"
  have "set ?p = (\<lambda>j. im_keys (ti_remotes ti) ! j) ` ((\<lambda>j. (?i + j) mod ?n) ` {..<?n})"
    using False by (auto simp: picks_round_robin [OF assms(1) False] im_keys_def image_image
        lessThan_atLeast0)
  also have "\<dots> = (\<lambda>j. im_keys (ti_remotes ti) ! j) ` {..<?n}"
    using False mod_window [of ?n ?i] by simp
  also have "\<dots> = set (im_keys (ti_remotes ti))"
    using nth_image [of ?n "im_keys (ti_remotes ti)"] by (simp add: im_length lessThan_atLeast0)
  finally have keys: "set ?p = set (im_keys (ti_remotes ti))" .
  have "length ?p = ?n" by (simp add: picks_round_robin [OF assms(1) False])
  moreover have "card (set ?p) = ?n"
    using keys assms(2) by (simp add: distinct_card im_wf_iff im_length [symmetric])
  ultimately have "distinct ?p" by (simp add: card_distinct)
  with keys show ?thesis by blast
qed

theorem round_robin_fair_witness:
  "distinct (picks 2 0 ((new_TunnelInfo 0 [SocketSpec ''b:2'', SocketSpec ''c:3'']
     DEFAULT_TUNNEL_OPTIONS)\<lparr>ti_lb_strategy := RoundRobinStrategy\<rparr>))"
proof -
  let ?ti = "(new_TunnelInfo 0 [SocketSpec ''b:2'', SocketSpec ''c:3'']
     DEFAULT_TUNNEL_OPTIONS)\<lparr>ti_lb_strategy := RoundRobinStrategy\<rparr>"
  have r: "ti_remotes ?ti = [(SocketSpec ''b:2'', new_RemoteInfo), (SocketSpec ''c:3'', new_RemoteInfo)]"
    by (simp add: new_TunnelInfo_def im_of_list_def)
  then have "im_wf (ti_remotes ?ti)" by (simp add: im_wf_def)
  moreover have "ti_lb_strategy ?ti = RoundRobinStrategy" by simp
  ultimately have "distinct (picks (length (ti_remotes ?ti)) 0 ?ti)"
    using round_robin_fair by blast
  with r show ?thesis by (simp add: numeral_2_eq_2)
qed

end
