(* ===== verification/State.thy ===== *)
theory State
  imports Strategy
begin

text \<open>
  The shared state of the proxy and its operations (\<open>src/state.rs\<close>): the tunnels with their
  live and dead remotes, and the tasks that check whether a dead remote is alive again.

  Every operation holds the entry of one tunnel while it runs, so it is one step on the state.
  What the runtime keeps outside the Rust structure is made explicit: the spawned checks
  (\<open>st_tasks\<close>, by handle), the additions handed to the metrics (\<open>st_emitted\<close>) and the
  process-wide default options (\<open>st_default_options\<close>). A TLS client configuration is opaque.
\<close>

datatype ClientConfig = ClientConfig nat

record dead_check =
  dc_local :: SocketSpec
  dc_remote :: SocketSpec
  dc_timeout :: Duration
  dc_after :: Duration
  dc_tls_config :: "ClientConfig option"

record State =
  st_tunnels :: "(SocketSpec, TunnelInfo) imap"
  st_config :: Args
  st_client_ssl_config :: ClientConfig
  st_tunnels_counter :: instrument
  st_default_options :: TunnelOptions
  st_tasks :: "(task_id, dead_check) imap"
  st_next_task :: task_id
  st_emitted :: "metric_event list"

text \<open>An operation returns, or it panics after some of its effects.\<close>

datatype 's outcome = Done 's | Panicked 's

primrec outcome_state :: "'s outcome \<Rightarrow> 's" where
  "outcome_state (Done s) = s"
| "outcome_state (Panicked s) = s"

abbreviation get_tunnel :: "State \<Rightarrow> SocketSpec \<Rightarrow> TunnelInfo option" where
  "get_tunnel st \<equiv> im_get (st_tunnels st)"

text \<open>Writing back the entry of a tunnel, with what its methods added to the metrics.\<close>

definition put_tunnel :: "SocketSpec \<Rightarrow> TunnelInfo \<times> metric_event list \<Rightarrow> State \<Rightarrow> State" where
  "put_tunnel l res st =
     st\<lparr>st_tunnels := im_insert l (fst res) (st_tunnels st), st_emitted := st_emitted st @ snd res\<rparr>"

text \<open>A method of a live remote, if it is there.\<close>

definition on_remote ::
  "SocketSpec \<Rightarrow> (RemoteInfo \<Rightarrow> RemoteInfo \<times> metric_event list)
     \<Rightarrow> TunnelInfo \<times> metric_event list \<Rightarrow> TunnelInfo \<times> metric_event list" where
  "on_remote r f res =
     (case im_get (ti_remotes (fst res)) r of
        None \<Rightarrow> res
      | Some ri \<Rightarrow>
          ((fst res)\<lparr>ti_remotes := im_insert r (fst (f ri)) (ti_remotes (fst res))\<rparr>,
           snd res @ snd (f ri)))"

subsection \<open>Construction and queries\<close>

definition new_State :: "Args \<Rightarrow> TunnelOptions \<Rightarrow> ClientConfig result \<Rightarrow> State result" where
  "new_State args default_opts client_config =
     (case client_config of
        Inl e \<Rightarrow> Inl e
      | Inr c \<Rightarrow> Inr \<lparr>st_tunnels = [], st_config = args, st_client_ssl_config = c,
                     st_tunnels_counter = UpDownCounter ''number_of_tunnels'',
                     st_default_options = default_opts,
                     st_tasks = [], st_next_task = 0, st_emitted = []\<rparr>)"

definition client_ssl_config :: "State \<Rightarrow> ClientConfig" where
  [simp]: "client_ssl_config st = st_client_ssl_config st"

definition tls_config :: "TunnelRemoteOptions \<Rightarrow> State \<Rightarrow> ClientConfig option" where
  "tls_config opts st = (if ro_tls opts then Some (client_ssl_config st) else None)"

definition remote_retries :: "SocketSpec \<Rightarrow> State \<Rightarrow> u16 result" where
  "remote_retries l st =
     (case get_tunnel st l of
        None \<Rightarrow> Inl TunnelDoesNotExist
      | Some ti \<Rightarrow> Inr (to_remote_connect_retries (ti_options ti)))"

definition tunnel_exists :: "SocketSpec \<Rightarrow> State \<Rightarrow> bool" where
  "tunnel_exists l st \<longleftrightarrow> im_contains_key (st_tunnels st) l"

definition number_of_tunnels :: "State \<Rightarrow> nat" where
  "number_of_tunnels st = length (st_tunnels st)"

definition list_tunnels :: "State \<Rightarrow> SocketSpec list" where
  "list_tunnels st = map fst (st_tunnels st)"

definition stats :: "State \<Rightarrow> (SocketSpec \<times> TunnelStats) list" where
  "stats st = map (\<lambda>(l, ti). (l, ti_stats ti)) (st_tunnels st)"

definition info_to :: "(TunnelInfo \<Rightarrow> 't) \<Rightarrow> SocketSpec \<Rightarrow> State \<Rightarrow> 't result" where
  "info_to conv l st =
     (case get_tunnel st l of None \<Rightarrow> Inl TunnelDoesNotExist | Some ti \<Rightarrow> Inr (conv ti))"

definition remotes :: "SocketSpec \<Rightarrow> State \<Rightarrow> ((SocketSpec \<times> RemoteStats) list \<times> nat) result" where
  "remotes l st =
     (case get_tunnel st l of
        None \<Rightarrow> Inl TunnelDoesNotExist
      | Some ti \<Rightarrow> Inr (map (\<lambda>(r, ri). (r, ri_stats ri)) (ti_remotes ti),
                      length (ti_dead_remotes ti)))"

definition tunnel_options :: "SocketSpec \<Rightarrow> State \<Rightarrow> TunnelOptions result" where
  "tunnel_options l st =
     (case get_tunnel st l of None \<Rightarrow> Inl TunnelDoesNotExist | Some ti \<Rightarrow> Inr (ti_options ti))"

definition copy_buffer_size :: "State \<Rightarrow> usize" where
  "copy_buffer_size st = arg_copy_buffer_size (st_config st)"

definition establish_remote_connection_timeout :: "State \<Rightarrow> f32" where
  "establish_remote_connection_timeout st = arg_remote_timeout (st_config st)"

definition establish_remote_connection_retries :: "State \<Rightarrow> u16" where
  "establish_remote_connection_retries st = arg_remote_retries (st_config st)"

subsection \<open>Tunnels and remotes\<close>

text \<open>
  The test of the key and the insertion are two accesses to the map of tunnels; here no other task
  comes in between. What happens if one does is in \<open>Admin\<close>.
\<close>

definition add_tunnel :: "Tunnel \<Rightarrow> channel_id \<Rightarrow> State \<Rightarrow> unit result \<times> State" where
  "add_tunnel tunnel close_channel st =
     (if im_contains_key (st_tunnels st) (tun_local tunnel) then (Inl TunnelExists, st)
      else let info = new_TunnelInfo close_channel (tun_remote tunnel)
                        (case tun_options tunnel of Some opts \<Rightarrow> opts | None \<Rightarrow> st_default_options st)
           in (Inr (), put_tunnel (tun_local tunnel) (info, [Add (st_tunnels_counter st) 1 []]) st))"

definition abort :: "task_id option \<Rightarrow> State \<Rightarrow> State" where
  "abort h st = (case h of None \<Rightarrow> st | Some t \<Rightarrow> st\<lparr>st_tasks := im_remove t (st_tasks st)\<rparr>)"

definition remove_tunnel :: "SocketSpec \<Rightarrow> State \<Rightarrow> TunnelInfo result \<times> State" where
  "remove_tunnel l st =
     (case get_tunnel st l of
        None \<Rightarrow> (Inl TunnelDoesNotExist, st)
      | Some ti \<Rightarrow>
          let st1 = st\<lparr>st_tunnels := im_remove l (st_tunnels st)\<rparr>;
              st2 = fold (\<lambda>(_, d). abort (dr_join_handle d)) (ti_dead_remotes ti) st1;
              ti' = ti\<lparr>ti_dead_remotes :=
                       map (\<lambda>(r, d). (r, d\<lparr>dr_join_handle := None\<rparr>)) (ti_dead_remotes ti)\<rparr>
          in (Inr ti', st2\<lparr>st_emitted := st_emitted st2 @ [Add (st_tunnels_counter st) (-1) []]\<rparr>))"

definition add_remote_to_tunnel :: "SocketSpec \<Rightarrow> SocketSpec \<Rightarrow> State \<Rightarrow> unit result \<times> State" where
  "add_remote_to_tunnel l r st =
     (case get_tunnel st l of
        None \<Rightarrow> (Inl TunnelDoesNotExist, st)
      | Some ti \<Rightarrow>
          if \<not> im_contains_key (ti_remotes ti) r \<and> \<not> im_contains_key (ti_dead_remotes ti) r
          then (Inr (), put_tunnel l
                  (ti\<lparr>ti_remotes := im_insert r new_RemoteInfo (ti_remotes ti)\<rparr>, []) st)
          else (Inl RemoteExists, st))"

definition remove_remote_from_tunnel ::
  "SocketSpec \<Rightarrow> SocketSpec \<Rightarrow> State \<Rightarrow> RemoteInfo result \<times> State" where
  "remove_remote_from_tunnel l r st =
     (case get_tunnel st l of
        None \<Rightarrow> (Inl TunnelDoesNotExist, st)
      | Some ti \<Rightarrow>
          (case im_get (ti_remotes ti) r of
             Some ri \<Rightarrow>
               (Inr ri, put_tunnel l (ti\<lparr>ti_remotes := im_remove r (ti_remotes ti)\<rparr>, []) st)
           | None \<Rightarrow>
               (case im_get (ti_dead_remotes ti) r of
                  Some d \<Rightarrow>
                    (Inr (dr_remote d),
                     put_tunnel l (ti\<lparr>ti_dead_remotes := im_remove r (ti_dead_remotes ti)\<rparr>, []) st)
                | None \<Rightarrow> (Inl RemoteDoesNotExist, st))))"

subsection \<open>Connections\<close>

definition select_remote ::
  "nat \<Rightarrow> SocketSpec \<Rightarrow> State \<Rightarrow> ((SocketSpec \<times> TunnelRemoteOptions) result \<times> State) option" where
  "select_remote rnd l st =
     (case get_tunnel st l of
        None \<Rightarrow> Some (Inl TunnelDoesNotExist, st)
      | Some ti \<Rightarrow>
          (case ti_select_remote rnd ti of
             None \<Rightarrow> None
           | Some (Inl e, ti') \<Rightarrow> Some (Inl e, put_tunnel l (ti', []) st)
           | Some (Inr selected, ti') \<Rightarrow>
               if im_contains_key (ti_remotes ti') selected
               then Some (Inr (selected, to_options (ti_options ti')),
                      put_tunnel l
                        (on_remote selected (ri_new_pending_stream l selected) (ti', [])) st)
               else Some (Inl NoRemote, put_tunnel l (ti', []) st)))"

definition client_connected :: "SocketSpec \<Rightarrow> State \<Rightarrow> State" where
  "client_connected l st =
     (case get_tunnel st l of
        None \<Rightarrow> st
      | Some ti \<Rightarrow> put_tunnel l (ti_client_connected l ti) st)"

definition remote_connected :: "SocketSpec \<Rightarrow> SocketSpec \<Rightarrow> State \<Rightarrow> State" where
  "remote_connected l r st =
     (case get_tunnel st l of
        None \<Rightarrow> st
      | Some ti \<Rightarrow> put_tunnel l (on_remote r (ri_remote_connected l r) (ti, [])) st)"

definition update_transferred ::
  "SocketSpec \<Rightarrow> SocketSpec \<Rightarrow> bool \<Rightarrow> u64 \<Rightarrow> State \<Rightarrow> State" where
  "update_transferred l r sent bytes st =
     (case get_tunnel st l of
        None \<Rightarrow> st
      | Some ti \<Rightarrow>
          put_tunnel l (on_remote r (ri_update_moved_bytes sent bytes l r)
            (ti_update_moved_bytes sent bytes l ti)) st)"

definition client_disconnected :: "SocketSpec \<Rightarrow> SocketSpec option \<Rightarrow> State \<Rightarrow> State" where
  "client_disconnected l r st =
     (case get_tunnel st l of
        None \<Rightarrow> st
      | Some ti \<Rightarrow>
          put_tunnel l
            (case r of
               None \<Rightarrow> ti_client_disconnected l ti
             | Some r' \<Rightarrow> on_remote r' (ri_client_disconnected l r') (ti_client_disconnected l ti))
            st)"

subsection \<open>Dead remotes\<close>

text \<open>Spawning a check: a fresh handle and a new entry among the tasks.\<close>

definition check_dead ::
  "SocketSpec \<Rightarrow> SocketSpec \<Rightarrow> Duration \<Rightarrow> Duration \<Rightarrow> ClientConfig option \<Rightarrow> State
     \<Rightarrow> task_id \<times> State" where
  "check_dead l r timeout after tls st =
     (st_next_task st,
      st\<lparr>st_tasks := im_insert (st_next_task st)
           \<lparr>dc_local = l, dc_remote = r, dc_timeout = timeout, dc_after = after,
            dc_tls_config = tls\<rparr> (st_tasks st),
         st_next_task := Suc (st_next_task st)\<rparr>)"

definition remote_error ::
  "SystemTime \<Rightarrow> SocketSpec \<Rightarrow> SocketSpec \<Rightarrow> SocketAddr \<Rightarrow> TunnelRemoteOptions \<Rightarrow> State
     \<Rightarrow> State outcome" where
  "remote_error now l r client_addr opts st =
     (case get_tunnel st l of
        None \<Rightarrow> Done st
      | Some ti \<Rightarrow>
          let res = on_remote r (ri_error now l r (Some client_addr)) (ti_remote_error l r ti);
              ti1 = fst res;
              st1 = put_tunnel l res st
          in (case im_get (ti_remotes ti1) r of
                None \<Rightarrow> Done st1
              | Some rec \<Rightarrow>
                  if ro_errors_till_dead opts \<le> rs_num_errors (ri_stats rec)
                  then let ti2 = ti1\<lparr>ti_remotes := im_remove r (ti_remotes ti1)\<rparr>
                       in (case (duration_from_secs_f32 (ro_connect_timeout opts),
                                 duration_from_secs_f32 f32_ten) of
                             (Some timeout, Some after) \<Rightarrow>
                               (case check_dead l r timeout after (tls_config opts st) st1 of
                                  (h, st2) \<Rightarrow>
                                    Done (put_tunnel l
                                      (ti2\<lparr>ti_dead_remotes := im_insert r
                                             \<lparr>dr_remote = rec, dr_join_handle = Some h\<rparr>
                                             (ti_dead_remotes ti2)\<rparr>, []) st2))
                           | _ \<Rightarrow> Panicked (put_tunnel l (ti2, []) st1))
                  else Done st1))"

text \<open>
  A check that woke up after its delay and tried to connect: \<open>connected\<close> is the outcome (an
  error and a timeout count the same). The task ends here; a failed check of a remote that is
  still dead spawns the next one.
\<close>

definition dead_check_done :: "SystemTime \<Rightarrow> bool \<Rightarrow> task_id \<Rightarrow> State \<Rightarrow> State" where
  "dead_check_done now connected t st =
     (case im_get (st_tasks st) t of
        None \<Rightarrow> st
      | Some dc \<Rightarrow>
          let l = dc_local dc; r = dc_remote dc;
              st1 = st\<lparr>st_tasks := im_remove t (st_tasks st)\<rparr>
          in (case get_tunnel st1 l of
                None \<Rightarrow> st1
              | Some ti \<Rightarrow>
                  if connected
                  then (case im_get (ti_dead_remotes ti) r of
                          None \<Rightarrow> st1
                        | Some d \<Rightarrow>
                            let res = ri_remote_recovered l r (dr_remote d)
                            in put_tunnel l
                                 (ti\<lparr>ti_dead_remotes := im_remove r (ti_dead_remotes ti),
                                     ti_remotes := im_insert r (fst res) (ti_remotes ti)\<rparr>,
                                  snd res) st1)
                  else let res = ti_remote_error l r ti
                       in (case im_get (ti_dead_remotes (fst res)) r of
                             None \<Rightarrow> put_tunnel l res st1
                           | Some d \<Rightarrow>
                               let rres = ri_error now l r None (dr_remote d)
                               in (case check_dead l r (dc_timeout dc) (dc_after dc)
                                          (dc_tls_config dc) st1 of
                                     (h, st2) \<Rightarrow>
                                       put_tunnel l
                                         ((fst res)\<lparr>ti_dead_remotes := im_insert r
                                            \<lparr>dr_remote = fst rres, dr_join_handle = Some h\<rparr>
                                            (ti_dead_remotes (fst res))\<rparr>,
                                          snd res @ snd rres) st2))))"

end
