(* ===== verification/State_Wf.thy ===== *)
theory State_Wf
  imports State
begin

text \<open>
  The well-formedness of the state and its preservation by every operation.

  A tunnel's live and dead remotes have distinct keys and are disjoint, and every dead remote
  is supervised: the handle it stores is that of a pending check of this very remote. Handles
  are fresh.
\<close>

subsection \<open>Frame facts\<close>

lemma im_insert_present: "im_get m k = Some x \<Longrightarrow> im_insert k (g x) m = im_update k g m"
  by (induction m) (auto split: if_splits)

lemma fst_on_remote:
  "fst (on_remote r f res)
     = (fst res)\<lparr>ti_remotes := im_update r (\<lambda>ri. fst (f ri)) (ti_remotes (fst res))\<rparr>"
  by (auto simp: on_remote_def im_update_absent im_insert_present [where g = "\<lambda>ri. fst (f ri)"]
      split: option.split)

lemma on_remote_fields [simp]:
  "ti_dead_remotes (fst (on_remote r f res)) = ti_dead_remotes (fst res)"
  "ti_options (fst (on_remote r f res)) = ti_options (fst res)"
  "ti_stats (fst (on_remote r f res)) = ti_stats (fst res)"
  "ti_remotes (fst (on_remote r f res)) = im_update r (\<lambda>ri. fst (f ri)) (ti_remotes (fst res))"
  "ti_lb_strategy (fst (on_remote r f res)) = ti_lb_strategy (fst res)"
  "ti_close_channel (fst (on_remote r f res)) = ti_close_channel (fst res)"
  by (simp_all add: fst_on_remote)

lemma put_tunnel_fields [simp]:
  "get_tunnel (put_tunnel l res st) = (get_tunnel st)(l \<mapsto> fst res)"
  "st_tasks (put_tunnel l res st) = st_tasks st"
  "st_next_task (put_tunnel l res st) = st_next_task st"
  "st_config (put_tunnel l res st) = st_config st"
  "st_client_ssl_config (put_tunnel l res st) = st_client_ssl_config st"
  "st_default_options (put_tunnel l res st) = st_default_options st"
  "st_emitted (put_tunnel l res st) = st_emitted st @ snd res"
  "im_wf (st_tunnels st) \<Longrightarrow> im_wf (st_tunnels (put_tunnel l res st))"
  by (simp_all add: put_tunnel_def im_wf_insert)

lemma check_dead_fields [simp]:
  "st_tunnels (snd (check_dead l r t a c st)) = st_tunnels st"
  "fst (check_dead l r t a c st) = st_next_task st"
  "st_next_task (snd (check_dead l r t a c st)) = Suc (st_next_task st)"
  "st_emitted (snd (check_dead l r t a c st)) = st_emitted st"
  "im_get (st_tasks (snd (check_dead l r t a c st))) = (im_get (st_tasks st))
     (st_next_task st \<mapsto> \<lparr>dc_local = l, dc_remote = r, dc_timeout = t, dc_after = a,
        dc_tls_config = c\<rparr>)"
  "im_wf (st_tasks st) \<Longrightarrow> im_wf (st_tasks (snd (check_dead l r t a c st)))"
  by (simp_all add: check_dead_def im_wf_insert)

lemma ti_method_fields [simp]:
  "ti_remotes (fst (ti_client_connected l ti)) = ti_remotes ti"
  "ti_dead_remotes (fst (ti_client_connected l ti)) = ti_dead_remotes ti"
  "ti_options (fst (ti_client_connected l ti)) = ti_options ti"
  "ti_remotes (fst (ti_client_disconnected l ti)) = ti_remotes ti"
  "ti_dead_remotes (fst (ti_client_disconnected l ti)) = ti_dead_remotes ti"
  "ti_options (fst (ti_client_disconnected l ti)) = ti_options ti"
  "ti_remotes (fst (ti_remote_error l r ti)) = ti_remotes ti"
  "ti_dead_remotes (fst (ti_remote_error l r ti)) = ti_dead_remotes ti"
  "ti_options (fst (ti_remote_error l r ti)) = ti_options ti"
  "ti_remotes (fst (ti_update_moved_bytes s b l ti)) = ti_remotes ti"
  "ti_dead_remotes (fst (ti_update_moved_bytes s b l ti)) = ti_dead_remotes ti"
  "ti_options (fst (ti_update_moved_bytes s b l ti)) = ti_options ti"
  by (simp_all add: ti_defs Let_def)

text \<open>A selection changes the tunnel's record in the remembered index only.\<close>

lemma ti_select_remote_cases:
  obtains (none) "ti_remotes ti = []" and "ti_select_remote rnd ti = Some (Inl NoRemote, ti)"
  | (some) idx ri where "ti_remotes ti \<noteq> []" and "idx < length (ti_remotes ti)"
      and "im_get (ti_remotes ti) (fst (ti_remotes ti ! idx)) = Some ri"
      and "ti_select_remote rnd ti = Some (Inr (fst (ti_remotes ti ! idx)),
             ti\<lparr>ti_last_selected_index := Some idx\<rparr>)"
proof (cases "ti_remotes ti = []")
  case True
  then show thesis
    by (intro none) (simp_all add: ti_select_remote_def ti_select_with_def)
next
  case False
  then obtain idx where idx: "idx < length (ti_remotes ti)"
    and sel: "ti_select_remote rnd ti = Some (Inr (fst (ti_remotes ti ! idx)),
             ti\<lparr>ti_last_selected_index := Some idx\<rparr>)"
    using lb.selects_live [OF False] by (auto simp: ti_select_remote_def)
  have "im_get (ti_remotes ti) (fst (ti_remotes ti ! idx)) \<noteq> None"
    using idx by (simp add: map_of_eq_None_iff)
  with idx sel False show thesis by (blast intro: some)
qed

subsection \<open>The invariant\<close>

definition supervised ::
  "(task_id \<Rightarrow> dead_check option) \<Rightarrow> SocketSpec \<Rightarrow> SocketSpec \<Rightarrow> DeadRemote \<Rightarrow> bool" where
  "supervised tasks l r d \<longleftrightarrow>
     (\<exists>t dc. dr_join_handle d = Some t \<and> tasks t = Some dc \<and> dc_local dc = l \<and> dc_remote dc = r)"

definition wf_tunnel :: "(task_id \<Rightarrow> dead_check option) \<Rightarrow> SocketSpec \<Rightarrow> TunnelInfo \<Rightarrow> bool" where
  "wf_tunnel tasks l ti \<longleftrightarrow>
     im_wf (ti_remotes ti) \<and> im_wf (ti_dead_remotes ti)
     \<and> (\<forall>r. im_get (ti_remotes ti) r = None \<or> im_get (ti_dead_remotes ti) r = None)
     \<and> (\<forall>r d. im_get (ti_dead_remotes ti) r = Some d \<longrightarrow> supervised tasks l r d)"

definition wf_state :: "State \<Rightarrow> bool" where
  "wf_state st \<longleftrightarrow>
     im_wf (st_tunnels st) \<and> im_wf (st_tasks st)
     \<and> (\<forall>t. st_next_task st \<le> t \<longrightarrow> im_get (st_tasks st) t = None)
     \<and> (\<forall>l ti. get_tunnel st l = Some ti \<longrightarrow> wf_tunnel (im_get (st_tasks st)) l ti)"

lemma wf_stateD:
  assumes "wf_state st"
  shows "im_wf (st_tunnels st)" and "im_wf (st_tasks st)"
    and "im_get (st_tasks st) (st_next_task st) = None"
    and "get_tunnel st l = Some ti \<Longrightarrow> wf_tunnel (im_get (st_tasks st)) l ti"
  using assms by (auto simp: wf_state_def)

lemma wf_tunnelD:
  assumes "wf_tunnel tasks l ti"
  shows "im_wf (ti_remotes ti)" and "im_wf (ti_dead_remotes ti)"
    and "im_get (ti_dead_remotes ti) r = Some d \<Longrightarrow> im_get (ti_remotes ti) r = None"
    and "im_get (ti_remotes ti) r = Some ri \<Longrightarrow> im_get (ti_dead_remotes ti) r = None"
    and "im_get (ti_dead_remotes ti) r = Some d \<Longrightarrow> supervised tasks l r d"
  using assms by (simp_all add: wf_tunnel_def) (metis option.distinct(1))+

text \<open>
  Tasks of other tunnels do not matter to a tunnel, nor does a new task under a fresh handle.
\<close>

lemma wf_tunnel_tasks:
  assumes "wf_tunnel tasks l ti"
    and "\<And>t dc. tasks t = Some dc \<Longrightarrow> dc_local dc = l \<Longrightarrow> tasks' t = Some dc"
  shows "wf_tunnel tasks' l ti"
proof -
  have "supervised tasks l r d \<Longrightarrow> supervised tasks' l r d" for r d
    using assms(2) by (auto simp: supervised_def)
  with assms(1) show ?thesis by (auto simp: wf_tunnel_def)
qed

lemma wf_tunnel_fresh_task:
  "wf_tunnel tasks l ti \<Longrightarrow> tasks t = None \<Longrightarrow> wf_tunnel (tasks(t \<mapsto> dc)) l ti"
  by (erule wf_tunnel_tasks) auto

lemma wf_state_put [wf_intros]:
  assumes "wf_state st" and "wf_tunnel (im_get (st_tasks st)) l (fst res)"
  shows "wf_state (put_tunnel l res st)"
  using assms by (auto simp: wf_state_def)

text \<open>A method that keeps the keys of both maps and the dead remotes keeps the tunnel well-formed.\<close>

lemma wf_tunnel_same_keys:
  assumes "wf_tunnel tasks l ti" and "im_keys (ti_remotes ti') = im_keys (ti_remotes ti)"
    and "ti_dead_remotes ti' = ti_dead_remotes ti"
  shows "wf_tunnel tasks l ti'"
proof -
  have "dom (im_get (ti_remotes ti')) = dom (im_get (ti_remotes ti))"
    using assms(2) by (simp add: im.dom_get)
  then have "im_get (ti_remotes ti') r = None \<longleftrightarrow> im_get (ti_remotes ti) r = None" for r
    by (metis domIff)
  with assms show ?thesis by (simp add: wf_tunnel_def im_wf_iff)
qed

subsection \<open>Preservation\<close>

lemma wf_new_State: "new_State args opts c = Inr st \<Longrightarrow> wf_state st"
  by (auto simp: new_State_def wf_state_def split: sum.splits)

lemma wf_new_TunnelInfo: "wf_tunnel tasks l (new_TunnelInfo ch rs opts)"
  by (simp add: wf_tunnel_def new_TunnelInfo_def im_wf_of_list)

lemma wf_add_tunnel [wf_intros]: "wf_state st \<Longrightarrow> wf_state (snd (add_tunnel t ch st))"
  by (auto simp: add_tunnel_def Let_def intro!: wf_state_put wf_new_TunnelInfo)

lemma wf_client_connected [wf_intros]: "wf_state st \<Longrightarrow> wf_state (client_connected l st)"
  by (auto simp: client_connected_def split: option.split
      intro!: wf_state_put elim: wf_tunnel_same_keys [OF wf_stateD(4)])

lemma wf_remote_connected [wf_intros]: "wf_state st \<Longrightarrow> wf_state (remote_connected l r st)"
  by (auto simp: remote_connected_def split: option.split
      intro!: wf_state_put elim: wf_tunnel_same_keys [OF wf_stateD(4)])

lemma wf_update_transferred [wf_intros]:
  "wf_state st \<Longrightarrow> wf_state (update_transferred l r s b st)"
  by (auto simp: update_transferred_def split: option.split
      intro!: wf_state_put elim: wf_tunnel_same_keys [OF wf_stateD(4)])

lemma wf_client_disconnected [wf_intros]:
  "wf_state st \<Longrightarrow> wf_state (client_disconnected l r st)"
  by (auto simp: client_disconnected_def split: option.split
      intro!: wf_state_put elim: wf_tunnel_same_keys [OF wf_stateD(4)])

lemma wf_select_remote [wf_intros]:
  assumes "wf_state st" and "select_remote rnd l st = Some (res, st')"
  shows "wf_state st'"
proof (cases "get_tunnel st l")
  case None
  with assms show ?thesis by (simp add: select_remote_def)
next
  case (Some ti)
  note wf = wf_stateD(4) [OF assms(1) Some]
  show ?thesis
  proof (cases rule: ti_select_remote_cases [of ti rnd])
    case none
    with assms Some wf show ?thesis by (auto simp: select_remote_def intro: wf_state_put)
  next
    case (some idx ri)
    with assms Some wf show ?thesis
      by (auto simp: select_remote_def im_contains_key_def intro!: wf_state_put
          elim: wf_tunnel_same_keys)
  qed
qed

lemma wf_tunnel_insert_live:
  assumes "wf_tunnel tasks l ti" and "im_get (ti_dead_remotes ti) r = None"
  shows "wf_tunnel tasks l (ti\<lparr>ti_remotes := im_insert r ri (ti_remotes ti)\<rparr>)"
  using assms by (auto simp: wf_tunnel_def im_wf_insert)

lemma wf_tunnel_remove_live:
  assumes "wf_tunnel tasks l ti"
  shows "wf_tunnel tasks l (ti\<lparr>ti_remotes := im_remove r (ti_remotes ti)\<rparr>)"
  using assms by (auto simp: wf_tunnel_def im_wf_remove)

lemma wf_tunnel_remove_dead:
  assumes "wf_tunnel tasks l ti"
  shows "wf_tunnel tasks l (ti\<lparr>ti_dead_remotes := im_remove r (ti_dead_remotes ti)\<rparr>)"
  using assms by (auto simp: wf_tunnel_def im_wf_remove)

lemma wf_tunnel_insert_dead:
  assumes "wf_tunnel tasks l ti" and "im_get (ti_remotes ti) r = None" and "supervised tasks l r d"
  shows "wf_tunnel tasks l (ti\<lparr>ti_dead_remotes := im_insert r d (ti_dead_remotes ti)\<rparr>)"
  using assms by (auto simp: wf_tunnel_def im_wf_insert)

lemma wf_add_remote_to_tunnel [wf_intros]:
  "wf_state st \<Longrightarrow> wf_state (snd (add_remote_to_tunnel l r st))"
  by (auto simp: add_remote_to_tunnel_def im_contains_key_def split: option.split
      intro!: wf_state_put wf_tunnel_insert_live dest: wf_stateD(4))

lemma wf_remove_remote_from_tunnel [wf_intros]:
  "wf_state st \<Longrightarrow> wf_state (snd (remove_remote_from_tunnel l r st))"
  by (auto simp: remove_remote_from_tunnel_def split: option.split
      intro!: wf_state_put wf_tunnel_remove_live wf_tunnel_remove_dead dest: wf_stateD(4))

text \<open>Spawning a check leaves the state well-formed and gives a supervising handle.\<close>

lemma wf_check_dead [wf_intros]:
  assumes "wf_state st"
  shows "wf_state (snd (check_dead l r t a c st))"
proof -
  have fresh: "im_get (st_tasks st) (st_next_task st) = None"
    by (rule wf_stateD(3) [OF assms])
  have "wf_tunnel ((im_get (st_tasks st))(st_next_task st \<mapsto> dc)) l' ti"
    if "get_tunnel st l' = Some ti" for l' ti dc
    using wf_stateD(4) [OF assms that] fresh by (rule wf_tunnel_fresh_task)
  with assms show ?thesis by (auto simp: wf_state_def)
qed

lemma supervised_check_dead:
  "supervised (im_get (st_tasks (snd (check_dead l r t a c st)))) l r
     \<lparr>dr_remote = ri, dr_join_handle = Some (fst (check_dead l r t a c st))\<rparr>"
  by (simp add: supervised_def)

lemma wf_put_dead_spawned:
  assumes "wf_state st" and "wf_tunnel (im_get (st_tasks st)) l ti"
    and "im_get (ti_remotes ti) r = None"
  shows "wf_state (put_tunnel l
      (ti\<lparr>ti_dead_remotes := im_insert r
         \<lparr>dr_remote = ri, dr_join_handle = Some (fst (check_dead l r t a c st))\<rparr>
         (ti_dead_remotes ti)\<rparr>, es) (snd (check_dead l r t a c st)))"
proof (rule wf_state_put [OF wf_check_dead [OF assms(1)]])
  have "wf_tunnel (im_get (st_tasks (snd (check_dead l r t a c st)))) l ti"
    using wf_tunnel_fresh_task [OF assms(2) wf_stateD(3) [OF assms(1)]] by simp
  then show "wf_tunnel (im_get (st_tasks (snd (check_dead l r t a c st)))) l
     (fst (ti\<lparr>ti_dead_remotes := im_insert r
         \<lparr>dr_remote = ri, dr_join_handle = Some (fst (check_dead l r t a c st))\<rparr>
         (ti_dead_remotes ti)\<rparr>, es))"
    using wf_tunnel_insert_dead [OF _ assms(3) supervised_check_dead] by simp
qed

lemma put_tunnel_twice:
  "put_tunnel l res' (put_tunnel l res st) = put_tunnel l (fst res', snd res @ snd res') st"
proof -
  have "im_insert l a (im_insert l b m) = im_insert l a m" for a b :: TunnelInfo and m
    by (induction l b m rule: im_insert.induct) auto
  then show ?thesis by (simp add: put_tunnel_def)
qed

lemma put_check_dead:
  "snd (check_dead l r t a c (put_tunnel l' res st)) = put_tunnel l' res (snd (check_dead l r t a c st))"
  "fst (check_dead l r t a c (put_tunnel l' res st)) = fst (check_dead l r t a c st)"
  by (simp_all add: check_dead_def put_tunnel_def)

text \<open>A state whose change is confined to one tunnel and its own tasks.\<close>

lemma wf_state_local_change:
  assumes "wf_state st"
    and "im_wf (st_tunnels st')" and "im_wf (st_tasks st')"
    and "\<And>t. st_next_task st' \<le> t \<Longrightarrow> im_get (st_tasks st') t = None"
    and "\<And>l'. l' \<noteq> l \<Longrightarrow> get_tunnel st' l' = get_tunnel st l'"
    and "\<And>ti. get_tunnel st' l = Some ti \<Longrightarrow> wf_tunnel (im_get (st_tasks st')) l ti"
    and "\<And>t dc. im_get (st_tasks st) t = Some dc \<Longrightarrow> dc_local dc \<noteq> l
           \<Longrightarrow> im_get (st_tasks st') t = Some dc"
  shows "wf_state st'"
proof -
  have "wf_tunnel (im_get (st_tasks st')) l' ti" if "get_tunnel st' l' = Some ti" for l' ti
  proof (cases "l' = l")
    case True
    with that assms(6) show ?thesis by simp
  next
    case False
    with that assms(5) have "get_tunnel st l' = Some ti" by simp
    from wf_tunnel_tasks [OF wf_stateD(4) [OF assms(1) this]] assms(7) False
    show ?thesis by blast
  qed
  with assms(2-4) show ?thesis by (simp add: wf_state_def)
qed

lemma wf_stateD_fresh: "wf_state st \<Longrightarrow> st_next_task st \<le> t \<Longrightarrow> im_get (st_tasks st) t = None"
  by (simp add: wf_state_def)

subsubsection \<open>Errors\<close>

lemma wf_remote_error [wf_intros]:
  assumes "wf_state st"
  shows "wf_state (outcome_state (remote_error now l r c opts st))"
proof (cases "get_tunnel st l")
  case None
  with assms show ?thesis by (simp add: remote_error_def)
next
  case (Some ti)
  define res where "res = on_remote r (ri_error now l r (Some c)) (ti_remote_error l r ti)"
  have wf1: "wf_tunnel (im_get (st_tasks st)) l (fst res)"
    using wf_stateD(4) [OF assms Some] by (auto simp: res_def elim: wf_tunnel_same_keys)
  then have st1: "wf_state (put_tunnel l res st)"
    by (rule wf_state_put [OF assms])
  have tasks1: "im_get (st_tasks (put_tunnel l res st)) = im_get (st_tasks st)" by simp
  note wf2 = wf_tunnel_remove_live [OF wf1, of r]
  have gone: "im_get (ti_remotes ((fst res)\<lparr>ti_remotes := im_remove r (ti_remotes (fst res))\<rparr>)) r = None"
    using wf_tunnelD(1) [OF wf1] by simp
  show ?thesis
    using Some st1 wf_state_put [OF st1, of l "((fst res)\<lparr>ti_remotes := im_remove r (ti_remotes (fst res))\<rparr>, [])"]
      wf_put_dead_spawned [OF st1, of l, OF _ gone] wf2
    by (auto simp: remote_error_def Let_def res_def [symmetric] case_prod_beta split: option.split)
qed

subsubsection \<open>Checks of dead remotes\<close>

text \<open>Ending the task of a remote that is no longer dead, or whose entry is replaced.\<close>

lemma wf_tunnel_task_done:
  assumes "wf_tunnel tasks l ti" and "tasks t = Some dc" and "dc_remote dc = r"
    and "\<And>t'. t' \<noteq> t \<Longrightarrow> tasks t' \<noteq> None \<Longrightarrow> tasks' t' = tasks t'"
  shows "wf_tunnel tasks' l (ti\<lparr>ti_dead_remotes := im_remove r (ti_dead_remotes ti)\<rparr>)"
proof -
  have "supervised tasks' l r' d" if "supervised tasks l r' d" "r' \<noteq> r" for r' d
  proof -
    from that(1) obtain t' dc' where h: "dr_join_handle d = Some t'" "tasks t' = Some dc'"
      "dc_local dc' = l" "dc_remote dc' = r'"
      by (auto simp: supervised_def)
    with that(2) assms(2,3) have "t' \<noteq> t" by auto
    with h assms(4) [of t'] show ?thesis by (auto simp: supervised_def)
  qed
  with assms(1) show ?thesis by (auto simp: wf_tunnel_def im_wf_remove)
qed

lemma wf_tunnel_task_done_absent:
  assumes "wf_tunnel tasks l ti" and "tasks t = Some dc" and "dc_remote dc = r"
    and "\<And>t'. t' \<noteq> t \<Longrightarrow> tasks t' \<noteq> None \<Longrightarrow> tasks' t' = tasks t'"
    and "im_get (ti_dead_remotes ti) r = None"
  shows "wf_tunnel tasks' l ti"
proof -
  have "wf_tunnel tasks' l (ti\<lparr>ti_dead_remotes := im_remove r (ti_dead_remotes ti)\<rparr>)"
    by (rule wf_tunnel_task_done [OF assms(1-4)])
  moreover have "im_remove r m = m" if "im_get m r = None" for m :: DeadRemotesMap
    using that by (induction r m rule: im_remove.induct) (auto split: if_splits)
  ultimately show ?thesis using assms(5) by simp
qed

lemma wf_tunnel_replace_dead:
  assumes "wf_tunnel tasks l ti" and "tasks t = Some dc" and "dc_remote dc = r"
    and "\<And>t'. t' \<noteq> t \<Longrightarrow> tasks t' \<noteq> None \<Longrightarrow> tasks' t' = tasks t'"
    and "im_get (ti_dead_remotes ti) r = Some d" and "supervised tasks' l r d'"
  shows "wf_tunnel tasks' l (ti\<lparr>ti_dead_remotes := im_insert r d' (ti_dead_remotes ti)\<rparr>)"
proof -
  have "im_get (ti_remotes ti) r = None"
    by (rule wf_tunnelD(3) [OF assms(1,5)])
  moreover have "wf_tunnel tasks' l (ti\<lparr>ti_dead_remotes := im_remove r (ti_dead_remotes ti)\<rparr>)"
    by (rule wf_tunnel_task_done [OF assms(1-4)])
  ultimately show ?thesis
    using assms(6) wf_tunnelD(2) [OF assms(1)]
    by (auto simp: wf_tunnel_def im_wf_insert split: if_splits)
qed

abbreviation end_task :: "task_id \<Rightarrow> State \<Rightarrow> State" where
  "end_task t st \<equiv> st\<lparr>st_tasks := im_remove t (st_tasks st)\<rparr>"

lemma end_task_fields:
  assumes "wf_state st"
  shows "im_wf (st_tasks (end_task t st))"
    and "im_get (st_tasks (end_task t st)) = (im_get (st_tasks st))(t := None)"
  using wf_stateD(2) [OF assms] by (simp_all add: im_wf_remove)

lemma wf_task_ended_only:
  assumes "wf_state st" and "im_get (st_tasks st) t = Some dc"
    and "\<And>ti. get_tunnel st (dc_local dc) = Some ti
           \<Longrightarrow> wf_tunnel ((im_get (st_tasks st))(t := None)) (dc_local dc) ti"
  shows "wf_state (end_task t st)"
proof (rule wf_state_local_change [OF assms(1), of _ "dc_local dc"])
  show "\<And>t'. st_next_task (end_task t st) \<le> t' \<Longrightarrow> im_get (st_tasks (end_task t st)) t' = None"
    using wf_stateD_fresh [OF assms(1)] end_task_fields(2) [OF assms(1)] by simp
qed (use assms end_task_fields [OF assms(1)] wf_stateD(1) [OF assms(1)] in auto)

lemma wf_task_ended:
  assumes "wf_state st" and "im_get (st_tasks st) t = Some dc"
    and "wf_tunnel ((im_get (st_tasks st))(t := None)) (dc_local dc) (fst res)"
  shows "wf_state (put_tunnel (dc_local dc) res (end_task t st))"
proof (rule wf_state_local_change [OF assms(1), of _ "dc_local dc"])
  let ?st' = "put_tunnel (dc_local dc) res (end_task t st)"
  show "\<And>t'. st_next_task ?st' \<le> t' \<Longrightarrow> im_get (st_tasks ?st') t' = None"
    using wf_stateD_fresh [OF assms(1)] end_task_fields(2) [OF assms(1)] by simp
qed (use assms end_task_fields [OF assms(1)] wf_stateD(1) [OF assms(1)] in auto)

lemma wf_task_respawned:
  assumes "wf_state st" and "im_get (st_tasks st) t = Some dc"
    and "wf_tunnel (im_get (st_tasks (snd (check_dead l r to af c (end_task t st)))))
           (dc_local dc) (fst res)"
  shows "wf_state (put_tunnel (dc_local dc) res (snd (check_dead l r to af c (end_task t st))))"
proof (rule wf_state_local_change [OF assms(1), of _ "dc_local dc"])
  let ?st' = "put_tunnel (dc_local dc) res (snd (check_dead l r to af c (end_task t st)))"
  show "\<And>t'. st_next_task ?st' \<le> t' \<Longrightarrow> im_get (st_tasks ?st') t' = None"
    using wf_stateD_fresh [OF assms(1)] end_task_fields(2) [OF assms(1)] by simp
qed (use assms end_task_fields [OF assms(1)] wf_stateD(1,3) [OF assms(1)] in auto)

lemma wf_dead_check_recovered:
  assumes "wf_state st" and "im_get (st_tasks st) t = Some dc"
    and "get_tunnel st (dc_local dc) = Some ti"
  shows "wf_state (put_tunnel (dc_local dc)
    (ti\<lparr>ti_dead_remotes := im_remove (dc_remote dc) (ti_dead_remotes ti),
        ti_remotes := im_insert (dc_remote dc) ri (ti_remotes ti)\<rparr>, es) (end_task t st))"
proof (rule wf_task_ended [OF assms(1,2)])
  let ?ti = "ti\<lparr>ti_dead_remotes := im_remove (dc_remote dc) (ti_dead_remotes ti)\<rparr>"
  have wf: "wf_tunnel (im_get (st_tasks st)) (dc_local dc) ti"
    by (rule wf_stateD(4) [OF assms(1,3)])
  have "wf_tunnel ((im_get (st_tasks st))(t := None)) (dc_local dc) ?ti"
    by (rule wf_tunnel_task_done [OF wf assms(2)]) simp_all
  then show "wf_tunnel ((im_get (st_tasks st))(t := None)) (dc_local dc)
    (fst (ti\<lparr>ti_dead_remotes := im_remove (dc_remote dc) (ti_dead_remotes ti),
        ti_remotes := im_insert (dc_remote dc) ri (ti_remotes ti)\<rparr>, es))"
    using wf_tunnel_insert_live [of _ _ ?ti "dc_remote dc" ri] wf_tunnelD(2) [OF wf] by simp
qed

lemma wf_dead_check_failed:
  assumes "wf_state st" and "im_get (st_tasks st) t = Some dc"
    and "wf_tunnel (im_get (st_tasks st)) (dc_local dc) ti"
    and "im_get (ti_dead_remotes ti) (dc_remote dc) = Some d"
  shows "wf_state (put_tunnel (dc_local dc)
      (ti\<lparr>ti_dead_remotes := im_insert (dc_remote dc)
         \<lparr>dr_remote = ri, dr_join_handle =
            Some (fst (check_dead (dc_local dc) (dc_remote dc) to af c (end_task t st)))\<rparr>
         (ti_dead_remotes ti)\<rparr>, es)
      (snd (check_dead (dc_local dc) (dc_remote dc) to af c (end_task t st))))"
proof (rule wf_task_respawned [OF assms(1,2)], simp only: fst_conv,
    rule wf_tunnel_replace_dead [OF assms(3,2) refl _ assms(4) supervised_check_dead])
  fix t'
  assume "t' \<noteq> t" and "im_get (st_tasks st) t' \<noteq> None"
  with wf_stateD(3) [OF assms(1)] end_task_fields(2) [OF assms(1), of t]
  show "im_get (st_tasks (snd (check_dead (dc_local dc) (dc_remote dc) to af c (end_task t st)))) t'
      = im_get (st_tasks st) t'"
    by auto
qed

lemma wf_dead_check_done [wf_intros]:
  assumes "wf_state st"
  shows "wf_state (dead_check_done now connected t st)"
proof (cases "im_get (st_tasks st) t")
  case None
  with assms show ?thesis by (simp add: dead_check_done_def)
next
  case dc: (Some dc)
  let ?l = "dc_local dc" and ?r = "dc_remote dc"
  have absent: "wf_tunnel ((im_get (st_tasks st))(t := None)) ?l ti"
    if "get_tunnel st ?l = Some ti" "im_get (ti_dead_remotes ti) ?r = None" for ti
    by (rule wf_tunnel_task_done_absent [OF wf_stateD(4) [OF assms that(1)] dc refl _ that(2)]) simp
  show ?thesis
  proof (cases "get_tunnel st ?l")
    case None
    with wf_task_ended_only [OF assms dc] dc show ?thesis by (simp add: dead_check_done_def)
  next
    case ti: (Some ti)
    have err: "wf_tunnel tasks ?l (fst (ti_remote_error ?l ?r ti))" if "wf_tunnel tasks ?l ti" for tasks
      by (rule wf_tunnel_same_keys [OF that]) simp_all
    show ?thesis
    proof (cases "im_get (ti_dead_remotes ti) ?r")
      case None
      with absent [OF ti] ti dc show ?thesis
        using wf_task_ended_only [OF assms dc] wf_task_ended [OF assms dc err]
        by (simp add: dead_check_done_def Let_def)
    next
      case (Some d)
      with ti dc show ?thesis
        using wf_dead_check_recovered [OF assms dc ti]
          wf_dead_check_failed [OF assms dc err [OF wf_stateD(4) [OF assms ti]]]
        by (simp add: dead_check_done_def Let_def case_prod_beta)
    qed
  qed
qed

subsubsection \<open>Closing a tunnel\<close>

lemma abort_all_fields:
  assumes "im_wf (st_tasks st)"
  shows "im_wf (st_tasks (fold (\<lambda>(_, d). abort (dr_join_handle d)) ds st))
    \<and> im_get (st_tasks (fold (\<lambda>(_, d). abort (dr_join_handle d)) ds st))
        = (\<lambda>t. if Some t \<in> (dr_join_handle \<circ> snd) ` set ds then None else im_get (st_tasks st) t)
    \<and> st_tunnels (fold (\<lambda>(_, d). abort (dr_join_handle d)) ds st) = st_tunnels st
    \<and> st_next_task (fold (\<lambda>(_, d). abort (dr_join_handle d)) ds st) = st_next_task st
    \<and> st_emitted (fold (\<lambda>(_, d). abort (dr_join_handle d)) ds st) = st_emitted st"
  using assms
proof (induction ds arbitrary: st)
  case Nil
  then show ?case by simp
next
  case (Cons rd ds)
  have wf: "im_wf (st_tasks (abort (dr_join_handle (snd rd)) st))"
    using Cons.prems by (auto simp: abort_def im_wf_remove split: option.split)
  show ?case
    using Cons.IH [OF wf] Cons.prems
    by (cases rd) (auto simp: abort_def fun_eq_iff split: option.split)
qed

lemma wf_remove_tunnel [wf_intros]:
  assumes "wf_state st"
  shows "wf_state (snd (remove_tunnel l st))"
proof (cases "get_tunnel st l")
  case None
  with assms show ?thesis by (simp add: remove_tunnel_def)
next
  case (Some ti)
  let ?ds = "ti_dead_remotes ti"
  let ?st1 = "st\<lparr>st_tunnels := im_remove l (st_tunnels st)\<rparr>"
  have wf_t: "im_wf (st_tasks ?st1)" using wf_stateD(2) [OF assms] by simp
  have local: "dc_local dc = l"
    if "Some t \<in> (dr_join_handle \<circ> snd) ` set ?ds" and "im_get (st_tasks st) t = Some dc" for t dc
  proof -
    from that(1) obtain r d where "(r, d) \<in> set ?ds" and h: "dr_join_handle d = Some t" by auto
    then have "im_get ?ds r = Some d"
      using wf_tunnelD(2) [OF wf_stateD(4) [OF assms Some]] by (simp add: im_wf_def)
    from wf_tunnelD(5) [OF wf_stateD(4) [OF assms Some] this] h that(2)
    show ?thesis by (auto simp: supervised_def)
  qed
  show ?thesis
    by (rule wf_state_local_change [OF assms, of _ l])
      (use Some abort_all_fields [OF wf_t, of ?ds] wf_stateD(1) [OF assms] local
         wf_stateD_fresh [OF assms] in \<open>auto simp: remove_tunnel_def Let_def im_wf_remove\<close>)
qed

lemmas wf_operations = wf_add_tunnel wf_remove_tunnel wf_add_remote_to_tunnel
  wf_remove_remote_from_tunnel wf_client_connected wf_remote_connected wf_update_transferred
  wf_client_disconnected wf_select_remote wf_remote_error wf_dead_check_done

end
