(* ===== verification/State_Spec.thy ===== *)
theory State_Spec
  imports State_Wf
begin

text \<open>
  What the operations of the state promise: in every order of calls the state stays
  well-formed, it refines an abstract registry of live and dead remotes, and each operation
  does what its callers rely on, errors included.
\<close>

subsection \<open>Sequences of operations\<close>

text \<open>
  One call of the public interface of the state (queries excepted), and the end of one check
  of a dead remote. The arguments the code takes from its environment (time, random draw,
  outcome of a connection attempt) are arguments of the call.
\<close>

datatype op =
    AddTunnel Tunnel channel_id
  | RemoveTunnel SocketSpec
  | AddRemote SocketSpec SocketSpec
  | RemoveRemote SocketSpec SocketSpec
  | SelectRemote nat SocketSpec
  | ClientConnected SocketSpec
  | RemoteConnected SocketSpec SocketSpec
  | RemoteErr SystemTime SocketSpec SocketSpec SocketAddr TunnelRemoteOptions
  | UpdateTransferred SocketSpec SocketSpec bool u64
  | ClientDisconnected SocketSpec "SocketSpec option"
  | DeadCheckDone SystemTime bool task_id

fun exec_op :: "op \<Rightarrow> State \<Rightarrow> State" where
  "exec_op (AddTunnel t ch) st = snd (add_tunnel t ch st)"
| "exec_op (RemoveTunnel l) st = snd (remove_tunnel l st)"
| "exec_op (AddRemote l r) st = snd (add_remote_to_tunnel l r st)"
| "exec_op (RemoveRemote l r) st = snd (remove_remote_from_tunnel l r st)"
| "exec_op (SelectRemote rnd l) st =
     (case select_remote rnd l st of None \<Rightarrow> st | Some (_, st') \<Rightarrow> st')"
| "exec_op (ClientConnected l) st = client_connected l st"
| "exec_op (RemoteConnected l r) st = remote_connected l r st"
| "exec_op (RemoteErr now l r c opts) st = outcome_state (remote_error now l r c opts st)"
| "exec_op (UpdateTransferred l r sent n) st = update_transferred l r sent n st"
| "exec_op (ClientDisconnected l r) st = client_disconnected l r st"
| "exec_op (DeadCheckDone now ok t) st = dead_check_done now ok t st"

definition run_ops :: "op list \<Rightarrow> State \<Rightarrow> State" where
  "run_ops ops st = fold exec_op ops st"

lemma wf_exec_op: "wf_state st \<Longrightarrow> wf_state (exec_op x st)"
  by (cases x) (auto intro: wf_operations split: option.split)

lemma wf_run_ops: "wf_state st \<Longrightarrow> wf_state (run_ops ops st)"
  unfolding run_ops_def by (induction ops arbitrary: st) (auto intro: wf_exec_op)

lemma run_ops_new_wf: "new_State args opts c = Inr st \<Longrightarrow> wf_state (run_ops ops st)"
  by (intro wf_run_ops wf_new_State)

text \<open>
  C5: from a new state, after any sequence of operations and finished checks, no remote of a
  tunnel is both live and dead, and every dead remote is supervised: the handle stored with it
  is that of a pending check of exactly this remote, so it will be tried again.
\<close>

theorem dead_remotes_always_supervised:
  assumes "new_State args opts c = Inr st"
    and "get_tunnel (run_ops ops st) l = Some ti"
    and "im_get (ti_dead_remotes ti) r = Some d"
  shows "im_get (ti_remotes ti) r = None
    \<and> (\<exists>t dc. dr_join_handle d = Some t \<and> im_get (st_tasks (run_ops ops st)) t = Some dc
         \<and> dc_local dc = l \<and> dc_remote dc = r)"
  using wf_tunnelD(3,5) [OF wf_stateD(4) [OF run_ops_new_wf [OF assms(1)] assms(2)] assms(3)]
  by (simp add: supervised_def)

subsection \<open>Refinement of an abstract registry\<close>

type_synonym registry = "SocketSpec \<rightharpoonup> SocketSpec set \<times> SocketSpec set"

definition tunnel_ends :: "TunnelInfo \<Rightarrow> SocketSpec set \<times> SocketSpec set" where
  "tunnel_ends ti = (set (im_keys (ti_remotes ti)), set (im_keys (ti_dead_remotes ti)))"

definition registry_of :: "State \<Rightarrow> registry" where
  "registry_of st = (\<lambda>l. map_option tunnel_ends (get_tunnel st l))"

inductive registry_step :: "op \<Rightarrow> registry \<Rightarrow> registry \<Rightarrow> bool" where
  opened: "g (tun_local t) = None
    \<Longrightarrow> registry_step (AddTunnel t ch) g (g(tun_local t \<mapsto> (set (tun_remote t), {})))"
| refused: "g (tun_local t) \<noteq> None \<Longrightarrow> registry_step (AddTunnel t ch) g g"
| closed: "registry_step (RemoveTunnel l) g (g(l := None))"
| added: "g l = Some (L, D) \<Longrightarrow> r \<notin> L \<union> D
    \<Longrightarrow> registry_step (AddRemote l r) g (g(l \<mapsto> (Set.insert r L, D)))"
| not_added: "(\<forall>L D. g l = Some (L, D) \<longrightarrow> r \<in> L \<union> D) \<Longrightarrow> registry_step (AddRemote l r) g g"
| removed: "g l = Some (L, D)
    \<Longrightarrow> registry_step (RemoveRemote l r) g (g(l \<mapsto> (L - {r}, D - {r})))"
| not_removed: "g l = None \<Longrightarrow> registry_step (RemoveRemote l r) g g"
| selected: "registry_step (SelectRemote rnd l) g g"
| client_in: "registry_step (ClientConnected l) g g"
| connected: "registry_step (RemoteConnected l r) g g"
| survived: "registry_step (RemoteErr now l r c opts) g g"
| died: "g l = Some (L, D) \<Longrightarrow> r \<in> L \<Longrightarrow> duration_from_secs_f32 (ro_connect_timeout opts) \<noteq> None
    \<Longrightarrow> registry_step (RemoteErr now l r c opts) g (g(l \<mapsto> (L - {r}, Set.insert r D)))"
| lost: "g l = Some (L, D) \<Longrightarrow> r \<in> L \<Longrightarrow> duration_from_secs_f32 (ro_connect_timeout opts) = None
    \<Longrightarrow> registry_step (RemoteErr now l r c opts) g (g(l \<mapsto> (L - {r}, D)))"
| moved: "registry_step (UpdateTransferred l r sent n) g g"
| client_out: "registry_step (ClientDisconnected l r') g g"
| still_dead: "registry_step (DeadCheckDone now ok t) g g"
| recovered: "g l = Some (L, D) \<Longrightarrow> r \<in> D
    \<Longrightarrow> registry_step (DeadCheckDone now True t) g (g(l \<mapsto> (Set.insert r L, D - {r})))"

lemma registry_of_put: "registry_of (put_tunnel l res st) = (registry_of st)(l \<mapsto> tunnel_ends (fst res))"
  by (simp add: registry_of_def fun_eq_iff)

lemma registry_of_put_same:
  "get_tunnel st l = Some ti \<Longrightarrow> tunnel_ends (fst res) = tunnel_ends ti
    \<Longrightarrow> registry_of (put_tunnel l res st) = registry_of st"
  by (simp add: registry_of_put) (simp add: registry_of_def fun_eq_iff)

lemma registry_of_spawn [simp]: "registry_of (snd (check_dead l r t a c st)) = registry_of st"
  by (simp add: registry_of_def)

lemma registry_of_end_task [simp]: "registry_of (end_task t st) = registry_of st"
  by (simp add: registry_of_def)

lemma tunnel_ends_same:
  "im_keys (ti_remotes ti') = im_keys (ti_remotes ti)
    \<Longrightarrow> ti_dead_remotes ti' = ti_dead_remotes ti \<Longrightarrow> tunnel_ends ti' = tunnel_ends ti"
  by (simp add: tunnel_ends_def)

lemma key_iff: "r \<in> set (im_keys m) \<longleftrightarrow> im_get m r \<noteq> None"
  by (metis domIff im.dom_get)

lemma registry_of_quiet:
  "registry_of (client_connected l st) = registry_of st"
  "registry_of (remote_connected l r st) = registry_of st"
  "registry_of (update_transferred l r s n st) = registry_of st"
  "registry_of (client_disconnected l r' st) = registry_of st"
  by (auto simp: client_connected_def remote_connected_def update_transferred_def
      client_disconnected_def intro!: registry_of_put_same tunnel_ends_same split: option.split)

lemma registry_of_select:
  "select_remote rnd l st = Some (res, st') \<Longrightarrow> registry_of st' = registry_of st"
proof (cases "get_tunnel st l")
  case None
  then show "select_remote rnd l st = Some (res, st') \<Longrightarrow> registry_of st' = registry_of st"
    by (simp add: select_remote_def)
next
  case (Some ti)
  assume sel: "select_remote rnd l st = Some (res, st')"
  show "registry_of st' = registry_of st"
  proof (cases rule: ti_select_remote_cases [of ti rnd])
    case none
    with sel Some show ?thesis
      by (auto simp: select_remote_def intro!: registry_of_put_same)
  next
    case (some idx ri)
    with sel Some show ?thesis
      by (auto simp: select_remote_def im_contains_key_def intro!: registry_of_put_same tunnel_ends_same)
  qed
qed

lemma refine_add_tunnel: "registry_step (AddTunnel t ch) (registry_of st) (registry_of (snd (add_tunnel t ch st)))"
proof (cases "get_tunnel st (tun_local t)")
  case None
  then have "registry_of st (tun_local t) = None" by (simp add: registry_of_def)
  from opened [where g = "registry_of st", OF this, of ch] None show ?thesis
    by (simp add: add_tunnel_def im_contains_key_def registry_of_put Let_def tunnel_ends_def
        new_TunnelInfo_def set_keys_of_list image_image) (simp add: im_keys_def)
next
  case (Some ti)
  then have "registry_of st (tun_local t) \<noteq> None" by (simp add: registry_of_def)
  from refused [where g = "registry_of st", OF this, of ch] Some show ?thesis
    by (simp add: add_tunnel_def im_contains_key_def)
qed

lemma registry_of_closed:
  assumes "wf_state st"
  shows "registry_of (snd (remove_tunnel l st)) = (registry_of st)(l := None)"
proof (cases "get_tunnel st l")
  case None
  then show ?thesis by (simp add: remove_tunnel_def registry_of_def fun_eq_iff)
next
  case (Some ti)
  let ?st1 = "st\<lparr>st_tunnels := im_remove l (st_tunnels st)\<rparr>"
  have "im_wf (st_tasks ?st1)" using wf_stateD(2) [OF assms] by simp
  from abort_all_fields [OF this, of "ti_dead_remotes ti"] Some show ?thesis
    using wf_stateD(1) [OF assms] by (simp add: remove_tunnel_def registry_of_def fun_eq_iff Let_def)
qed

lemma refine_add_remote:
  "registry_step (AddRemote l r) (registry_of st) (registry_of (snd (add_remote_to_tunnel l r st)))"
proof (cases "get_tunnel st l")
  case None
  then have "registry_of st l = None" by (simp add: registry_of_def)
  then have "registry_step (AddRemote l r) (registry_of st) (registry_of st)"
    by (simp add: not_added)
  with None show ?thesis by (simp add: add_remote_to_tunnel_def)
next
  case (Some ti)
  then have g: "registry_of st l
      = Some (set (im_keys (ti_remotes ti)), set (im_keys (ti_dead_remotes ti)))"
    by (simp add: registry_of_def tunnel_ends_def)
  show ?thesis
  proof (cases "r \<in> set (im_keys (ti_remotes ti)) \<union> set (im_keys (ti_dead_remotes ti))")
    case True
    with g have "registry_step (AddRemote l r) (registry_of st) (registry_of st)"
      by (intro not_added) auto
    with True Some show ?thesis
      by (auto simp: add_remote_to_tunnel_def im_contains_key_iff)
  next
    case False
    from added [where g = "registry_of st" and l = l, OF g False] False Some show ?thesis
      by (simp add: add_remote_to_tunnel_def im_contains_key_iff registry_of_put tunnel_ends_def
          im.set_keys_insert)
  qed
qed

lemma refine_remove_remote:
  assumes "wf_state st"
  shows "registry_step (RemoveRemote l r) (registry_of st)
    (registry_of (snd (remove_remote_from_tunnel l r st)))"
proof (cases "get_tunnel st l")
  case None
  then have "registry_of st l = None" by (simp add: registry_of_def)
  from not_removed [where g = "registry_of st" and l = l, OF this] None show ?thesis by (simp add: remove_remote_from_tunnel_def)
next
  case (Some ti)
  have wf: "wf_tunnel (im_get (st_tasks st)) l ti" by (rule wf_stateD(4) [OF assms Some])
  have "registry_of st l = Some (set (im_keys (ti_remotes ti)), set (im_keys (ti_dead_remotes ti)))"
    using Some by (simp add: registry_of_def tunnel_ends_def)
  note step = removed [where g = "registry_of st" and l = l, OF this, of r]
  have "registry_of (snd (remove_remote_from_tunnel l r st))
      = (registry_of st)(l \<mapsto> (set (im_keys (ti_remotes ti)) - {r},
                              set (im_keys (ti_dead_remotes ti)) - {r}))"
  proof (cases "im_get (ti_remotes ti) r")
    case live: (Some ri)
    with wf_tunnelD(4) [OF wf live] Some show ?thesis
      by (simp add: remove_remote_from_tunnel_def registry_of_put tunnel_ends_def
          im.set_keys_remove [OF wf_tunnelD(1) [OF wf]] key_iff)
  next
    case None
    show ?thesis
    proof (cases "im_get (ti_dead_remotes ti) r")
      case (Some d)
      with None \<open>get_tunnel st l = Some ti\<close> show ?thesis
        by (simp add: remove_remote_from_tunnel_def registry_of_put tunnel_ends_def
            im.set_keys_remove [OF wf_tunnelD(2) [OF wf]] key_iff)
    next
      case dead: None
      with None have "r \<notin> set (im_keys (ti_remotes ti))" "r \<notin> set (im_keys (ti_dead_remotes ti))"
        by (simp_all add: key_iff)
      with None dead Some show ?thesis
        by (simp add: remove_remote_from_tunnel_def registry_of_def tunnel_ends_def fun_eq_iff)
    qed
  qed
  with step show ?thesis by simp
qed

lemma refine_remote_error:
  assumes "wf_state st"
  shows "registry_step (RemoteErr now l r c opts) (registry_of st)
    (registry_of (outcome_state (remote_error now l r c opts st)))"
proof (cases "get_tunnel st l")
  case None
  then show ?thesis by (simp add: remote_error_def survived)
next
  case (Some ti)
  define res where "res = on_remote r (ri_error now l r (Some c)) (ti_remote_error l r ti)"
  have wf: "wf_tunnel (im_get (st_tasks st)) l ti" by (rule wf_stateD(4) [OF assms Some])
  have ends: "tunnel_ends (fst res) = tunnel_ends ti"
    by (rule tunnel_ends_same) (simp_all add: res_def)
  have same: "registry_of (put_tunnel l res st) = registry_of st"
    by (rule registry_of_put_same [OF Some ends])
  have keys: "set (im_keys (ti_remotes (fst res))) = set (im_keys (ti_remotes ti))"
    "ti_dead_remotes (fst res) = ti_dead_remotes ti" "im_wf (ti_remotes (fst res))"
    using wf_tunnelD(1) [OF wf] by (simp_all add: res_def im_wf_update)
  have g: "registry_of st l = Some (set (im_keys (ti_remotes ti)), set (im_keys (ti_dead_remotes ti)))"
    using Some by (simp add: registry_of_def tunnel_ends_def)
  show ?thesis
  proof (cases "\<exists>ri. im_get (ti_remotes (fst res)) r = Some ri
                 \<and> ro_errors_till_dead opts \<le> rs_num_errors (ri_stats ri)")
    case False
    then have "registry_of (outcome_state (remote_error now l r c opts st)) = registry_of st"
      using Some same by (auto simp: remote_error_def Let_def res_def [symmetric] split: option.split)
    then show ?thesis by (simp add: survived)
  next
    case True
    then have live: "r \<in> set (im_keys (ti_remotes ti))"
      using keys(1) by (auto simp: key_iff)
    show ?thesis
      using True Some same keys died [where g = "registry_of st" and l = l, OF g live, of opts now c]
        lost [where g = "registry_of st" and l = l, OF g live, of opts now c]
      by (auto simp: remote_error_def Let_def res_def [symmetric] case_prod_beta registry_of_put
          tunnel_ends_def duration_ten im.set_keys_remove im.set_keys_insert split: option.split)
  qed
qed

lemma refine_dead_check:
  assumes "wf_state st"
  shows "registry_step (DeadCheckDone now ok t) (registry_of st)
    (registry_of (dead_check_done now ok t st))"
proof (cases "\<exists>dc ti d. ok \<and> im_get (st_tasks st) t = Some dc \<and> get_tunnel st (dc_local dc) = Some ti
                \<and> im_get (ti_dead_remotes ti) (dc_remote dc) = Some d")
  case True
  then obtain dc ti d where ok and t: "im_get (st_tasks st) t = Some dc"
    and ti: "get_tunnel st (dc_local dc) = Some ti"
    and d: "im_get (ti_dead_remotes ti) (dc_remote dc) = Some d" by blast
  have wf: "wf_tunnel (im_get (st_tasks st)) (dc_local dc) ti" by (rule wf_stateD(4) [OF assms ti])
  have g: "registry_of st (dc_local dc)
      = Some (set (im_keys (ti_remotes ti)), set (im_keys (ti_dead_remotes ti)))"
    using ti by (simp add: registry_of_def tunnel_ends_def)
  have "dc_remote dc \<in> set (im_keys (ti_dead_remotes ti))" using d by (simp add: key_iff)
  from recovered [where g = "registry_of st" and l = "dc_local dc", OF g this, of now t] \<open>ok\<close> t ti d show ?thesis
    by (simp add: dead_check_done_def Let_def registry_of_put tunnel_ends_def im.set_keys_insert
        im.set_keys_remove [OF wf_tunnelD(2) [OF wf]])
next
  case False
  have "registry_of (dead_check_done now ok t st) = registry_of st"
  proof (cases "im_get (st_tasks st) t")
    case None
    then show ?thesis by (simp add: dead_check_done_def)
  next
    case t: (Some dc)
    show ?thesis
    proof (cases "get_tunnel st (dc_local dc)")
      case None
      with t show ?thesis by (simp add: dead_check_done_def)
    next
      case (Some ti)
      have same: "registry_of (put_tunnel (dc_local dc) res st') = registry_of st"
        if "registry_of st' = registry_of st" and "tunnel_ends (fst res) = tunnel_ends ti" for res st'
        using that Some by (simp add: registry_of_put) (simp add: registry_of_def fun_eq_iff)
      have re: "r \<in> set (im_keys m) \<Longrightarrow> Set.insert r (set (im_keys m)) = set (im_keys m)"
        for r and m :: DeadRemotesMap by (rule insert_absorb)
      show ?thesis
        using False t Some
        by (auto simp: dead_check_done_def Let_def case_prod_beta tunnel_ends_def
            im.set_keys_insert re key_iff intro!: same split: option.split)
    qed
  qed
  then show ?thesis by (simp add: still_dead)
qed

lemma registry_of_exec_select:
  "registry_of (case select_remote rnd l st of None \<Rightarrow> st | Some (_, st') \<Rightarrow> st') = registry_of st"
  by (auto dest: registry_of_select split: option.split)

text \<open>
  C1: every operation of the state, seen as the sets of live and dead remotes of each tunnel,
  is a step of the abstract registry: remotes appear only by opening a tunnel or adding them,
  and move between live and dead only by a connection error or a successful check.
\<close>

theorem state_refines_registry:
  assumes "wf_state st"
  shows "registry_step x (registry_of st) (registry_of (exec_op x st))"
  using assms
  by (cases x) (simp_all add: registry_of_quiet registry_of_closed registry_of_exec_select
      selected client_in connected moved client_out closed refine_add_tunnel refine_add_remote
      refine_remove_remote refine_remote_error refine_dead_check)

subsection \<open>Isolation\<close>

text \<open>The tunnel an operation is about.\<close>

fun op_tunnel :: "State \<Rightarrow> op \<Rightarrow> SocketSpec option" where
  "op_tunnel st (AddTunnel t ch) = Some (tun_local t)"
| "op_tunnel st (RemoveTunnel l) = Some l"
| "op_tunnel st (AddRemote l r) = Some l"
| "op_tunnel st (RemoveRemote l r) = Some l"
| "op_tunnel st (SelectRemote rnd l) = Some l"
| "op_tunnel st (ClientConnected l) = Some l"
| "op_tunnel st (RemoteConnected l r) = Some l"
| "op_tunnel st (RemoteErr now l r c opts) = Some l"
| "op_tunnel st (UpdateTransferred l r sent n) = Some l"
| "op_tunnel st (ClientDisconnected l r) = Some l"
| "op_tunnel st (DeadCheckDone now ok t) = map_option dc_local (im_get (st_tasks st) t)"

lemma get_tunnel_put_other: "l' \<noteq> l \<Longrightarrow> get_tunnel (put_tunnel l res st) l' = get_tunnel st l'"
  by simp

lemma select_remote_other:
  assumes "l' \<noteq> l"
  shows "get_tunnel (case select_remote rnd l st of None \<Rightarrow> st | Some (_, st') \<Rightarrow> st') l'
    = get_tunnel st l'"
proof (cases "get_tunnel st l")
  case None
  then show ?thesis by (simp add: select_remote_def)
next
  case (Some ti)
  with assms show ?thesis
    by (cases rule: ti_select_remote_cases [of ti rnd])
      (auto simp: select_remote_def im_contains_key_def)
qed

lemma remote_error_other:
  "l' \<noteq> l \<Longrightarrow> get_tunnel (outcome_state (remote_error now l r c opts st)) l' = get_tunnel st l'"
  by (auto simp: remote_error_def Let_def case_prod_beta split: option.split)

lemma remove_tunnel_lookup:
  assumes "wf_state st"
  shows "get_tunnel (snd (remove_tunnel l st)) = (get_tunnel st)(l := None)"
proof (cases "get_tunnel st l")
  case None
  then show ?thesis by (simp add: remove_tunnel_def fun_upd_idem)
next
  case (Some ti)
  have "im_wf (st_tasks (st\<lparr>st_tunnels := im_remove l (st_tunnels st)\<rparr>))"
    using wf_stateD(2) [OF assms] by simp
  from abort_all_fields [OF this, of "ti_dead_remotes ti"] Some wf_stateD(1) [OF assms]
  show ?thesis by (simp add: remove_tunnel_def Let_def)
qed

lemma dead_check_other:
  "\<forall>dc. im_get (st_tasks st) t = Some dc \<longrightarrow> dc_local dc \<noteq> l'
    \<Longrightarrow> get_tunnel (dead_check_done now ok t st) l' = get_tunnel st l'"
  by (auto simp: dead_check_done_def Let_def case_prod_beta split: option.split)

text \<open>
  C24: tunnels do not interfere: an operation changes at most the record of the tunnel it is
  about, also when a check started by that tunnel ends.
\<close>

theorem operations_are_isolated:
  assumes "wf_state st" and "op_tunnel st x \<noteq> Some l'"
  shows "get_tunnel (exec_op x st) l' = get_tunnel st l'"
  using assms select_remote_other remote_error_other dead_check_other
  by (cases x) (auto simp: add_tunnel_def remove_tunnel_lookup add_remote_to_tunnel_def
      remove_remote_from_tunnel_def client_connected_def remote_connected_def
      update_transferred_def client_disconnected_def Let_def split: option.split)

subsection \<open>Selection\<close>

text \<open>
  C20: selecting a remote for a client fails exactly when the tunnel is unknown or has no live
  remote; otherwise the remote it returns is live, its options are the tunnel's, its count of
  pending streams grows by one, and no other remote changes.
\<close>

theorem select_remote_spec:
  assumes "wf_state st"
  shows "case get_tunnel st l of
      None \<Rightarrow> select_remote rnd l st = Some (Inl TunnelDoesNotExist, st)
    | Some ti \<Rightarrow>
        (case ti_remotes ti of
           [] \<Rightarrow> map_option fst (select_remote rnd l st) = Some (Inl NoRemote)
         | _ # _ \<Rightarrow>
             \<exists>r ri st' ti'. select_remote rnd l st = Some (Inr (r, to_options (ti_options ti)), st')
               \<and> im_get (ti_remotes ti) r = Some ri
               \<and> get_tunnel st' l = Some ti' \<and> ti_dead_remotes ti' = ti_dead_remotes ti
               \<and> im_get (ti_remotes ti') = (im_get (ti_remotes ti))
                   (r \<mapsto> ri\<lparr>ri_stats := (ri_stats ri)
                       \<lparr>rs_streams_pending := rs_streams_pending (ri_stats ri) + 1\<rparr>\<rparr>))"
proof (cases "get_tunnel st l")
  case None
  then show ?thesis by (simp add: select_remote_def)
next
  case (Some ti)
  then show ?thesis
  proof (cases rule: ti_select_remote_cases [of ti rnd])
    case none
    with Some show ?thesis by (simp add: select_remote_def)
  next
    case (some idx ri)
    let ?r = "fst (ti_remotes ti ! idx)"
    let ?ti = "ti\<lparr>ti_last_selected_index := Some idx\<rparr>"
    let ?res = "on_remote ?r (ri_new_pending_stream l ?r) (?ti, [])"
    have "select_remote rnd l st = Some (Inr (?r, to_options (ti_options ti)), put_tunnel l ?res st)"
      using Some some by (simp add: select_remote_def im_contains_key_def)
    moreover have "im_get (ti_remotes (fst ?res)) = (im_get (ti_remotes ti))
        (?r \<mapsto> ri\<lparr>ri_stats := (ri_stats ri)
           \<lparr>rs_streams_pending := rs_streams_pending (ri_stats ri) + 1\<rparr>\<rparr>)"
      using some(3) by (simp add: ri_new_pending_stream_def)
    ultimately show ?thesis
      using Some some(1,3) by (auto split: list.split)
  qed
qed

subsection \<open>Errors and dead remotes\<close>

text \<open>
  The outcome of a failed connection attempt to a live remote, with all tasks.
\<close>

definition failed_stats :: "SystemTime \<Rightarrow> RemoteStats \<Rightarrow> RemoteStats" where
  "failed_stats now s = s\<lparr>rs_total_errors := rs_total_errors s + 1, rs_num_errors := rs_num_errors s + 1,
     rs_last_error_time := Some now, rs_streams_pending := rs_streams_pending s - 1\<rparr>"

lemma failed_attempt:
  assumes "wf_state st" and "get_tunnel st l = Some ti"
    and "im_get (ti_remotes ti) r = Some ri"
    and "duration_from_secs_f32 (ro_connect_timeout opts) = Some timeout"
  shows "\<exists>st' ti'. remote_error now l r c opts st = Done st' \<and> get_tunnel st' l = Some ti'
    \<and> ts_errors (ti_stats ti') = ts_errors (ti_stats ti) + 1
    \<and> (let ri' = ri\<lparr>ri_stats := failed_stats now (ri_stats ri)\<rparr>
       in if ro_errors_till_dead opts \<le> rs_num_errors (ri_stats ri) + 1
          then im_get (ti_remotes ti') r = None
             \<and> im_get (ti_dead_remotes ti') r
                 = Some \<lparr>dr_remote = ri', dr_join_handle = Some (st_next_task st)\<rparr>
             \<and> im_get (st_tasks st') = (im_get (st_tasks st)) (st_next_task st \<mapsto>
                 \<lparr>dc_local = l, dc_remote = r, dc_timeout = timeout, dc_after = 10000000000,
                  dc_tls_config = tls_config opts st\<rparr>)
             \<and> st_next_task st' = Suc (st_next_task st)
          else im_get (ti_remotes ti') r = Some ri' \<and> ti_dead_remotes ti' = ti_dead_remotes ti)"
proof -
  define res where "res = on_remote r (ri_error now l r (Some c)) (ti_remote_error l r ti)"
  have wf: "im_wf (ti_remotes ti)" by (rule wf_tunnelD(1) [OF wf_stateD(4) [OF assms(1,2)]])
  have tls: "tls_config opts (put_tunnel l res' st') = tls_config opts st'" for res' st'
    by (simp add: tls_config_def)
  have rem: "ti_remotes (fst res) = im_update r (\<lambda>ri. fst (ri_error now l r (Some c) ri)) (ti_remotes ti)"
    and dead: "ti_dead_remotes (fst res) = ti_dead_remotes ti"
    and err: "ts_errors (ti_stats (fst res)) = ts_errors (ti_stats ti) + 1"
    by (simp_all add: res_def ti_remote_error_def)
  show ?thesis
    using assms(2-4) wf
    by (simp add: remote_error_def Let_def res_def [symmetric] rem dead err case_prod_beta tls
        ri_error_def duration_ten im_wf_update failed_stats_def)
qed

text \<open>
  C18: a failed connection attempt to a live remote counts one error for the tunnel and one for
  the remote and ends its pending stream. The remote is moved to the dead remotes, with a check
  pending, exactly when its consecutive errors now reach the threshold of the options; else it
  stays live.
\<close>

theorem remote_error_threshold:
  assumes "wf_state st" and "get_tunnel st l = Some ti"
    and "im_get (ti_remotes ti) r = Some ri"
    and "duration_from_secs_f32 (ro_connect_timeout opts) = Some timeout"
  shows "\<exists>st' ti'. remote_error now l r c opts st = Done st' \<and> get_tunnel st' l = Some ti'
    \<and> ts_errors (ti_stats ti') = ts_errors (ti_stats ti) + 1
    \<and> (let s = ri_stats ri;
           s' = s\<lparr>rs_total_errors := rs_total_errors s + 1, rs_num_errors := rs_num_errors s + 1,
                  rs_last_error_time := Some now, rs_streams_pending := rs_streams_pending s - 1\<rparr>;
           ri' = ri\<lparr>ri_stats := s'\<rparr>
       in if ro_errors_till_dead opts \<le> rs_num_errors s + 1
          then im_get (ti_remotes ti') r = None
             \<and> im_get (ti_dead_remotes ti') r
                 = Some \<lparr>dr_remote = ri', dr_join_handle = Some (st_next_task st)\<rparr>
             \<and> im_get (st_tasks st') (st_next_task st)
                 = Some \<lparr>dc_local = l, dc_remote = r, dc_timeout = timeout, dc_after = 10000000000,
                         dc_tls_config = tls_config opts st\<rparr>
          else im_get (ti_remotes ti') r = Some ri' \<and> ti_dead_remotes ti' = ti_dead_remotes ti)"
proof -
  from failed_attempt [OF assms, of now c] obtain st' ti' where
    "remote_error now l r c opts st = Done st'" "get_tunnel st' l = Some ti'"
    and rest: "ts_errors (ti_stats ti') = ts_errors (ti_stats ti) + 1"
      "let ri' = ri\<lparr>ri_stats := failed_stats now (ri_stats ri)\<rparr>
       in if ro_errors_till_dead opts \<le> rs_num_errors (ri_stats ri) + 1
          then im_get (ti_remotes ti') r = None
             \<and> im_get (ti_dead_remotes ti') r
                 = Some \<lparr>dr_remote = ri', dr_join_handle = Some (st_next_task st)\<rparr>
             \<and> im_get (st_tasks st') = (im_get (st_tasks st)) (st_next_task st \<mapsto>
                 \<lparr>dc_local = l, dc_remote = r, dc_timeout = timeout, dc_after = 10000000000,
                  dc_tls_config = tls_config opts st\<rparr>)
             \<and> st_next_task st' = Suc (st_next_task st)
          else im_get (ti_remotes ti') r = Some ri' \<and> ti_dead_remotes ti' = ti_dead_remotes ti"
    by blast
  from this(1,2) show ?thesis
    by (intro exI [of _ st'] exI [of _ ti']) (use rest in \<open>simp add: Let_def failed_stats_def split: if_splits\<close>)
qed

text \<open>
  A successful check returns a dead remote to the live ones: its consecutive errors are
  reset, all its other statistics are as they were, the task has ended.
\<close>

lemma dead_check_recovers:
  assumes "wf_state st" and "im_get (st_tasks st) t = Some dc"
    and "get_tunnel st (dc_local dc) = Some ti"
    and "im_get (ti_dead_remotes ti) (dc_remote dc) = Some d"
  shows "\<exists>ti'. get_tunnel (dead_check_done now True t st) (dc_local dc) = Some ti'
    \<and> im_get (ti_dead_remotes ti') (dc_remote dc) = None
    \<and> im_get (ti_remotes ti') = (im_get (ti_remotes ti))
        (dc_remote dc \<mapsto> (dr_remote d)\<lparr>ri_stats := (ri_stats (dr_remote d))\<lparr>rs_num_errors := 0\<rparr>\<rparr>)
    \<and> im_get (st_tasks (dead_check_done now True t st)) t = None"
proof -
  have "im_wf (ti_dead_remotes ti)" by (rule wf_tunnelD(2) [OF wf_stateD(4) [OF assms(1,3)]])
  with assms(2-4) wf_stateD(2) [OF assms(1)] show ?thesis
    by (simp add: dead_check_done_def Let_def ri_remote_recovered_def)
qed

text \<open>
  A failed check leaves the remote dead, counts the error but no pending stream, and
  schedules the next check with the same delay and timeout.
\<close>

lemma dead_check_reschedules:
  assumes "wf_state st" and "im_get (st_tasks st) t = Some dc"
    and "get_tunnel st (dc_local dc) = Some ti"
    and "im_get (ti_dead_remotes ti) (dc_remote dc) = Some d"
  shows "\<exists>ti' d'. get_tunnel (dead_check_done now False t st) (dc_local dc) = Some ti'
    \<and> ti_remotes ti' = ti_remotes ti
    \<and> im_get (ti_dead_remotes ti') (dc_remote dc) = Some d'
    \<and> rs_num_errors (ri_stats (dr_remote d')) = rs_num_errors (ri_stats (dr_remote d)) + 1
    \<and> rs_streams_pending (ri_stats (dr_remote d')) = rs_streams_pending (ri_stats (dr_remote d))
    \<and> dr_join_handle d' = Some (st_next_task st)
    \<and> im_get (st_tasks (dead_check_done now False t st)) = (im_get (st_tasks st))
        (t := None, st_next_task st \<mapsto> dc)"
  using assms(2-4) wf_stateD(2) [OF assms(1)]
  by (cases dc) (simp add: dead_check_done_def Let_def case_prod_beta ri_error_def)

text \<open>
  C19: the end of a check of a dead remote. If it could connect, the remote is live again, its
  consecutive errors are reset, all its other statistics are as they were, and the task has
  ended. If it could not, the remote stays dead, the error is counted but no pending stream, and
  the next check is scheduled with the same delay and timeout.
\<close>

theorem dead_check_outcome:
  assumes "wf_state st" and "im_get (st_tasks st) t = Some dc"
    and "get_tunnel st (dc_local dc) = Some ti"
    and "im_get (ti_dead_remotes ti) (dc_remote dc) = Some d"
  shows "(\<exists>ti'. get_tunnel (dead_check_done now True t st) (dc_local dc) = Some ti'
      \<and> im_get (ti_dead_remotes ti') (dc_remote dc) = None
      \<and> im_get (ti_remotes ti') = (im_get (ti_remotes ti))
          (dc_remote dc \<mapsto> (dr_remote d)\<lparr>ri_stats := (ri_stats (dr_remote d))\<lparr>rs_num_errors := 0\<rparr>\<rparr>)
      \<and> im_get (st_tasks (dead_check_done now True t st)) t = None)
    \<and> (\<exists>ti' d'. get_tunnel (dead_check_done now False t st) (dc_local dc) = Some ti'
      \<and> ti_remotes ti' = ti_remotes ti
      \<and> im_get (ti_dead_remotes ti') (dc_remote dc) = Some d'
      \<and> rs_num_errors (ri_stats (dr_remote d')) = rs_num_errors (ri_stats (dr_remote d)) + 1
      \<and> rs_streams_pending (ri_stats (dr_remote d')) = rs_streams_pending (ri_stats (dr_remote d))
      \<and> dr_join_handle d' = Some (st_next_task st)
      \<and> im_get (st_tasks (dead_check_done now False t st)) = (im_get (st_tasks st))
          (t := None, st_next_task st \<mapsto> dc))"
  by (rule conjI [OF dead_check_recovers [OF assms] dead_check_reschedules [OF assms]])

definition checks_after_ten :: "State \<Rightarrow> bool" where
  "checks_after_ten st \<longleftrightarrow>
     (\<forall>t dc. im_get (st_tasks st) t = Some dc \<longrightarrow> dc_after dc = 10000000000)"

lemma checks_put [simp]: "checks_after_ten (put_tunnel l res st) = checks_after_ten st"
  by (simp add: checks_after_ten_def)

lemma checks_same_tasks:
  "st_tasks st' = st_tasks st \<Longrightarrow> checks_after_ten st' = checks_after_ten st"
  by (simp add: checks_after_ten_def)

lemma checks_remove_tunnel:
  assumes "wf_state st" and "checks_after_ten st"
  shows "checks_after_ten (snd (remove_tunnel l st))"
proof (cases "get_tunnel st l")
  case None
  with assms show ?thesis by (simp add: remove_tunnel_def)
next
  case (Some ti)
  have "im_wf (st_tasks (st\<lparr>st_tunnels := im_remove l (st_tunnels st)\<rparr>))"
    using wf_stateD(2) [OF assms(1)] by simp
  from abort_all_fields [OF this, of "ti_dead_remotes ti"] Some assms(2) show ?thesis
    by (auto simp: remove_tunnel_def Let_def checks_after_ten_def)
qed

lemma checks_dead_check_done:
  assumes "wf_state st" and "checks_after_ten st"
  shows "checks_after_ten (dead_check_done now ok t st)"
  using assms(2) wf_stateD(2) [OF assms(1)]
  by (auto simp: dead_check_done_def Let_def case_prod_beta checks_after_ten_def split: option.split)

lemma checks_remote_error:
  "checks_after_ten st \<Longrightarrow> checks_after_ten (outcome_state (remote_error now l r c opts st))"
  by (auto simp: remote_error_def Let_def case_prod_beta checks_after_ten_def duration_ten
      split: option.split)

lemma checks_exec_op:
  assumes "wf_state st" and "checks_after_ten st"
  shows "checks_after_ten (exec_op x st)"
proof (cases x)
  case (SelectRemote rnd l)
  then show ?thesis
    using assms(2) by (auto simp: select_remote_def split: option.split sum.split)
qed (use assms checks_remove_tunnel checks_dead_check_done checks_remote_error in
      \<open>auto simp: add_tunnel_def add_remote_to_tunnel_def remove_remote_from_tunnel_def
         client_connected_def remote_connected_def update_transferred_def client_disconnected_def
         Let_def split: option.split\<close>)

text \<open>
  C40: every check of a dead remote that is ever scheduled waits ten seconds, whatever
  \<open>check-interval\<close> (the \<open>dead_retry\<close> field) says in the options of the tunnel, of the call or
  of the command line.
\<close>

theorem dead_check_interval_is_fixed:
  assumes "new_State args opts c = Inr st"
    and "im_get (st_tasks (run_ops ops st)) t = Some dc"
  shows "dc_after dc = 10000000000"
proof -
  have "wf_state st'\<Longrightarrow> checks_after_ten st' \<Longrightarrow> checks_after_ten (fold exec_op xs st')" for xs st'
    by (induction xs arbitrary: st') (simp_all add: wf_exec_op checks_exec_op)
  moreover have "checks_after_ten st"
    using assms(1) by (auto simp: new_State_def checks_after_ten_def split: sum.splits)
  ultimately show ?thesis
    using wf_new_State [OF assms(1)] assms(2) by (auto simp: run_ops_def checks_after_ten_def)
qed

subsection \<open>Administration\<close>

text \<open>
  C25: the administrative operations fail exactly on their documented condition, with its error,
  and a failed one changes nothing.
\<close>

theorem admin_errors:
  "(fst (add_tunnel t ch st) = Inl e \<longleftrightarrow> e = TunnelExists \<and> tunnel_exists (tun_local t) st)
   \<and> ((\<exists>ti. fst (remove_tunnel l st) = Inr ti) \<longleftrightarrow> tunnel_exists l st)
   \<and> (fst (remove_tunnel l st) = Inl e \<longleftrightarrow> e = TunnelDoesNotExist \<and> \<not> tunnel_exists l st)
   \<and> fst (add_remote_to_tunnel l r st) =
       (case registry_of st l of
          None \<Rightarrow> Inl TunnelDoesNotExist
        | Some (L, D) \<Rightarrow> if r \<in> L \<union> D then Inl RemoteExists else Inr ())
   \<and> (fst (remove_remote_from_tunnel l r st) = Inl e \<longleftrightarrow>
        (case registry_of st l of
           None \<Rightarrow> e = TunnelDoesNotExist
         | Some (L, D) \<Rightarrow> e = RemoteDoesNotExist \<and> r \<notin> L \<union> D))
   \<and> (isl (fst (add_tunnel t ch st)) \<longrightarrow> snd (add_tunnel t ch st) = st)
   \<and> (isl (fst (remove_tunnel l st)) \<longrightarrow> snd (remove_tunnel l st) = st)
   \<and> (isl (fst (add_remote_to_tunnel l r st)) \<longrightarrow> snd (add_remote_to_tunnel l r st) = st)
   \<and> (isl (fst (remove_remote_from_tunnel l r st)) \<longrightarrow> snd (remove_remote_from_tunnel l r st) = st)"
  by (auto simp: add_tunnel_def remove_tunnel_def add_remote_to_tunnel_def tunnel_exists_def
      remove_remote_from_tunnel_def Let_def registry_of_def tunnel_ends_def im_contains_key_def key_iff
      split: option.split)

end
