(* ===== verification/State_Examples.thy ===== *)
theory State_Examples
  imports State_Spec
begin

text \<open>
  The properties of the state at concrete inputs: a proxy with one tunnel to two remotes whose
  options give a remote up after one error, before and after a connection attempt failed.
\<close>

definition here :: SocketSpec where
  "here = SocketSpec ''a:1''"

definition near :: SocketSpec where
  "near = SocketSpec ''b:2''"

definition far :: SocketSpec where
  "far = SocketSpec ''c:3''"

definition strict_options :: TunnelRemoteOptions where
  "strict_options = \<lparr>ro_errors_till_dead = 1, ro_connect_timeout = f32_ten,
     ro_dead_retry = Finite False 1 0, ro_tls = False\<rparr>"

definition example_tunnel :: Tunnel where
  "example_tunnel = \<lparr>tun_local = here, tun_remote = [near, far],
     tun_options = Some \<lparr>to_lb_strategy = RoundRobin, to_remote_connect_retries = 3,
                         to_options = strict_options\<rparr>\<rparr>"

definition boot :: State where
  "boot = (case new_State default_Args DEFAULT_TUNNEL_OPTIONS (Inr (ClientConfig 0)) of Inr st \<Rightarrow> st)"

definition opened_ops :: "op list" where
  "opened_ops = [AddTunnel example_tunnel 7]"

definition failed_ops :: "op list" where
  "failed_ops = [AddTunnel example_tunnel 7, SelectRemote 0 here,
     RemoteErr 5 here near ''client:9'' strict_options]"

lemma new_boot: "new_State default_Args DEFAULT_TUNNEL_OPTIONS (Inr (ClientConfig 0)) = Inr boot"
  by (simp add: boot_def new_State_def)

lemma wf_boot: "wf_state (run_ops ops boot)"
  by (rule run_ops_new_wf [OF new_boot])

lemma opened_live:
  "map_option (map fst \<circ> ti_remotes) (get_tunnel (run_ops opened_ops boot) here) = Some [near, far]"
  by code_simp

lemma failed_dead:
  "Option.bind (get_tunnel (run_ops failed_ops boot) here) (\<lambda>ti. im_get (ti_dead_remotes ti) near)
     \<noteq> None"
  "im_get (st_tasks (run_ops failed_ops boot)) 0
     = Some \<lparr>dc_local = here, dc_remote = near, dc_timeout = 10000000000, dc_after = 10000000000,
             dc_tls_config = None\<rparr>"
  by code_simp+

definition failed :: State where
  "failed = run_ops failed_ops boot"

definition failed_tunnel :: TunnelInfo where
  "failed_tunnel = the (get_tunnel failed here)"

definition failed_remote :: DeadRemote where
  "failed_remote = the (im_get (ti_dead_remotes failed_tunnel) near)"

definition near_check :: dead_check where
  "near_check = \<lparr>dc_local = here, dc_remote = near, dc_timeout = 10000000000,
     dc_after = 10000000000, dc_tls_config = None\<rparr>"

lemma failed_lookups:
  "wf_state failed" "get_tunnel failed here = Some failed_tunnel"
  "im_get (ti_dead_remotes failed_tunnel) near = Some failed_remote"
  "im_get (st_tasks failed) 0 = Some near_check"
  "dc_local near_check = here" "dc_remote near_check = near"
  using failed_dead by (auto simp: failed_def failed_tunnel_def failed_remote_def near_check_def
      wf_boot split: bind_splits)

theorem dead_remotes_always_supervised_witness:
  "im_get (ti_remotes failed_tunnel) near = None
    \<and> (\<exists>t dc. dr_join_handle failed_remote = Some t \<and> im_get (st_tasks failed) t = Some dc
         \<and> dc_local dc = here \<and> dc_remote dc = near)"
  using dead_remotes_always_supervised [OF new_boot, of failed_ops here failed_tunnel near failed_remote]
    failed_lookups by (simp add: failed_def)

theorem state_refines_registry_witness:
  "registry_step (RemoveRemote here near) (registry_of failed)
     (registry_of (exec_op (RemoveRemote here near) failed))"
  by (rule state_refines_registry [OF failed_lookups(1)])

theorem operations_are_isolated_witness:
  "get_tunnel (exec_op (DeadCheckDone 9 True 0) failed) far = get_tunnel failed far"
  by (rule operations_are_isolated [OF failed_lookups(1)])
    (simp add: failed_lookups here_def far_def)

theorem select_remote_spec_witness:
  "\<exists>r st' ti'. select_remote 0 here failed = Some (Inr (r, to_options (ti_options failed_tunnel)), st')
     \<and> get_tunnel st' here = Some ti' \<and> ti_dead_remotes ti' = ti_dead_remotes failed_tunnel"
proof -
  have "ti_remotes failed_tunnel \<noteq> []"
    unfolding failed_tunnel_def failed_def by code_simp
  then obtain e es where live: "ti_remotes failed_tunnel = e # es" by (cases "ti_remotes failed_tunnel") auto
  from select_remote_spec [OF failed_lookups(1), where l = here and rnd = 0] show ?thesis
    by (simp only: failed_lookups(2) live option.case list.case) blast
qed

theorem remote_error_threshold_witness:
  "\<exists>st' ti'. remote_error 8 here near ''client:9'' strict_options (run_ops opened_ops boot) = Done st'
    \<and> get_tunnel st' here = Some ti' \<and> im_get (ti_remotes ti') near = None
    \<and> im_get (ti_dead_remotes ti') near \<noteq> None"
proof -
  let ?st = "run_ops opened_ops boot"
  have "map_option (\<lambda>ti. map_option (rs_num_errors \<circ> ri_stats) (im_get (ti_remotes ti) near))
      (get_tunnel ?st here) = Some (Some 0)"
    by code_simp
  then obtain ti ri where ti: "get_tunnel ?st here = Some ti"
    and ri: "im_get (ti_remotes ti) near = Some ri" and n: "rs_num_errors (ri_stats ri) = 0"
    by auto
  have d: "duration_from_secs_f32 (ro_connect_timeout strict_options) = Some 10000000000"
    by (simp add: strict_options_def duration_ten)
  have k: "ro_errors_till_dead strict_options \<le> 1" by (simp add: strict_options_def)
  from remote_error_threshold [OF wf_boot ti ri d, of 8 "''client:9''"] show ?thesis
    by (auto simp: Let_def n k)
qed

lemma dead_check_recovers_witness:
  "\<exists>ti'. get_tunnel (dead_check_done 9 True 0 failed) here = Some ti'
    \<and> im_get (ti_dead_remotes ti') near = None \<and> im_get (ti_remotes ti') near \<noteq> None"
  using dead_check_recovers [OF failed_lookups(1,4), of failed_tunnel failed_remote 9]
  by (auto simp: failed_lookups)

lemma dead_check_reschedules_witness:
  "im_get (st_tasks (dead_check_done 9 False 0 failed)) 1 = Some near_check"
proof -
  have "st_next_task failed = 1" unfolding failed_def by code_simp
  with dead_check_reschedules [OF failed_lookups(1,4), of failed_tunnel failed_remote 9]
  show ?thesis by (auto simp: failed_lookups)
qed

theorem dead_check_outcome_witness:
  "\<exists>ti ti'. get_tunnel (dead_check_done 9 True 0 failed) here = Some ti
    \<and> im_get (ti_dead_remotes ti) near = None \<and> im_get (ti_remotes ti) near \<noteq> None
    \<and> get_tunnel (dead_check_done 9 False 0 failed) here = Some ti'
    \<and> ti_remotes ti' = ti_remotes failed_tunnel \<and> im_get (ti_dead_remotes ti') near \<noteq> None"
  using dead_check_outcome [OF failed_lookups(1,4), of failed_tunnel failed_remote 9]
  by (auto simp: failed_lookups)

theorem dead_check_interval_is_fixed_witness:
  "ro_dead_retry strict_options = Finite False 1 0 \<and> dc_after near_check = 10000000000"
  using dead_check_interval_is_fixed [OF new_boot, of failed_ops 0 near_check] failed_lookups
  by (simp add: failed_def strict_options_def)

theorem admin_errors_witness:
  "snd (add_tunnel example_tunnel 8 failed) = failed
   \<and> snd (add_remote_to_tunnel here near failed) = failed"
proof -
  have "isl (fst (add_tunnel example_tunnel 8 failed))"
    "isl (fst (add_remote_to_tunnel here near failed))"
    unfolding failed_def by code_simp+
  with admin_errors [of example_tunnel 8 failed] admin_errors [of _ _ _ _ here near]
  show ?thesis by blast
qed

end
