(* ===== verification/Session.thy ===== *)
theory Session
  imports State_Examples
begin

text \<open>
  One client connection: \<open>process_socket\<close> of \<open>src/lib.rs\<close> as a state machine. The task
  runs between two \<open>.await\<close>s or two calls of the shared state without interruption by itself,
  but other tasks change the shared state in between, so every call is a step of its own.

  What the task waits for is the event of a step: the random draw of a selection, the outcome
  of a connection attempt (an error and a timeout are handled alike), bytes moved by one
  direction of the copy, the end of the copy (with or without an error, or by the close
  signal).
\<close>

datatype session_pc =
    Start
  | Counted
  | Looping
  | Connecting SocketSpec TunnelRemoteOptions
  | Copying SocketSpec
  | Finishing
  | Ended
  | Failed Error
  | Panicking "SocketSpec option"

record Session =
  se_client :: SocketAddr
  se_tunnel :: SocketSpec
  se_finish :: channel_id
  se_pc :: session_pc
  se_retries :: u16
  se_last_remote :: "SocketSpec option"

datatype session_event =
    Proceed
  | Draw nat
  | ConnectOk
  | ConnectFailed SystemTime
  | Moved bool u64
  | CopyEnd

definition new_session :: "SocketSpec \<Rightarrow> SocketAddr \<Rightarrow> channel_id \<Rightarrow> Session" where
  "new_session l client ch =
     \<lparr>se_client = client, se_tunnel = l, se_finish = ch, se_pc = Start, se_retries = 0,
      se_last_remote = None\<rparr>"

text \<open>
  \<open>connect_remote\<close> up to its first \<open>.await\<close>, with the timeout around it: the duration of the
  options and the address of the remote must make sense, or the task panics. The TLS
  handshake that follows is part of the connection attempt.
\<close>

definition connect_remote_starts :: "SocketSpec \<Rightarrow> TunnelRemoteOptions \<Rightarrow> bool" where
  "connect_remote_starts r opts \<longleftrightarrow>
     duration_from_secs_f32 (ro_connect_timeout opts) \<noteq> None \<and> as_tuple r \<noteq> None"

definition session_step :: "session_event \<Rightarrow> Session \<Rightarrow> State \<Rightarrow> (Session \<times> State) option" where
  "session_step ev se st =
     (let l = se_tunnel se in
      case (se_pc se, ev) of
        (Start, Proceed) \<Rightarrow> Some (se\<lparr>se_pc := Counted\<rparr>, client_connected l st)
      | (Counted, Proceed) \<Rightarrow>
          (case remote_retries l st of
             Inl e \<Rightarrow> Some (se\<lparr>se_pc := Failed e\<rparr>, st)
           | Inr n \<Rightarrow> Some (se\<lparr>se_pc := Looping, se_retries := n, se_last_remote := None\<rparr>, st))
      | (Looping, Proceed) \<Rightarrow>
          if se_retries se = 0 then Some (se\<lparr>se_pc := Finishing\<rparr>, st) else None
      | (Looping, Draw rnd) \<Rightarrow>
          if se_retries se = 0 then None
          else (case select_remote rnd l st of
                  None \<Rightarrow> Some (se\<lparr>se_pc := Panicking None\<rparr>, st)
                | Some (Inl e, st') \<Rightarrow>
                    Some (se\<lparr>se_pc := Finishing, se_last_remote := None\<rparr>, st')
                | Some (Inr (r, opts), st') \<Rightarrow>
                    Some (se\<lparr>se_pc := if connect_remote_starts r opts then Connecting r opts
                                      else Panicking (Some r)\<rparr>, st'))
      | (Connecting r opts, ConnectOk) \<Rightarrow>
          Some (se\<lparr>se_pc := Copying r, se_last_remote := Some r\<rparr>, remote_connected l r st)
      | (Connecting r opts, ConnectFailed now) \<Rightarrow>
          (case remote_error now l r (se_client se) opts st of
             Done st' \<Rightarrow> Some (se\<lparr>se_pc := Looping, se_retries := se_retries se - 1\<rparr>, st')
           | Panicked st' \<Rightarrow> Some (se\<lparr>se_pc := Panicking None\<rparr>, st'))
      | (Copying r, Moved sent n) \<Rightarrow> Some (se, update_transferred l r sent n st)
      | (Copying r, CopyEnd) \<Rightarrow> Some (se\<lparr>se_pc := Finishing\<rparr>, st)
      | (Finishing, Proceed) \<Rightarrow>
          Some (se\<lparr>se_pc := Ended\<rparr>, client_disconnected l (se_last_remote se) st)
      | _ \<Rightarrow> None)"

text \<open>The same transitions as a relation, one rule for each path through the code.\<close>

inductive session_trans :: "session_event \<Rightarrow> Session \<Rightarrow> State \<Rightarrow> Session \<Rightarrow> State \<Rightarrow> bool" where
  joins: "se_pc se = Start
    \<Longrightarrow> session_trans Proceed se st (se\<lparr>se_pc := Counted\<rparr>) (client_connected (se_tunnel se) st)"
| refused: "se_pc se = Counted \<Longrightarrow> remote_retries (se_tunnel se) st = Inl e
    \<Longrightarrow> session_trans Proceed se st (se\<lparr>se_pc := Failed e\<rparr>) st"
| admitted: "se_pc se = Counted \<Longrightarrow> remote_retries (se_tunnel se) st = Inr n
    \<Longrightarrow> session_trans Proceed se st
          (se\<lparr>se_pc := Looping, se_retries := n, se_last_remote := None\<rparr>) st"
| exhausted: "se_pc se = Looping \<Longrightarrow> se_retries se = 0
    \<Longrightarrow> session_trans Proceed se st (se\<lparr>se_pc := Finishing\<rparr>) st"
| select_panics: "se_pc se = Looping \<Longrightarrow> se_retries se \<noteq> 0
    \<Longrightarrow> select_remote rnd (se_tunnel se) st = None
    \<Longrightarrow> session_trans (Draw rnd) se st (se\<lparr>se_pc := Panicking None\<rparr>) st"
| no_remote: "se_pc se = Looping \<Longrightarrow> se_retries se \<noteq> 0
    \<Longrightarrow> select_remote rnd (se_tunnel se) st = Some (Inl e, st')
    \<Longrightarrow> session_trans (Draw rnd) se st (se\<lparr>se_pc := Finishing, se_last_remote := None\<rparr>) st'"
| attempts: "se_pc se = Looping \<Longrightarrow> se_retries se \<noteq> 0
    \<Longrightarrow> select_remote rnd (se_tunnel se) st = Some (Inr (r, opts), st')
    \<Longrightarrow> connect_remote_starts r opts
    \<Longrightarrow> session_trans (Draw rnd) se st (se\<lparr>se_pc := Connecting r opts\<rparr>) st'"
| attempt_panics: "se_pc se = Looping \<Longrightarrow> se_retries se \<noteq> 0
    \<Longrightarrow> select_remote rnd (se_tunnel se) st = Some (Inr (r, opts), st')
    \<Longrightarrow> \<not> connect_remote_starts r opts
    \<Longrightarrow> session_trans (Draw rnd) se st (se\<lparr>se_pc := Panicking (Some r)\<rparr>) st'"
| connects: "se_pc se = Connecting r opts
    \<Longrightarrow> session_trans ConnectOk se st (se\<lparr>se_pc := Copying r, se_last_remote := Some r\<rparr>)
          (remote_connected (se_tunnel se) r st)"
| attempt_fails: "se_pc se = Connecting r opts
    \<Longrightarrow> remote_error now (se_tunnel se) r (se_client se) opts st = Done st'
    \<Longrightarrow> session_trans (ConnectFailed now) se st
          (se\<lparr>se_pc := Looping, se_retries := se_retries se - 1\<rparr>) st'"
| error_panics: "se_pc se = Connecting r opts
    \<Longrightarrow> remote_error now (se_tunnel se) r (se_client se) opts st = Panicked st'
    \<Longrightarrow> session_trans (ConnectFailed now) se st (se\<lparr>se_pc := Panicking None\<rparr>) st'"
| moves: "se_pc se = Copying r
    \<Longrightarrow> session_trans (Moved sent n) se st se (update_transferred (se_tunnel se) r sent n st)"
| copied: "se_pc se = Copying r
    \<Longrightarrow> session_trans CopyEnd se st (se\<lparr>se_pc := Finishing\<rparr>) st"
| leaves: "se_pc se = Finishing
    \<Longrightarrow> session_trans Proceed se st (se\<lparr>se_pc := Ended\<rparr>)
          (client_disconnected (se_tunnel se) (se_last_remote se) st)"

lemma session_trans_step: "session_trans ev se st se' st' \<Longrightarrow> session_step ev se st = Some (se', st')"
  by (induction rule: session_trans.induct) (simp_all add: session_step_def)

lemma session_step_trans:
  assumes "session_step ev se st = Some (se', st')"
  shows "session_trans ev se st se' st'"
proof (cases "se_pc se")
  case Looping
  show ?thesis
  proof (cases ev)
    case (Draw rnd)
    with Looping assms show ?thesis
      apply (auto simp: session_step_def select_panics split: option.splits sum.splits if_splits)
        apply (rule no_remote; assumption)
       apply (rule attempts; assumption)
      apply (rule attempt_panics; assumption)
      done
  qed (use Looping assms in \<open>auto simp: session_step_def intro: exhausted split: if_splits\<close>)
next
  case Counted
  with assms show ?thesis
    by (cases ev) (auto simp: session_step_def intro: refused admitted split: sum.splits)
next
  case (Connecting r opts)
  with assms show ?thesis
    by (cases ev) (auto simp: session_step_def intro: connects attempt_fails error_panics
        split: outcome.splits)
next
  case (Copying r)
  with assms show ?thesis
    by (cases ev) (auto simp: session_step_def intro: moves copied)
qed (use assms in \<open>cases ev; auto simp: session_step_def intro: joins leaves\<close>)+

lemma session_step_iff:
  "session_step ev se st = Some (se', st') \<longleftrightarrow> session_trans ev se st se' st'"
  using session_trans_step session_step_trans by blast

inductive_cases session_transE: "session_trans ev se st se' st'"

subsection \<open>Progress and termination\<close>

fun session_over :: "session_pc \<Rightarrow> bool" where
  "session_over Ended = True"
| "session_over (Failed e) = True"
| "session_over (Panicking r) = True"
| "session_over _ = False"

fun is_move :: "session_event \<Rightarrow> bool" where
  "is_move (Moved sent n) = True"
| "is_move _ = False"

fun is_draw :: "session_event \<Rightarrow> bool" where
  "is_draw (Draw rnd) = True"
| "is_draw _ = False"

text \<open>
  How many steps a session has left, transfers of bytes apart: two for every attempt, and the
  retries of a tunnel are at most 65535.
\<close>

fun session_left :: "Session \<Rightarrow> nat" where
  "session_left se =
     (case se_pc se of
        Start \<Rightarrow> 131076
      | Counted \<Rightarrow> 131075
      | Looping \<Rightarrow> 2 * unat (se_retries se) + 2
      | Connecting r opts \<Rightarrow> 2 * unat (se_retries se) + 1
      | Copying r \<Rightarrow> 2
      | Finishing \<Rightarrow> 1
      | _ \<Rightarrow> 0)"

text \<open>
  In \<open>Connecting\<close> and \<open>Copying\<close> the loop variable is not zero, so that decrementing it
  counts one attempt.
\<close>

definition session_ok :: "Session \<Rightarrow> bool" where
  "session_ok se \<longleftrightarrow>
     (case se_pc se of
        Connecting r opts \<Rightarrow> se_retries se \<noteq> 0 \<and> connect_remote_starts r opts
      | Copying r \<Rightarrow> se_last_remote se = Some r
      | _ \<Rightarrow> True)"

lemma session_ok_new [simp]: "session_ok (new_session l c ch)"
  by (simp add: session_ok_def new_session_def)

lemma session_ok_step: "session_trans ev se st se' st' \<Longrightarrow> session_ok se \<Longrightarrow> session_ok se'"
  by (induction rule: session_trans.induct) (auto simp: session_ok_def)

lemma session_step_left:
  assumes "session_trans ev se st se' st'" and "session_ok se" and "\<not> is_move ev"
  shows "session_left se' < session_left se"
  using assms
proof (induction rule: session_trans.induct)
  case (admitted se st n)
  then show ?case using unat_u16_le [of n] by simp
next
  case (attempt_fails se r opts now st st')
  then have "0 < unat (se_retries se)"
    by (simp add: session_ok_def unat_pos_word)
  with attempt_fails show ?case by (simp add: unat_pred_word)
next
  case (connects se r opts st)
  then show ?case using unat_pos_word [of "se_retries se"] by (simp add: session_ok_def)
qed (auto simp: session_ok_def)

text \<open>
  The session's own steps while every other task of the program may change the state between
  them: each event comes with the state the session finds.
\<close>

fun session_run :: "(session_event \<times> State) list \<Rightarrow> Session \<Rightarrow> Session option" where
  "session_run [] se = Some se"
| "session_run ((ev, st) # tr) se =
     (case session_step ev se st of None \<Rightarrow> None | Some (se', _) \<Rightarrow> session_run tr se')"

lemma session_run_ConsE:
  assumes "session_run ((ev, st) # tr) se = Some se''"
  obtains se' st' where "session_trans ev se st se' st'" and "session_run tr se' = Some se''"
  using assms by (auto split: option.splits dest: session_step_trans)

lemma session_run_steps:
  "session_run tr se = Some se' \<Longrightarrow> session_ok se
    \<Longrightarrow> length (filter (\<lambda>e. \<not> is_move (fst e)) tr) + session_left se' \<le> session_left se"
proof (induction tr arbitrary: se)
  case Nil
  then show ?case by simp
next
  case (Cons e tr)
  obtain ev st where e: "e = (ev, st)" by (cases e)
  obtain se1 st1 where step: "session_trans ev se st se1 st1"
    and run: "session_run tr se1 = Some se'"
    by (rule session_run_ConsE [OF Cons.prems(1) [unfolded e]])
  note IH = Cons.IH [OF run session_ok_step [OF step Cons.prems(2)]]
  show ?case
  proof (cases "is_move ev")
    case True
    with step have "se1 = se" by (cases ev) (auto elim: session_transE)
    with IH True e show ?thesis by simp
  next
    case False
    with IH e session_step_left [OF step Cons.prems(2) False] show ?thesis by simp
  qed
qed

lemma session_run_draws:
  "session_run tr se = Some se' \<Longrightarrow> session_ok se
    \<Longrightarrow> length (filter (\<lambda>e. is_draw (fst e)) tr)
        \<le> (case se_pc se of Start \<Rightarrow> 65535 | Counted \<Rightarrow> 65535 | Looping \<Rightarrow> unat (se_retries se)
            | Connecting r opts \<Rightarrow> unat (se_retries se) - 1 | _ \<Rightarrow> 0)"
proof (induction tr arbitrary: se)
  case Nil
  then show ?case by simp
next
  case (Cons e tr)
  obtain ev st where e: "e = (ev, st)" by (cases e)
  obtain se1 st1 where step: "session_trans ev se st se1 st1"
    and run: "session_run tr se1 = Some se'"
    by (rule session_run_ConsE [OF Cons.prems(1) [unfolded e]])
  from step Cons.prems(2) Cons.IH [OF run session_ok_step [OF step Cons.prems(2)]]
    unat_pos_word [of "se_retries se"]
  show ?case
    by cases (auto simp: e session_ok_def unat_pred_word intro: le_trans [OF _ unat_u16_le])
qed

text \<open>
  C9: a session always ends. Whatever the other tasks do to the state, it takes at most 131076
  steps besides the transfers of bytes, selects a remote at most 65535 times, and as long as
  it is not over there is a step it can take: it never waits for another session.
\<close>

theorem session_terminates:
  "(\<forall>tr se. session_run tr (new_session l c ch) = Some se
      \<longrightarrow> length (filter (\<lambda>e. \<not> is_move (fst e)) tr) \<le> 131076
        \<and> length (filter (\<lambda>e. is_draw (fst e)) tr) \<le> 65535)
   \<and> ((\<exists>ev. session_step ev se st \<noteq> None) \<longleftrightarrow> \<not> session_over (se_pc se))"
proof (intro conjI allI impI)
  fix tr se
  assume run: "session_run tr (new_session l c ch) = Some se"
  from session_run_steps [OF run] show "length (filter (\<lambda>e. \<not> is_move (fst e)) tr) \<le> 131076"
    by (simp add: new_session_def session_ok_def split: session_pc.splits)
  from session_run_draws [OF run] show "length (filter (\<lambda>e. is_draw (fst e)) tr) \<le> 65535"
    by (simp add: new_session_def session_ok_def)
next
  show "(\<exists>ev. session_step ev se st \<noteq> None) \<longleftrightarrow> \<not> session_over (se_pc se)"
  proof (cases "se_pc se")
    case Looping
    then have "session_step (if se_retries se = 0 then Proceed else Draw 0) se st \<noteq> None"
      by (simp add: session_step_def split: option.split sum.split prod.split)
    with Looping show ?thesis by auto
  next
    case Counted
    then have "session_step Proceed se st \<noteq> None"
      by (simp add: session_step_def split: sum.split)
    with Counted show ?thesis by auto
  next
    case (Connecting r opts)
    then have "session_step ConnectOk se st \<noteq> None" by (simp add: session_step_def)
    with Connecting show ?thesis by auto
  next
    case (Copying r)
    then have "session_step CopyEnd se st \<noteq> None" by (simp add: session_step_def)
    with Copying show ?thesis by auto
  qed (auto simp: session_step_def intro: exI [of _ Proceed])
qed

text \<open>The attempts left to a session in its loop; other sessions never come back to it.\<close>

definition in_loop :: "session_pc \<Rightarrow> bool" where
  "in_loop p \<longleftrightarrow> (case p of Looping \<Rightarrow> True | Connecting r opts \<Rightarrow> True | _ \<Rightarrow> False)"

definition past_loop :: "session_pc \<Rightarrow> bool" where
  "past_loop p \<longleftrightarrow> \<not> in_loop p \<and> p \<noteq> Start \<and> p \<noteq> Counted"

definition attempts_left :: "Session \<Rightarrow> nat" where
  "attempts_left se =
     (case se_pc se of Connecting r opts \<Rightarrow> unat (se_retries se) - 1 | _ \<Rightarrow> unat (se_retries se))"

lemma past_loop_step: "session_trans ev se st se' st' \<Longrightarrow> past_loop (se_pc se) \<Longrightarrow> past_loop (se_pc se')"
  by (induction rule: session_trans.induct) (auto simp: past_loop_def in_loop_def)

lemma past_loop_run: "session_run tr se = Some se' \<Longrightarrow> past_loop (se_pc se) \<Longrightarrow> past_loop (se_pc se')"
proof (induction tr arbitrary: se)
  case (Cons e tr)
  obtain ev st where e: "e = (ev, st)" by (cases e)
  show ?case
    by (rule session_run_ConsE [OF Cons.prems(1) [unfolded e]])
      (blast intro: Cons.IH past_loop_step Cons.prems(2))
qed simp

lemma loop_step:
  assumes "session_trans ev se st se' st'" and "in_loop (se_pc se)" and "session_ok se"
  shows "past_loop (se_pc se') \<or> in_loop (se_pc se')
      \<and> (if is_draw ev then 1 else 0) + attempts_left se' = attempts_left se"
  using assms
proof (induction rule: session_trans.induct)
  case (attempts se rnd st r opts st')
  then show ?case using unat_pos_word [of "se_retries se"] by (simp add: in_loop_def attempts_left_def)
next
  case (attempt_fails se r opts now st st')
  then show ?case
    using unat_pos_word [of "se_retries se"]
    by (simp add: in_loop_def attempts_left_def session_ok_def unat_pred_word)
qed (auto simp: past_loop_def in_loop_def)

lemma loop_run:
  "session_run tr se = Some se' \<Longrightarrow> in_loop (se_pc se) \<Longrightarrow> in_loop (se_pc se') \<Longrightarrow> session_ok se
    \<Longrightarrow> length (filter (\<lambda>e. is_draw (fst e)) tr) + attempts_left se' = attempts_left se"
proof (induction tr arbitrary: se)
  case (Cons e tr)
  obtain ev st where e: "e = (ev, st)" by (cases e)
  obtain se1 st1 where step: "session_trans ev se st se1 st1"
    and run: "session_run tr se1 = Some se'"
    by (rule session_run_ConsE [OF Cons.prems(1) [unfolded e]])
  have "\<not> past_loop (se_pc se1)"
    using past_loop_run [OF run] Cons.prems(3) by (auto simp: past_loop_def)
  with loop_step [OF step Cons.prems(2,4)]
    Cons.IH [OF run _ Cons.prems(3) session_ok_step [OF step Cons.prems(4)]] e
  show ?case by (auto split: if_splits)
qed simp

text \<open>
  C15: the number of attempts is the number of retries: from the head of the loop a session
  selects a remote at most as often as it has retries left, in every interleaving, and while it
  stays in the loop each failed attempt takes exactly one retry, so it gives up after exactly
  that many failures.
\<close>

theorem session_attempts_are_retries:
  assumes "session_run tr se = Some se'" and "se_pc se = Looping"
  shows "length (filter (\<lambda>e. is_draw (fst e)) tr) \<le> unat (se_retries se)
    \<and> (se_pc se' = Looping \<longrightarrow>
         length (filter (\<lambda>e. is_draw (fst e)) tr) + unat (se_retries se') = unat (se_retries se))"
proof -
  have ok: "session_ok se" using assms(2) by (simp add: session_ok_def)
  show ?thesis
    using session_run_draws [OF assms(1) ok] loop_run [OF assms(1) _ _ ok] assms(2)
    by (auto simp: in_loop_def attempts_left_def)
qed

definition sane_state :: "State \<Rightarrow> bool" where
  "sane_state st \<longleftrightarrow>
     list_all (\<lambda>(l, ti).
        duration_from_secs_f32 (ro_connect_timeout (to_options (ti_options ti))) \<noteq> None
        \<and> list_all (\<lambda>r. as_tuple r \<noteq> None) (im_keys (ti_remotes ti))) (st_tunnels st)"

lemma sane_stateD:
  assumes "sane_state st" and "get_tunnel st l = Some ti"
  shows "duration_from_secs_f32 (ro_connect_timeout (to_options (ti_options ti))) \<noteq> None"
    and "r \<in> set (im_keys (ti_remotes ti)) \<Longrightarrow> as_tuple r \<noteq> None"
  using assms map_of_SomeD [OF assms(2)] by (auto simp: sane_state_def list_all_iff)

lemma select_remote_live:
  assumes "select_remote rnd l st = Some (Inr (r, opts), st')"
  obtains ti where "get_tunnel st l = Some ti" and "r \<in> set (im_keys (ti_remotes ti))"
    and "opts = to_options (ti_options ti)"
proof (cases "get_tunnel st l")
  case None
  with assms show thesis by (simp add: select_remote_def)
next
  case (Some ti)
  then show thesis
    using assms by (cases rule: ti_select_remote_cases [of ti rnd])
      (auto simp: select_remote_def im_contains_key_def im_keys_def intro!: that [of ti])
qed

lemma select_remote_total': "select_remote rnd l st \<noteq> None"
proof (cases "get_tunnel st l")
  case None
  then show ?thesis by (simp add: select_remote_def)
next
  case (Some ti)
  then show ?thesis
    by (cases rule: ti_select_remote_cases [of ti rnd]) (auto simp: select_remote_def)
qed

lemma remote_error_no_panic:
  "duration_from_secs_f32 (ro_connect_timeout opts) \<noteq> None
    \<Longrightarrow> remote_error now l r c opts st \<noteq> Panicked st'"
  by (auto simp: remote_error_def Let_def duration_ten case_prod_beta split: option.split)

text \<open>The same of one tunnel; a session of it does not panic there.\<close>

definition sane_tunnel :: "SocketSpec \<Rightarrow> State \<Rightarrow> bool" where
  "sane_tunnel l st \<longleftrightarrow>
     (case get_tunnel st l of
        None \<Rightarrow> True
      | Some ti \<Rightarrow> duration_from_secs_f32 (ro_connect_timeout (to_options (ti_options ti))) \<noteq> None
          \<and> list_all (\<lambda>r. as_tuple r \<noteq> None) (im_keys (ti_remotes ti)))"

lemma sane_state_tunnel: "sane_state st \<Longrightarrow> sane_tunnel l st"
  using sane_stateD [of st l] by (auto simp: sane_tunnel_def list_all_iff simp del: not_None_eq split: option.split)

definition session_panicked :: "Session \<Rightarrow> bool" where
  "session_panicked se \<longleftrightarrow> (case se_pc se of Panicking r \<Rightarrow> True | _ \<Rightarrow> False)"

lemma session_step_no_panic:
  assumes "session_trans ev se st se' st'" and "session_ok se" and "sane_tunnel (se_tunnel se) st"
    and "\<not> session_panicked se"
  shows "\<not> session_panicked se'"
  using assms(1)
proof cases
  case (attempt_panics rnd r opts)
  from select_remote_live [OF this(5)] obtain ti where "get_tunnel st (se_tunnel se) = Some ti"
    and "r \<in> set (im_keys (ti_remotes ti))" and "opts = to_options (ti_options ti)" .
  with assms(3) attempt_panics(6) show ?thesis
    by (simp add: connect_remote_starts_def sane_tunnel_def list_all_iff)
qed (use assms(2,4) select_remote_total' remote_error_no_panic in
      \<open>auto simp: session_ok_def connect_remote_starts_def session_panicked_def\<close>)

text \<open>
  C35: a session panics only on the tunnel's configuration: in states whose tunnels have a
  connection timeout that is a duration and remotes that are a host and a port, no
  interleaving makes it panic.
\<close>

theorem session_never_panics:
  assumes "session_run tr (new_session l c ch) = Some se"
    and "\<forall>(ev, st) \<in> set tr. sane_state st"
  shows "\<forall>r. se_pc se \<noteq> Panicking r"
proof -
  have "\<not> session_panicked se'"
    if "session_run tr se0 = Some se'" "\<forall>(ev, st) \<in> set tr. sane_state st" "session_ok se0"
      "\<not> session_panicked se0" for tr se0 se'
    using that
  proof (induction tr arbitrary: se0)
    case (Cons e tr)
    obtain ev st where e: "e = (ev, st)" by (cases e)
    obtain se1 st1 where step: "session_trans ev se0 st se1 st1"
      and run: "session_run tr se1 = Some se'"
      by (rule session_run_ConsE [OF Cons.prems(1) [unfolded e]])
    have "sane_tunnel (se_tunnel se0) st" using Cons.prems(2) e by (simp add: sane_state_tunnel)
    from session_step_no_panic [OF step Cons.prems(3) this Cons.prems(4)]
      Cons.IH [OF run _ session_ok_step [OF step Cons.prems(3)]] Cons.prems(2)
    show ?case by simp
  qed simp
  from this [OF assms] show ?thesis by (auto simp: new_session_def session_ok_def session_panicked_def)
qed

subsection \<open>Concrete sessions\<close>

text \<open>
  A client of the example tunnel, whose options allow three attempts: all three fail; and the
  second one succeeds.
\<close>

definition open_state :: State where
  "open_state = run_ops opened_ops boot"

definition failing_run :: "(session_event \<times> State) list" where
  "failing_run = map (\<lambda>ev. (ev, open_state))
     [Proceed, Proceed, Draw 0, ConnectFailed 1, Draw 0, ConnectFailed 2, Draw 0, ConnectFailed 3]"

definition lucky_run :: "(session_event \<times> State) list" where
  "lucky_run = map (\<lambda>ev. (ev, open_state))
     [Proceed, Proceed, Draw 0, ConnectFailed 1, Draw 0, ConnectOk, Moved True 5, Moved False 7,
      CopyEnd, Proceed]"

abbreviation client9 :: Session where
  "client9 \<equiv> new_session here ''client:9'' 7"

abbreviation admitted9 :: Session where
  "admitted9 \<equiv> client9\<lparr>se_pc := Looping, se_retries := 3\<rparr>"

lemma concrete_runs:
  "session_run failing_run client9 = Some (client9\<lparr>se_pc := Looping, se_retries := 0\<rparr>)"
  "session_run (drop 2 failing_run) admitted9 = Some (client9\<lparr>se_pc := Looping, se_retries := 0\<rparr>)"
  "session_run lucky_run client9
     = Some (client9\<lparr>se_pc := Ended, se_retries := 2, se_last_remote := Some near\<rparr>)"
  "sane_state open_state"
  by code_simp+

theorem session_terminates_witness:
  "length (filter (\<lambda>e. \<not> is_move (fst e)) lucky_run) \<le> 131076
   \<and> (\<exists>ev. session_step ev client9 open_state \<noteq> None)"
  using session_terminates [of here "''client:9''" 7 client9 open_state] concrete_runs(3)
  by (auto simp: new_session_def)

theorem session_attempts_are_retries_witness:
  "length (filter (\<lambda>e. is_draw (fst e)) (drop 2 failing_run)) = 3"
  using session_attempts_are_retries [OF concrete_runs(2)] by simp

theorem session_never_panics_witness:
  "\<forall>r. se_pc (the (session_run lucky_run client9)) \<noteq> Panicking r"
proof -
  have "\<forall>(ev, st) \<in> set lucky_run. sane_state st"
    using concrete_runs(4) by (auto simp: lucky_run_def)
  from session_never_panics [OF concrete_runs(3) this] concrete_runs(3) show ?thesis by simp
qed

end
