(* ===== verification/System.thy ===== *)
theory System
  imports Session
begin

text \<open>
  The whole proxy as a transition system: the shared state, every connection ever accepted,
  the listening tunnels (\<open>create_tunnel\<close>, \<open>run_tunnel\<close>, \<open>stop_tunnel\<close> of
  \<open>src/lib.rs\<close>) and the checks of dead remotes, interleaved step by step. On top of it: when
  the counters the administrator sees agree with what is going on.

  A close channel is a number. Sending on it, or dropping its sender, makes every receiver's
  \<open>changed()\<close> ready: the channel is then among the closed ones.
\<close>

record TunnelHandler =
  th_tunnel_key :: SocketSpec
  th_close_channel :: channel_id

record Sys =
  sys_state :: State
  sys_sessions :: "Session list"
  sys_handlers :: "TunnelHandler list"
  sys_starting :: "Tunnel list"
  sys_closed :: "channel_id list"
  sys_next_channel :: channel_id

definition new_Sys :: "State \<Rightarrow> Sys" where
  "new_Sys st = \<lparr>sys_state = st, sys_sessions = [], sys_handlers = [], sys_starting = [],
     sys_closed = [], sys_next_channel = 0\<rparr>"

text \<open>
  \<open>create_tunnel\<close> before and after its \<open>.await\<close>: the check of the key and the conversion of
  the address (which may panic), then the outcome of \<open>bind\<close> and the new entry.
\<close>

definition create_tunnel_start :: "Tunnel \<Rightarrow> State \<Rightarrow> unit result option" where
  "create_tunnel_start t st =
     (if tunnel_exists (tun_local t) st then Some (Inl TunnelExists)
      else if as_tuple (tun_local t) = None then None else Some (Inr ()))"

definition create_tunnel_bound ::
  "Tunnel \<Rightarrow> unit result \<Rightarrow> channel_id \<Rightarrow> State \<Rightarrow> TunnelHandler result \<times> State" where
  "create_tunnel_bound t bound ch st =
     (case bound of
        Inl e \<Rightarrow> (Inl e, st)
      | Inr _ \<Rightarrow>
          (case add_tunnel t ch st of
             (Inl e, st') \<Rightarrow> (Inl e, st')
           | (Inr _, st') \<Rightarrow>
               (Inr \<lparr>th_tunnel_key = tun_local t, th_close_channel = ch\<rparr>, st')))"

text \<open>\<open>stop_tunnel\<close>, with the channel it sends on.\<close>

definition stop_tunnel :: "SocketSpec \<Rightarrow> State \<Rightarrow> channel_id result \<times> State" where
  "stop_tunnel l st =
     (case remove_tunnel l st of
        (Inl e, st') \<Rightarrow> (Inl e, st')
      | (Inr ti, st') \<Rightarrow> (Inr (ti_close_channel ti), st'))"

text \<open>The two branches of the loop of \<open>run_tunnel\<close>.\<close>

definition run_tunnel_accept :: "TunnelHandler \<Rightarrow> SocketAddr \<Rightarrow> Session" where
  "run_tunnel_accept h client_addr = new_session (th_tunnel_key h) client_addr (th_close_channel h)"

definition run_tunnel_finishes :: "TunnelHandler \<Rightarrow> channel_id list \<Rightarrow> bool" where
  "run_tunnel_finishes h closed \<longleftrightarrow> th_close_channel h \<in> set closed"

datatype sys_event =
    StartTunnel Tunnel
  | Bound nat "unit result"
  | StopTunnel SocketSpec
  | AddRemoteTo SocketSpec SocketSpec
  | RemoveRemoteFrom SocketSpec SocketSpec
  | Accepted nat SocketAddr
  | TunnelFinished nat
  | SessionStep nat session_event
  | CheckEnded SystemTime bool task_id

definition remove_nth :: "nat \<Rightarrow> 'a list \<Rightarrow> 'a list" where
  "remove_nth i xs = take i xs @ drop (Suc i) xs"

fun sys_exec :: "sys_event \<Rightarrow> Sys \<Rightarrow> Sys option" where
  "sys_exec (StartTunnel t) s =
     (case create_tunnel_start t (sys_state s) of
        Some (Inr _) \<Rightarrow> Some (s\<lparr>sys_starting := sys_starting s @ [t]\<rparr>)
      | _ \<Rightarrow> Some s)"
| "sys_exec (Bound i bound) s =
     (if i < length (sys_starting s)
      then (case create_tunnel_bound (sys_starting s ! i) bound (sys_next_channel s) (sys_state s) of
              (res, st') \<Rightarrow>
                Some (s\<lparr>sys_state := st', sys_starting := remove_nth i (sys_starting s),
                        sys_next_channel := Suc (sys_next_channel s),
                        sys_handlers := sys_handlers s
                          @ (case res of Inl _ \<Rightarrow> [] | Inr h \<Rightarrow> [h])\<rparr>))
      else None)"
| "sys_exec (StopTunnel l) s =
     (case stop_tunnel l (sys_state s) of
        (Inl e, st') \<Rightarrow> Some (s\<lparr>sys_state := st'\<rparr>)
      | (Inr ch, st') \<Rightarrow> Some (s\<lparr>sys_state := st', sys_closed := ch # sys_closed s\<rparr>))"
| "sys_exec (AddRemoteTo l r) s =
     Some (s\<lparr>sys_state := snd (add_remote_to_tunnel l r (sys_state s))\<rparr>)"
| "sys_exec (RemoveRemoteFrom l r) s =
     Some (s\<lparr>sys_state := snd (remove_remote_from_tunnel l r (sys_state s))\<rparr>)"
| "sys_exec (Accepted i client) s =
     (if i < length (sys_handlers s)
      then Some (s\<lparr>sys_sessions := sys_sessions s @ [run_tunnel_accept (sys_handlers s ! i) client]\<rparr>)
      else None)"
| "sys_exec (TunnelFinished i) s =
     (if i < length (sys_handlers s) \<and> run_tunnel_finishes (sys_handlers s ! i) (sys_closed s)
      then Some (s\<lparr>sys_handlers := remove_nth i (sys_handlers s)\<rparr>)
      else None)"
| "sys_exec (SessionStep i ev) s =
     (if i < length (sys_sessions s)
      then (case session_step ev (sys_sessions s ! i) (sys_state s) of
              None \<Rightarrow> None
            | Some (se', st') \<Rightarrow>
                Some (s\<lparr>sys_state := st', sys_sessions := (sys_sessions s)[i := se']\<rparr>))
      else None)"
| "sys_exec (CheckEnded now ok t) s =
     Some (s\<lparr>sys_state := dead_check_done now ok t (sys_state s)\<rparr>)"

text \<open>
  The states reachable from \<open>s0\<close> in \<open>n\<close> steps, each of which satisfies \<open>P\<close> (the event and the
  state it leads to).
\<close>

inductive reachable :: "(sys_event \<Rightarrow> Sys \<Rightarrow> bool) \<Rightarrow> Sys \<Rightarrow> nat \<Rightarrow> Sys \<Rightarrow> bool"
  for P s0 where
  initial: "reachable P s0 0 s0"
| next_step: "reachable P s0 n s \<Longrightarrow> sys_exec ev s = Some s' \<Longrightarrow> P ev s'
    \<Longrightarrow> reachable P s0 (Suc n) s'"

fun sys_run :: "(sys_event \<Rightarrow> Sys \<Rightarrow> bool) \<Rightarrow> sys_event list \<Rightarrow> Sys \<Rightarrow> Sys option" where
  "sys_run P [] s = Some s"
| "sys_run P (ev # evs) s =
     (case sys_exec ev s of None \<Rightarrow> None | Some s' \<Rightarrow> if P ev s' then sys_run P evs s' else None)"

lemma sys_run_reachable:
  "sys_run P evs s = Some s' \<Longrightarrow> reachable P s0 n s \<Longrightarrow> reachable P s0 (n + length evs) s'"
proof (induction evs arbitrary: s n)
  case (Cons ev evs)
  then obtain s1 where "sys_exec ev s = Some s1" and "P ev s1" and "sys_run P evs s1 = Some s'"
    by (auto split: option.splits if_splits)
  with Cons.IH [of s1 "Suc n"] Cons.prems(2) show ?case by (auto intro: next_step)
qed simp

lemma sys_run_same: "sys_run P evs s = Some s1 \<Longrightarrow> sys_run Q evs s = Some s2 \<Longrightarrow> s1 = s2"
  by (induction evs arbitrary: s) (auto split: option.splits if_splits)

lemma sys_run_mono: "sys_run P evs s = Some s' \<Longrightarrow> (\<And>ev s'. P ev s' \<Longrightarrow> Q ev s') \<Longrightarrow> sys_run Q evs s = Some s'"
  by (induction evs arbitrary: s) (auto split: option.splits if_splits)

lemma reachable_mono:
  "reachable P s0 n s \<Longrightarrow> (\<And>ev s'. P ev s' \<Longrightarrow> Q ev s') \<Longrightarrow> reachable Q s0 n s"
  by (induction rule: reachable.induct) (auto intro: reachable.intros)

subsection \<open>The state stays well-formed\<close>

lemma wf_session_trans: "session_trans ev se st se' st' \<Longrightarrow> wf_state st \<Longrightarrow> wf_state st'"
proof (induction rule: session_trans.induct)
  case (attempt_fails se r opts now st st')
  then show ?case using wf_remote_error [of st now "se_tunnel se" r "se_client se" opts] by simp
next
  case (error_panics se r opts now st st')
  then show ?case using wf_remote_error [of st now "se_tunnel se" r "se_client se" opts] by simp
qed (auto intro: wf_operations)

lemma wf_sys_exec: "sys_exec ev s = Some s' \<Longrightarrow> wf_state (sys_state s) \<Longrightarrow> wf_state (sys_state s')"
proof (cases ev)
  case (Bound i b)
  then show "sys_exec ev s = Some s' \<Longrightarrow> wf_state (sys_state s) \<Longrightarrow> wf_state (sys_state s')"
    using wf_add_tunnel [of "sys_state s" "sys_starting s ! i" "sys_next_channel s"]
    by (auto simp: create_tunnel_bound_def split: if_splits sum.splits prod.splits)
next
  case (StopTunnel l)
  then show "sys_exec ev s = Some s' \<Longrightarrow> wf_state (sys_state s) \<Longrightarrow> wf_state (sys_state s')"
    using wf_remove_tunnel [of "sys_state s" l]
    by (auto simp: stop_tunnel_def split: sum.splits prod.splits)
next
  case (SessionStep i e)
  then show "sys_exec ev s = Some s' \<Longrightarrow> wf_state (sys_state s) \<Longrightarrow> wf_state (sys_state s')"
    by (auto split: if_splits option.splits intro: wf_session_trans [OF session_step_trans])
qed (auto intro: wf_operations split: option.splits sum.splits if_splits)

text \<open>
  Invariants: what every step under \<open>P\<close> from a well-formed state preserves holds in every state
  reachable under \<open>P\<close> from one in which it holds.
\<close>

locale sys_invariant =
  fixes P :: "sys_event \<Rightarrow> Sys \<Rightarrow> bool" and inv :: "Sys \<Rightarrow> bool"
  assumes step: "wf_state (sys_state s) \<Longrightarrow> inv s \<Longrightarrow> sys_exec ev s = Some s' \<Longrightarrow> P ev s' \<Longrightarrow> inv s'"
begin

lemma always:
  "reachable P s0 n s \<Longrightarrow> wf_state (sys_state s0) \<Longrightarrow> inv s0 \<Longrightarrow> wf_state (sys_state s) \<and> inv s"
proof (induction rule: reachable.induct)
  case (next_step n s ev s')
  then show ?case using step [of s ev s'] wf_sys_exec [of ev s s'] by blast
qed simp

end

interpretation wf_inv: sys_invariant P "\<lambda>s. wf_state (sys_state s)" for P
  by unfold_locales (rule wf_sys_exec)

lemma wf_reachable: "reachable P s0 n s \<Longrightarrow> wf_state (sys_state s0) \<Longrightarrow> wf_state (sys_state s)"
  using wf_inv.always by blast

lemma wf_new_Sys: "new_State args opts c = Inr st \<Longrightarrow> wf_state (sys_state (new_Sys st))"
  using wf_new_State by (simp add: new_Sys_def)

end
