(* ===== verification/Nom.thy ===== *)
theory Nom
  imports Tunnel
begin

text \<open>
  The interface of the parser library that \<open>tunnel/parser.rs\<close> is written with. The library is
  not part of the repository, so its parsers and combinators are a parameter: a record with one
  field for each parser, and for each combinator one field for each type it is used at. What
  the parser's properties need of it is stated as hypotheses on that record, field by field;
  \<open>documented_nom\<close> is the instance that follows the library's documentation, at which the
  witnesses evaluate.

  A parser returns the rest of its input and a value, or an error with the unparsed text and
  the kind of the error. An \<open>Error\<close> lets an alternative be tried, a \<open>Failure\<close> does not.
\<close>

datatype nom_err = Incomplete | ErrError string string | ErrFailure string string

type_synonym 'a parser = "string \<Rightarrow> nom_err + string \<times> 'a"
type_synonym octets = "8 word \<times> char \<times> 8 word \<times> char \<times> 8 word \<times> char \<times> 8 word"
type_synonym key_value = "string \<times> string"
type_synonym tunnel_ends = "SocketSpec list \<times> TunnelOptions option"

record nom =
  n_u16 :: "u16 parser"
  n_u8 :: "8 word parser"
  n_alpha1 :: "string parser"
  n_tag :: "string \<Rightarrow> string parser"
  n_char :: "char \<Rightarrow> char parser"
  n_take_while :: "(char \<Rightarrow> bool) \<Rightarrow> string parser"
  n_take_till :: "(char \<Rightarrow> bool) \<Rightarrow> string parser"
  n_take_while_m_n :: "nat \<Rightarrow> nat \<Rightarrow> (char \<Rightarrow> bool) \<Rightarrow> string parser"
  n_pair :: "string parser \<Rightarrow> string parser \<Rightarrow> (string \<times> string) parser"
  n_recognize_pair :: "(string \<times> string) parser \<Rightarrow> string parser"
  n_recognize_list :: "string list parser \<Rightarrow> string parser"
  n_recognize_octets :: "octets parser \<Rightarrow> string parser"
  n_verify :: "string parser \<Rightarrow> (string \<Rightarrow> bool) \<Rightarrow> string parser"
  n_tuple_octets :: "8 word parser \<Rightarrow> char parser \<Rightarrow> 8 word parser \<Rightarrow> char parser \<Rightarrow> 8 word parser
     \<Rightarrow> char parser \<Rightarrow> 8 word parser \<Rightarrow> octets parser"
  n_tuple_ends :: "SocketSpec list parser \<Rightarrow> TunnelOptions option parser \<Rightarrow> tunnel_ends parser"
  n_delimited_str :: "string parser \<Rightarrow> string parser \<Rightarrow> string parser \<Rightarrow> string parser"
  n_delimited_opts :: "char parser \<Rightarrow> TunnelOptions parser \<Rightarrow> char parser \<Rightarrow> TunnelOptions parser"
  n_list1_str :: "string parser \<Rightarrow> string parser \<Rightarrow> string list parser"
  n_list1_kv :: "char parser \<Rightarrow> key_value parser \<Rightarrow> key_value list parser"
  n_list1_spec :: "char parser \<Rightarrow> SocketSpec parser \<Rightarrow> SocketSpec list parser"
  n_separated_host :: "string parser \<Rightarrow> char parser \<Rightarrow> u16 parser \<Rightarrow> (string \<times> u16) parser"
  n_separated_kv :: "string parser \<Rightarrow> char parser \<Rightarrow> string parser \<Rightarrow> key_value parser"
  n_separated_tunnel :: "SocketSpec parser \<Rightarrow> char parser \<Rightarrow> tunnel_ends parser
     \<Rightarrow> (SocketSpec \<times> tunnel_ends) parser"
  n_map_port :: "u16 parser \<Rightarrow> (u16 \<Rightarrow> SocketSpec) \<Rightarrow> SocketSpec parser"
  n_map_host :: "(string \<times> u16) parser \<Rightarrow> (string \<times> u16 \<Rightarrow> SocketSpec) \<Rightarrow> SocketSpec parser"
  n_map_tunnel :: "(SocketSpec \<times> tunnel_ends) parser \<Rightarrow> (SocketSpec \<times> tunnel_ends \<Rightarrow> Tunnel)
     \<Rightarrow> Tunnel parser"
  n_alt_host :: "string parser \<Rightarrow> string parser \<Rightarrow> string parser"
  n_alt_spec :: "SocketSpec parser \<Rightarrow> SocketSpec parser \<Rightarrow> SocketSpec parser \<Rightarrow> SocketSpec parser"
  n_opt :: "TunnelOptions parser \<Rightarrow> TunnelOptions option parser"
  n_all_consuming :: "Tunnel parser \<Rightarrow> Tunnel parser"

subsection \<open>The documented behaviour\<close>

definition doc_map :: "'a parser \<Rightarrow> ('a \<Rightarrow> 'b) \<Rightarrow> 'b parser" where
  "doc_map p f i = (case p i of Inl e \<Rightarrow> Inl e | Inr (r, a) \<Rightarrow> Inr (r, f a))"

definition doc_pair :: "'a parser \<Rightarrow> 'b parser \<Rightarrow> ('a \<times> 'b) parser" where
  "doc_pair p q i =
     (case p i of Inl e \<Rightarrow> Inl e | Inr (r, a) \<Rightarrow> doc_map q (Pair a) r)"

definition doc_separated :: "'a parser \<Rightarrow> 's parser \<Rightarrow> 'b parser \<Rightarrow> ('a \<times> 'b) parser" where
  "doc_separated p s q = doc_map (doc_pair p (doc_pair s q)) (\<lambda>(a, _, b). (a, b))"

definition doc_delimited :: "'l parser \<Rightarrow> 'a parser \<Rightarrow> 'r parser \<Rightarrow> 'a parser" where
  "doc_delimited l p r = doc_map (doc_pair l (doc_pair p r)) (\<lambda>(_, a, _). a)"

definition doc_alt :: "'a parser \<Rightarrow> 'a parser \<Rightarrow> 'a parser" where
  "doc_alt p q i =
     (case p i of Inl (ErrError s k) \<Rightarrow> q i | r \<Rightarrow> r)"

definition doc_opt :: "'a parser \<Rightarrow> 'a option parser" where
  "doc_opt p i =
     (case p i of
        Inr (r, a) \<Rightarrow> Inr (r, Some a)
      | Inl (ErrError s k) \<Rightarrow> Inr (i, None)
      | Inl e \<Rightarrow> Inl e)"

definition doc_recognize :: "'a parser \<Rightarrow> string parser" where
  "doc_recognize p i =
     (case p i of Inl e \<Rightarrow> Inl e | Inr (r, _) \<Rightarrow> Inr (r, take (length i - length r) i))"

definition doc_verify :: "'a parser \<Rightarrow> ('a \<Rightarrow> bool) \<Rightarrow> 'a parser" where
  "doc_verify p f i =
     (case p i of
        Inl e \<Rightarrow> Inl e
      | Inr (r, a) \<Rightarrow> if f a then Inr (r, a) else Inl (ErrError i ''Verify''))"

definition doc_all_consuming :: "'a parser \<Rightarrow> 'a parser" where
  "doc_all_consuming p i =
     (case p i of
        Inl e \<Rightarrow> Inl e
      | Inr (r, a) \<Rightarrow> if r = [] then Inr (r, a) else Inl (ErrError r ''Eof''))"

text \<open>
  The elements after the first one: the list ends before a separator without an element after
  it; a separator that consumes nothing is an error. The number bounds the elements.
\<close>

fun doc_list_rest :: "nat \<Rightarrow> 's parser \<Rightarrow> 'a parser \<Rightarrow> 'a list \<Rightarrow> 'a list parser" where
  "doc_list_rest 0 s p acc i = Inr (i, rev acc)"
| "doc_list_rest (Suc n) s p acc i =
     (case s i of
        Inl (ErrError _ _) \<Rightarrow> Inr (i, rev acc)
      | Inl e \<Rightarrow> Inl e
      | Inr (i1, _) \<Rightarrow>
          if length i1 = length i then Inl (ErrError i1 ''SeparatedList'')
          else (case p i1 of
                  Inl (ErrError _ _) \<Rightarrow> Inr (i, rev acc)
                | Inl e \<Rightarrow> Inl e
                | Inr (i2, a) \<Rightarrow> doc_list_rest n s p (a # acc) i2))"

definition doc_list1 :: "'s parser \<Rightarrow> 'a parser \<Rightarrow> 'a list parser" where
  "doc_list1 s p i =
     (case p i of Inl e \<Rightarrow> Inl e | Inr (r, a) \<Rightarrow> doc_list_rest (Suc (length r)) s p [a] r)"

definition doc_take_while :: "(char \<Rightarrow> bool) \<Rightarrow> string parser" where
  "doc_take_while f i = Inr (dropWhile f i, takeWhile f i)"

definition doc_take_while_m_n :: "nat \<Rightarrow> nat \<Rightarrow> (char \<Rightarrow> bool) \<Rightarrow> string parser" where
  "doc_take_while_m_n m n f i =
     (let t = takeWhile f (take n i)
      in if m \<le> length t then Inr (drop (length t) i, t) else Inl (ErrError i ''TakeWhileMN''))"

definition doc_alpha1 :: "string parser" where
  "doc_alpha1 i =
     (if i \<noteq> [] \<and> is_alpha (hd i) then Inr (dropWhile is_alpha i, takeWhile is_alpha i)
      else Inl (ErrError i ''Alpha''))"

definition doc_tag :: "string \<Rightarrow> string parser" where
  "doc_tag t i =
     (if take (length t) i = t then Inr (drop (length t) i, t) else Inl (ErrError i ''Tag''))"

definition doc_char :: "char \<Rightarrow> char parser" where
  "doc_char c i = (if i \<noteq> [] \<and> hd i = c then Inr (tl i, c) else Inl (ErrError i ''Char''))"

definition doc_uint :: "int \<Rightarrow> string \<Rightarrow> nom_err + string \<times> int" where
  "doc_uint limit i =
     (let ds = takeWhile is_digit i
      in if ds \<noteq> [] \<and> digits_value ds < limit then Inr (dropWhile is_digit i, digits_value ds)
         else Inl (ErrError i ''Digit''))"

definition doc_u16 :: "u16 parser" where
  "doc_u16 = doc_map (doc_uint 65536) of_int"

definition doc_u8 :: "8 word parser" where
  "doc_u8 = doc_map (doc_uint 256) of_int"

definition documented_nom :: nom where
  "documented_nom = \<lparr>n_u16 = doc_u16, n_u8 = doc_u8, n_alpha1 = doc_alpha1, n_tag = doc_tag,
     n_char = doc_char, n_take_while = doc_take_while, n_take_till = (\<lambda>f. doc_take_while (\<lambda>c. \<not> f c)),
     n_take_while_m_n = doc_take_while_m_n, n_pair = doc_pair, n_recognize_pair = doc_recognize,
     n_recognize_list = doc_recognize, n_recognize_octets = doc_recognize, n_verify = doc_verify,
     n_tuple_octets = (\<lambda>a b c d e f g. doc_pair a (doc_pair b (doc_pair c (doc_pair d
        (doc_pair e (doc_pair f g)))))),
     n_tuple_ends = doc_pair, n_delimited_str = doc_delimited, n_delimited_opts = doc_delimited,
     n_list1_str = doc_list1, n_list1_kv = doc_list1, n_list1_spec = doc_list1,
     n_separated_host = doc_separated, n_separated_kv = doc_separated,
     n_separated_tunnel = doc_separated, n_map_port = doc_map, n_map_host = doc_map,
     n_map_tunnel = doc_map, n_alt_host = doc_alt, n_alt_spec = (\<lambda>p q r. doc_alt p (doc_alt q r)),
     n_opt = doc_opt, n_all_consuming = doc_all_consuming\<rparr>"

lemma documented_fields:
  "n_u16 documented_nom = doc_u16"
  "n_u8 documented_nom = doc_u8"
  "n_alpha1 documented_nom = doc_alpha1"
  "n_tag documented_nom = doc_tag"
  "n_char documented_nom = doc_char"
  "n_take_while documented_nom = doc_take_while"
  "n_take_till documented_nom = (\<lambda>f. doc_take_while (\<lambda>c. \<not> f c))"
  "n_take_while_m_n documented_nom = doc_take_while_m_n"
  "n_pair documented_nom = doc_pair"
  "n_recognize_pair documented_nom = doc_recognize"
  "n_recognize_list documented_nom = doc_recognize"
  "n_recognize_octets documented_nom = doc_recognize"
  "n_verify documented_nom = doc_verify"
  "n_tuple_octets documented_nom = (\<lambda>a b c d e f g. doc_pair a (doc_pair b (doc_pair c (doc_pair d (doc_pair e (doc_pair f g))))))"
  "n_tuple_ends documented_nom = doc_pair"
  "n_delimited_str documented_nom = doc_delimited"
  "n_delimited_opts documented_nom = doc_delimited"
  "n_list1_str documented_nom = doc_list1"
  "n_list1_kv documented_nom = doc_list1"
  "n_list1_spec documented_nom = doc_list1"
  "n_separated_host documented_nom = doc_separated"
  "n_separated_kv documented_nom = doc_separated"
  "n_separated_tunnel documented_nom = doc_separated"
  "n_map_port documented_nom = doc_map"
  "n_map_host documented_nom = doc_map"
  "n_map_tunnel documented_nom = doc_map"
  "n_alt_host documented_nom = doc_alt"
  "n_alt_spec documented_nom = (\<lambda>p q r. doc_alt p (doc_alt q r))"
  "n_opt documented_nom = doc_opt"
  "n_all_consuming documented_nom = doc_all_consuming"
  by (simp_all add: documented_nom_def)

end
