(* ===== verification/Parser.thy ===== *)
theory Parser
  imports Nom
begin

text \<open>
  The parser of socket and tunnel specifications (\<open>src/tunnel/parser.rs\<close>) and the conversions
  from and to text of \<open>src/tunnel.rs\<close>, over the parser library as the parameter \<open>N\<close>.
\<close>

definition port :: "nom \<Rightarrow> u16 parser" where
  "port N i = n_u16 N i"

definition is_other_hostname_char :: "char \<Rightarrow> bool" where
  "is_other_hostname_char c \<longleftrightarrow> c \<in> set ''.-''"

definition is_option_name_char :: "char \<Rightarrow> bool" where
  "is_option_name_char c \<longleftrightarrow> is_alphanumeric c \<or> CHR ''_'' = c \<or> CHR ''-'' = c"

definition host_name :: "nom \<Rightarrow> string parser" where
  "host_name N i =
     (let rest = n_take_while N (\<lambda>x. is_alphanumeric x \<or> is_other_hostname_char x)
      in n_verify N (n_recognize_pair N (n_pair N (n_alpha1 N) rest))
           (\<lambda>x. if x = [] then False else \<not> is_other_hostname_char (last x)) i)"

definition ipv6_segment :: "nom \<Rightarrow> string parser" where
  "ipv6_segment N i = n_take_while_m_n N 0 4 is_hexdigit i"

definition ipv6 :: "nom \<Rightarrow> string parser" where
  "ipv6 N i =
     n_delimited_str N (n_tag N ''['')
       (n_recognize_list N (n_list1_str N (n_tag N '':'') (ipv6_segment N))) (n_tag N '']'') i"

definition ipv4 :: "nom \<Rightarrow> string parser" where
  "ipv4 N i =
     n_recognize_octets N (n_tuple_octets N (n_u8 N) (n_char N CHR ''.'') (n_u8 N)
       (n_char N CHR ''.'') (n_u8 N) (n_char N CHR ''.'') (n_u8 N)) i"

definition socket_spec1 :: "nom \<Rightarrow> SocketSpec parser" where
  "socket_spec1 N i = n_map_port N (port N) (\<lambda>p. SocketSpec (''127.0.0.1:'' @ show_word p)) i"

definition socket_spec2 :: "nom \<Rightarrow> SocketSpec parser" where
  "socket_spec2 N i =
     n_map_host N
       (n_separated_host N (n_alt_host N (host_name N) (ipv4 N)) (n_char N CHR '':'') (port N))
       (\<lambda>(host, p). SocketSpec (host @ '':'' @ show_word p)) i"

definition socket_spec3 :: "nom \<Rightarrow> SocketSpec parser" where
  "socket_spec3 N i =
     n_map_host N (n_separated_host N (ipv6 N) (n_char N CHR '':'') (port N))
       (\<lambda>(host, p). SocketSpec (''['' @ host @ '']:'' @ show_word p)) i"

definition socket_spec :: "nom \<Rightarrow> SocketSpec parser" where
  "socket_spec N i = n_alt_spec N (socket_spec3 N) (socket_spec2 N) (socket_spec1 N) i"

text \<open>
  One option and its value, as the body of the loop sets it; the default options are the
  process-wide ones.
\<close>

definition option_err :: "string \<Rightarrow> nom_err" where
  "option_err input = ErrFailure input ''Verify''"

definition set_option :: "key_value \<Rightarrow> TunnelOptions \<Rightarrow> nom_err + TunnelOptions" where
  "set_option kv opts =
     (case kv of (k, v) \<Rightarrow>
        let key = to_lower k
        in if key = ''strategy''
           then (case lb_from_str v of
                   Inl _ \<Rightarrow> Inl (option_err v)
                 | Inr s \<Rightarrow> Inr (opts\<lparr>to_lb_strategy := s\<rparr>))
           else if key = ''retries''
           then (case parse_u16 v of
                   None \<Rightarrow> Inl (option_err v)
                 | Some n \<Rightarrow> Inr (opts\<lparr>to_remote_connect_retries := n\<rparr>))
           else if key = ''timeout''
           then (case parse_f32 v of
                   None \<Rightarrow> Inl (option_err v)
                 | Some x \<Rightarrow> Inr (opts\<lparr>to_options := (to_options opts)\<lparr>ro_connect_timeout := x\<rparr>\<rparr>))
           else if key = ''errors''
           then (case parse_u64 v of
                   None \<Rightarrow> Inl (option_err v)
                 | Some n \<Rightarrow> Inr (opts\<lparr>to_options := (to_options opts)\<lparr>ro_errors_till_dead := n\<rparr>\<rparr>))
           else if key = ''check-interval''
           then (case parse_f32 v of
                   None \<Rightarrow> Inl (option_err v)
                 | Some x \<Rightarrow> Inr (opts\<lparr>to_options := (to_options opts)\<lparr>ro_dead_retry := x\<rparr>\<rparr>))
           else if key = ''remote-tls''
           then (case parse_bool v of
                   None \<Rightarrow> Inl (option_err v)
                 | Some b \<Rightarrow> Inr (opts\<lparr>to_options := (to_options opts)\<lparr>ro_tls := b\<rparr>\<rparr>))
           else Inl (option_err k))"

fun set_options :: "key_value list \<Rightarrow> TunnelOptions \<Rightarrow> nom_err + TunnelOptions" where
  "set_options [] opts = Inr opts"
| "set_options (kv # kvs) opts =
     (case set_option kv opts of Inl e \<Rightarrow> Inl e | Inr opts' \<Rightarrow> set_options kvs opts')"

definition options :: "nom \<Rightarrow> TunnelOptions \<Rightarrow> TunnelOptions parser" where
  "options N default_opts i =
     (case n_list1_kv N (n_char N CHR '','')
             (n_separated_kv N (n_take_while N is_option_name_char) (n_char N CHR ''='')
               (n_take_till N (\<lambda>c. c \<in> set '',]''))) i of
        Inl e \<Rightarrow> Inl e
      | Inr (rest, items) \<Rightarrow>
          (case set_options items default_opts of Inl e \<Rightarrow> Inl e | Inr opts \<Rightarrow> Inr (rest, opts)))"

definition tunnel :: "nom \<Rightarrow> TunnelOptions \<Rightarrow> Tunnel parser" where
  "tunnel N default_opts i =
     n_all_consuming N
       (n_map_tunnel N
         (n_separated_tunnel N (socket_spec N) (n_char N CHR ''='')
           (n_tuple_ends N (n_list1_spec N (n_char N CHR '','') (socket_spec N))
             (n_opt N (n_delimited_opts N (n_char N CHR ''['') (options N default_opts)
                (n_char N CHR '']'')))))
         (\<lambda>(local, remote, opts). \<lparr>tun_local = local, tun_remote = remote, tun_options = opts\<rparr>)) i"

subsection \<open>Conversions\<close>

text \<open>\<open>FromStr\<close> of a specification: only white space may follow it.\<close>

definition spec_from_str :: "nom \<Rightarrow> string \<Rightarrow> SocketSpec result" where
  "spec_from_str N s =
     (case socket_spec N s of
        Inl Incomplete \<Rightarrow> Inl (SocketSpecParseError ''Incomplete Socket Spec'')
      | Inl (ErrError input code) \<Rightarrow>
          Inl (SocketSpecParseError (''Failed parser: '' @ code @ '', unparsed: '' @ input))
      | Inl (ErrFailure input code) \<Rightarrow>
          Inl (SocketSpecParseError (''Failed parser: '' @ code @ '', unparsed: '' @ input))
      | Inr (rest, spec) \<Rightarrow>
          if trim_end rest \<noteq> []
          then Inl (SocketSpecParseError (''Extra characters after spec: '' @ rest))
          else Inr spec)"

definition spec_to_string :: "SocketSpec \<Rightarrow> string" where
  "spec_to_string s = inner s"

definition tunnel_from_str :: "nom \<Rightarrow> TunnelOptions \<Rightarrow> string \<Rightarrow> Tunnel result" where
  "tunnel_from_str N default_opts s =
     (case tunnel N default_opts s of
        Inl Incomplete \<Rightarrow> Inl (TunnelParseError ''Incomplete tunnel spec'')
      | Inl (ErrError input code) \<Rightarrow>
          Inl (TunnelParseError (''Parser: '' @ code @ '', Unparsed: '' @ input))
      | Inl (ErrFailure input code) \<Rightarrow>
          Inl (TunnelParseError (''Parser: '' @ code @ '', Unparsed: '' @ input))
      | Inr (_, t) \<Rightarrow> Inr t)"

text \<open>\<open>Display\<close> of a tunnel; its options are not shown.\<close>

fun show_remotes :: "nat \<Rightarrow> SocketSpec list \<Rightarrow> string" where
  "show_remotes n [] = []"
| "show_remotes n (r # rs) =
     (if 0 < n then '','' else []) @ spec_to_string r @ show_remotes (Suc n) rs"

definition tunnel_to_string :: "Tunnel \<Rightarrow> string" where
  "tunnel_to_string t = spec_to_string (tun_local t) @ ''='' @ show_remotes 0 (tun_remote t)"

end
