(* ===== verification/Parser_Spec.thy ===== *)
theory Parser_Spec
  imports Parser
begin

text \<open>
  What parsing promises: a specification that is accepted names an address, so that reading its
  host and port never panics; and a tunnel that is printed is read back.
\<close>

subsection \<open>Accepted specifications are addresses\<close>

text \<open>What is needed of the library for this: where the values of a combinator come from.\<close>

locale nom_results =
  fixes N :: nom
  assumes map_port: "n_map_port N pp f i = Inr (r, s) \<Longrightarrow> \<exists>a. s = f a"
    and map_host: "n_map_host N ph g i = Inr (r, s) \<Longrightarrow> \<exists>a. s = g a"
    and alt_spec: "n_alt_spec N p1 p2 p3 i = Inr x \<Longrightarrow> p1 i = Inr x \<or> p2 i = Inr x \<or> p3 i = Inr x"
    and map_tunnel: "n_map_tunnel N pt h i = Inr (r, t) \<Longrightarrow> \<exists>a. pt i = Inr (r, a) \<and> t = h a"
    and separated_tunnel: "n_separated_tunnel N p1 c pe i = Inr (r, a, b)
       \<Longrightarrow> (\<exists>j j'. p1 j = Inr (j', a)) \<and> (\<exists>j. pe j = Inr (r, b))"
    and tuple_ends: "n_tuple_ends N pl po i = Inr (r, rs, opts) \<Longrightarrow> \<exists>j j'. pl j = Inr (j', rs)"
    and list1_spec: "n_list1_spec N c p1 i = Inr (r, rs)
       \<Longrightarrow> rs \<noteq> [] \<and> (\<forall>s \<in> set rs. \<exists>j j'. p1 j = Inr (j', s))"
    and all_consuming: "n_all_consuming N q i = Inr (r, t) \<Longrightarrow> q i = Inr (r, t)"
begin

lemma socket_spec_address:
  assumes "socket_spec N i = Inr (r, s)"
  shows "as_tuple s \<noteq> None"
proof -
  have "\<exists>h (p :: u16). s = SocketSpec (h @ '':'' @ show_word p)"
    using alt_spec [OF assms [unfolded socket_spec_def]]
  proof (elim disjE)
    assume "socket_spec3 N i = Inr (r, s)"
    from map_host [OF this [unfolded socket_spec3_def]] obtain hp :: "string \<times> u16"
      where "s = (case hp of (h, p) \<Rightarrow> SocketSpec (''['' @ h @ '']:'' @ show_word p))" by blast
    then show ?thesis
      by (intro exI [of _ "''['' @ fst hp @ '']''"] exI [of _ "snd hp"]) (simp add: case_prod_beta)
  next
    assume "socket_spec2 N i = Inr (r, s)"
    from map_host [OF this [unfolded socket_spec2_def]] show ?thesis by auto
  next
    assume "socket_spec1 N i = Inr (r, s)"
    from map_port [OF this [unfolded socket_spec1_def]] obtain p :: u16
      where "s = SocketSpec (''127.0.0.1:'' @ show_word p)" by auto
    then show ?thesis by (intro exI [of _ "''127.0.0.1''"] exI [of _ p]) simp
  qed
  then show ?thesis using as_tuple_formatted by auto
qed

lemma tunnel_addresses:
  assumes "tunnel N d i = Inr (r, t)"
  shows "as_tuple (tun_local t) \<noteq> None \<and> tun_remote t \<noteq> []
    \<and> (\<forall>s \<in> set (tun_remote t). as_tuple s \<noteq> None)"
proof -
  from map_tunnel [OF all_consuming [OF assms [unfolded tunnel_def]]] obtain l rs opts where
    parts: "n_separated_tunnel N (socket_spec N) (n_char N CHR ''='')
      (n_tuple_ends N (n_list1_spec N (n_char N CHR '','') (socket_spec N))
        (n_opt N (n_delimited_opts N (n_char N CHR ''['') (options N d) (n_char N CHR '']'')))) i
      = Inr (r, l, rs, opts)"
    and t: "t = \<lparr>tun_local = l, tun_remote = rs, tun_options = opts\<rparr>"
    by auto
  from separated_tunnel [OF parts] obtain j j' k where "socket_spec N j = Inr (j', l)"
    and "n_tuple_ends N (n_list1_spec N (n_char N CHR '','') (socket_spec N))
        (n_opt N (n_delimited_opts N (n_char N CHR ''['') (options N d) (n_char N CHR '']''))) k
      = Inr (r, rs, opts)"
    by blast
  with tuple_ends list1_spec socket_spec_address show ?thesis by (simp add: t) metis
qed

end

text \<open>The elements of a list come from its element parser.\<close>

lemma doc_list_rest_elements:
  "set acc \<subseteq> {a. \<exists>j j'. p j = Inr (j', a)} \<Longrightarrow> doc_list_rest n c p acc i = Inr (r, rs)
    \<Longrightarrow> (acc \<noteq> [] \<longrightarrow> rs \<noteq> []) \<and> set rs \<subseteq> {a. \<exists>j j'. p j = Inr (j', a)}"
proof (induction n c p acc i rule: doc_list_rest.induct)
  case (1 c p acc i)
  then show ?case by auto
next
  case (2 n c p acc i)
  show ?case
  proof (cases "\<exists>i1 u i2 a. c i = Inr (i1, u) \<and> length i1 \<noteq> length i \<and> p i1 = Inr (i2, a)")
    case True
    then obtain i1 u i2 a where step: "c i = Inr (i1, u)" "length i1 \<noteq> length i" "p i1 = Inr (i2, a)"
      by blast
    then have "set (a # acc) \<subseteq> {a. \<exists>j j'. p j = Inr (j', a)}" using 2(2) by auto
    moreover have "doc_list_rest n c p (a # acc) i2 = Inr (r, rs)" using 2(3) step by simp
    ultimately show ?thesis using 2(1) [OF step(1) refl step(2,3) refl] by blast
  next
    case False
    moreover have "\<forall>x \<in> set acc. \<exists>j j'. p j = Inr (j', x)" using 2(2) by auto
    ultimately show ?thesis using 2(3) by (auto split: sum.splits nom_err.splits if_splits)
  qed
qed

interpretation documented: nom_results documented_nom
proof
  fix c :: "char parser" and p i r rs
  assume "n_list1_spec documented_nom c p i = Inr (r, rs)"
  then obtain r1 a n where a: "p i = Inr (r1, a)" and rest: "doc_list_rest n c p [a] r1 = Inr (r, rs)"
    by (auto simp: documented_nom_def doc_list1_def simp del: doc_list_rest.simps split: sum.splits)
  from a have "set [a] \<subseteq> {a. \<exists>j j'. p j = Inr (j', a)}" by auto
  from doc_list_rest_elements [OF this rest]
  show "rs \<noteq> [] \<and> (\<forall>s \<in> set rs. \<exists>j j'. p j = Inr (j', s))" by blast
qed (auto simp: documented_nom_def doc_map_def doc_alt_def doc_separated_def doc_pair_def
      doc_all_consuming_def split: sum.splits prod.splits nom_err.splits if_splits)

text \<open>
  C31: whatever is accepted as a socket or tunnel specification can be used: the host and port
  of every specification in it can be read without a panic, and a tunnel has at least one
  remote.
\<close>

theorem accepted_specs_are_addresses:
  assumes "nom_results N"
  shows "(spec_from_str N s = Inr spec \<longrightarrow> as_tuple spec \<noteq> None)
    \<and> (tunnel_from_str N d s = Inr t \<longrightarrow> as_tuple (tun_local t) \<noteq> None \<and> tun_remote t \<noteq> []
         \<and> (\<forall>r \<in> set (tun_remote t). as_tuple r \<noteq> None))"
  using nom_results.socket_spec_address [OF assms, of s] nom_results.tunnel_addresses [OF assms, of d s]
  by (auto simp: spec_from_str_def tunnel_from_str_def split: sum.splits nom_err.splits if_splits)

theorem accepted_specs_are_addresses_witness:
  "as_tuple (SocketSpec ''[::1]:80'') = Some (''::1'', 80)
   \<and> (\<exists>spec. spec_from_str documented_nom ''[::1]:80 '' = Inr spec \<and> as_tuple spec \<noteq> None)"
proof -
  have parsed: "spec_from_str documented_nom ''[::1]:80 '' = Inr (SocketSpec ''[::1]:80'')"
    by code_simp
  moreover have "as_tuple (SocketSpec ''[::1]:80'') = Some (''::1'', 80)"
    by code_simp
  ultimately show ?thesis
    using accepted_specs_are_addresses [OF documented.nom_results_axioms,
      of "''[::1]:80 ''" "SocketSpec ''[::1]:80''"] by blast
qed

subsection \<open>Round trip\<close>

text \<open>The library behaves as documented.\<close>

definition nom_documented :: "nom \<Rightarrow> bool" where
  "nom_documented N \<longleftrightarrow> N = documented_nom"

text \<open>Specifications with a host name and a port, in the form the parser keeps them.\<close>

definition host_text :: "string \<Rightarrow> bool" where
  "host_text h \<longleftrightarrow> h \<noteq> [] \<and> is_alpha (hd h) \<and> \<not> is_other_hostname_char (last h)
     \<and> list_all (\<lambda>c. is_alphanumeric c \<or> is_other_hostname_char c) h"

definition named_spec :: "SocketSpec \<Rightarrow> bool" where
  "named_spec s \<longleftrightarrow>
     (case rsplit_once CHR '':'' (inner s) of
        None \<Rightarrow> False
      | Some (h, p) \<Rightarrow> host_text h \<and> (case parse_u16 p of None \<Rightarrow> False | Some n \<Rightarrow> show_word n = p))"

definition no_digit :: "string \<Rightarrow> bool" where
  "no_digit rest \<longleftrightarrow> rest = [] \<or> \<not> is_digit (hd rest)"

lemma rsplit_once_Some: "rsplit_once c s = Some (a, b) \<Longrightarrow> s = a @ c # b"
  by (induction s arbitrary: a) (auto split: option.splits if_splits)

lemma named_specE:
  assumes "named_spec s"
  obtains h and p :: u16 where "host_text h" and "s = SocketSpec (h @ CHR '':'' # show_word p)"
  using assms by (cases s) (auto simp: named_spec_def split: option.splits dest!: rsplit_once_Some)

lemma doc_u16_show:
  assumes "no_digit rest"
  shows "doc_u16 (show_word p @ rest) = Inr (rest, p)"
proof -
  have "uint p < 65536" using unsigned_less [of p, where ?'a = int] by simp
  then show ?thesis
    using takeWhile_show_int [of "uint p" rest] assms
    by (simp add: doc_u16_def doc_map_def doc_uint_def show_word_def no_digit_def)
qed

lemma host_name_text:
  assumes "host_text h"
  shows "host_name documented_nom (h @ CHR '':'' # rest) = Inr (CHR '':'' # rest, h)"
proof -
  let ?ok = "\<lambda>x. is_alphanumeric x \<or> is_other_hostname_char x"
  have h: "h \<noteq> []" "is_alpha (hd h)" "\<forall>c \<in> set h. ?ok c" "\<not> is_other_hostname_char (last h)"
    using assms by (auto simp: host_text_def list_all_iff)
  have colon: "\<not> ?ok CHR '':''"
    by (simp add: is_other_hostname_char_def char_class_defs)
  have alpha: "is_alpha c \<Longrightarrow> ?ok c" for c by (simp add: is_alphanumeric_def)
  have twice: "dropWhile ?ok (dropWhile is_alpha xs) = dropWhile ?ok xs" for xs
    by (induction xs) (auto simp: is_alphanumeric_def)
  have "dropWhile ?ok (h @ CHR '':'' # rest) = CHR '':'' # rest"
    using h(3) colon by (simp add: dropWhile_append2)
  with h colon twice show ?thesis
    by (simp add: host_name_def documented_fields doc_verify_def doc_recognize_def doc_pair_def
        doc_map_def doc_alpha1_def doc_take_while_def hd_append)
qed

lemma socket_spec_host:
  assumes h: "host_text h" and s: "s = SocketSpec (h @ CHR '':'' # show_word (p :: u16))" and "no_digit rest"
  shows "socket_spec documented_nom (inner s @ rest) = Inr (rest, s)"
proof -
  let ?i = "h @ CHR '':'' # show_word p @ rest"
  have "h \<noteq> []" and "hd h \<noteq> CHR ''[''" using h by (auto simp: host_text_def char_class_defs)
  then have "\<exists>e k. socket_spec3 documented_nom ?i = Inl (ErrError e k)"
    by (cases h) (simp_all add: socket_spec3_def documented_fields doc_map_def doc_separated_def
        doc_pair_def ipv6_def doc_delimited_def doc_tag_def)
  moreover have "socket_spec2 documented_nom ?i = Inr (rest, s)"
    using host_name_text [OF h] doc_u16_show [OF assms(3)]
    by (simp add: socket_spec2_def documented_fields doc_map_def doc_separated_def doc_pair_def
        doc_alt_def doc_char_def port_def s)
  ultimately show ?thesis
    by (auto simp: socket_spec_def documented_fields doc_alt_def s)
qed

text \<open>
  The three forms in which the parser keeps a specification: a host name, an IPv4 address or an
  IPv6 address in brackets, each with a port.
\<close>

definition octet_text :: "string \<Rightarrow> bool" where
  "octet_text a \<longleftrightarrow> a \<noteq> [] \<and> list_all is_digit a \<and> digits_value a < 256"

definition segment_text :: "string \<Rightarrow> bool" where
  "segment_text s \<longleftrightarrow> length s \<le> 4 \<and> list_all is_hexdigit s"

definition segments_text :: "string list \<Rightarrow> string" where
  "segments_text ss = concat (map (Cons CHR '':'') ss)"

inductive printed_spec :: "SocketSpec \<Rightarrow> bool" where
  with_name: "host_text h \<Longrightarrow> printed_spec (SocketSpec (h @ CHR '':'' # show_word (p :: u16)))"
| with_ipv4: "list_all octet_text [a, b, c, d] \<Longrightarrow> printed_spec (SocketSpec
    (a @ CHR ''.'' # b @ CHR ''.'' # c @ CHR ''.'' # d @ CHR '':'' # show_word (p :: u16)))"
| with_ipv6: "list_all segment_text (s # ss) \<Longrightarrow> printed_spec (SocketSpec
    (CHR ''['' # s @ segments_text ss @ CHR '']'' # CHR '':'' # show_word (p :: u16)))"

lemma named_printed: "named_spec s \<Longrightarrow> printed_spec s"
  by (erule named_specE) (auto intro: with_name)

lemma doc_u8_octet:
  assumes "octet_text a" and "no_digit rest"
  shows "doc_u8 (a @ rest) = Inr (rest, of_int (digits_value a))"
proof -
  from assms have "takeWhile is_digit (a @ rest) = a" "dropWhile is_digit (a @ rest) = rest"
    by (auto simp: octet_text_def no_digit_def list_all_iff takeWhile_append dropWhile_append
        takeWhile_eq_Nil_iff dropWhile_eq_self_iff)
  with assms(1) show ?thesis
    by (simp add: doc_u8_def doc_map_def doc_uint_def octet_text_def Let_def)
qed

lemma doc_recognize_append: "p (t @ rest) = Inr (rest, x) \<Longrightarrow> doc_recognize p (t @ rest) = Inr (rest, t)"
  by (simp add: doc_recognize_def)

lemma ipv4_text:
  assumes "list_all octet_text [a, b, c, d]" and "no_digit rest"
  shows "ipv4 documented_nom (a @ CHR ''.'' # b @ CHR ''.'' # c @ CHR ''.'' # d @ rest)
    = Inr (rest, a @ CHR ''.'' # b @ CHR ''.'' # c @ CHR ''.'' # d)"
proof -
  have dot: "no_digit (CHR ''.'' # x)" for x by (simp add: no_digit_def char_class_defs)
  let ?p = "n_tuple_octets documented_nom doc_u8 (doc_char CHR ''.'') doc_u8 (doc_char CHR ''.'') doc_u8
    (doc_char CHR ''.'') doc_u8"
  have "\<exists>x. ?p ((a @ CHR ''.'' # b @ CHR ''.'' # c @ CHR ''.'' # d) @ rest) = Inr (rest, x)"
    using assms by (simp add: doc_u8_octet [OF _ dot] doc_u8_octet [OF _ assms(2)] documented_fields
        doc_pair_def doc_map_def doc_char_def)
  then obtain x where "?p ((a @ CHR ''.'' # b @ CHR ''.'' # c @ CHR ''.'' # d) @ rest) = Inr (rest, x)" by blast
  from doc_recognize_append [of ?p, OF this] show ?thesis by (simp add: ipv4_def documented_fields)
qed

lemma ipv6_segment_text:
  assumes "segment_text s" and "rest \<noteq> []" and "\<not> is_hexdigit (hd rest)"
  shows "ipv6_segment documented_nom (s @ rest) = Inr (rest, s)"
proof -
  have "takeWhile is_hexdigit (take 4 (s @ rest)) = s"
    using assms by (cases rest; cases "4 - length s")
      (auto simp: segment_text_def list_all_iff takeWhile_append)
  then show ?thesis
    by (simp add: ipv6_segment_def documented_fields doc_take_while_m_n_def Let_def)
qed

lemma segments_rest:
  assumes "list_all segment_text ss" and "length ss \<le> n"
  shows "doc_list_rest n (doc_tag '':'') (ipv6_segment documented_nom) acc
      (segments_text ss @ CHR '']'' # rest) = Inr (CHR '']'' # rest, rev acc @ ss)"
  using assms
proof (induction ss arbitrary: n acc)
  case Nil
  then show ?case by (cases n) (simp_all add: segments_text_def doc_tag_def)
next
  case (Cons s ss)
  then obtain m where n: "n = Suc m" by (cases n) auto
  have "segments_text ss @ CHR '']'' # rest \<noteq> []"
    and "\<not> is_hexdigit (hd (segments_text ss @ CHR '']'' # rest))"
    by (cases ss; simp add: segments_text_def char_class_defs)+
  from ipv6_segment_text [OF _ this] Cons show ?case
    by (simp add: n doc_tag_def segments_text_def)
qed

lemma ipv6_text:
  assumes "list_all segment_text (s # ss)"
  shows "ipv6 documented_nom (CHR ''['' # s @ segments_text ss @ CHR '']'' # rest) = Inr (rest, s @ segments_text ss)"
proof -
  have "segments_text ss @ CHR '']'' # rest \<noteq> []"
    and "\<not> is_hexdigit (hd (segments_text ss @ CHR '']'' # rest))"
    by (cases ss; simp add: segments_text_def char_class_defs)+
  note first = ipv6_segment_text [OF _ this, of s]
  have "length ss \<le> Suc (length (segments_text ss @ CHR '']'' # rest))"
    by (induction ss) (simp_all add: segments_text_def)
  from first segments_rest [OF _ this, of "[s]" rest] assms
  have "doc_list1 (doc_tag '':'') (ipv6_segment documented_nom) (s @ segments_text ss @ CHR '']'' # rest)
      = Inr (CHR '']'' # rest, s # ss)"
    by (simp add: doc_list1_def del: doc_list_rest.simps)
  then show ?thesis
    by (simp add: ipv6_def documented_fields doc_delimited_def doc_map_def doc_pair_def doc_tag_def
        doc_recognize_def)
qed

lemma socket_spec_printed:
  assumes "printed_spec s" and "no_digit rest"
  shows "socket_spec documented_nom (inner s @ rest) = Inr (rest, s)"
  using assms(1)
proof cases
  case (with_name h p)
  then show ?thesis using socket_spec_host [OF _ _ assms(2)] by blast
next
  case (with_ipv4 a b c d p)
  let ?h = "a @ CHR ''.'' # b @ CHR ''.'' # c @ CHR ''.'' # d"
  let ?i = "?h @ CHR '':'' # show_word p @ rest"
  obtain x xs where a: "a = x # xs" and x: "is_digit x"
    using with_ipv4(2) by (cases a) (auto simp: octet_text_def)
  then have "x \<noteq> CHR ''[''" "\<not> is_alpha x" by (auto simp: char_class_defs)
  then have "\<exists>e k. socket_spec3 documented_nom ?i = Inl (ErrError e k)"
    and "\<exists>e k. host_name documented_nom ?i = Inl (ErrError e k)"
    by (simp_all add: a socket_spec3_def documented_fields doc_map_def doc_separated_def
        doc_pair_def ipv6_def doc_delimited_def doc_tag_def host_name_def doc_verify_def
        doc_recognize_def doc_alpha1_def)
  moreover have "no_digit (CHR '':'' # show_word p @ rest)" by (simp add: no_digit_def char_class_defs)
  from ipv4_text [OF with_ipv4(2) this] have "ipv4 documented_nom ?i = Inr (CHR '':'' # show_word p @ rest, ?h)"
    by simp
  ultimately show ?thesis
    using doc_u16_show [OF assms(2), of p]
    by (auto simp: socket_spec_def socket_spec2_def documented_fields doc_map_def doc_separated_def doc_pair_def
        doc_alt_def doc_char_def port_def with_ipv4(1))
next
  case (with_ipv6 s0 ss p)
  then show ?thesis
    using ipv6_text [OF with_ipv6(2), of "CHR '':'' # show_word p @ rest"] doc_u16_show [OF assms(2), of p]
    by (simp add: socket_spec_def socket_spec3_def documented_fields doc_map_def doc_separated_def
        doc_pair_def doc_alt_def doc_char_def port_def)
qed

lemma socket_list_rest:
  assumes "list_all printed_spec rs" and "length rs \<le> n"
  shows "doc_list_rest n (doc_char CHR '','') (socket_spec documented_nom) acc
      (concat (map (\<lambda>r. CHR '','' # inner r) rs)) = Inr ([], rev acc @ rs)"
  using assms
proof (induction rs arbitrary: n acc)
  case Nil
  then show ?case by (cases n) (simp_all add: doc_char_def)
next
  case (Cons r rs)
  then obtain m where n: "n = Suc m" by (cases n) auto
  have "no_digit (concat (map (\<lambda>r. CHR '','' # inner r) rs))"
    by (cases rs) (simp_all add: no_digit_def char_class_defs)
  from socket_spec_printed [OF _ this] Cons show ?case
    by (simp add: n doc_char_def)
qed

lemma show_remotes_Suc: "show_remotes (Suc n) rs = concat (map (\<lambda>r. CHR '','' # inner r) rs)"
  by (induction rs arbitrary: n) (simp_all add: spec_to_string_def)

lemma printed_tunnel:
  assumes "nom_documented N" and "printed_spec (tun_local t)" and "list_all printed_spec (tun_remote t)"
    and "tun_remote t \<noteq> []"
  shows "tunnel_from_str N d (tunnel_to_string t) = Inr (t\<lparr>tun_options := None\<rparr>)"
proof -
  obtain r rs where rs: "tun_remote t = r # rs" by (cases "tun_remote t") (use assms(4) in auto)
  let ?rest = "concat (map (\<lambda>r. CHR '','' # inner r) rs)"
  have nd: "no_digit ?rest" by (cases rs) (simp_all add: no_digit_def char_class_defs)
  have "length rs \<le> length ?rest" by (induction rs) auto
  then have list: "doc_list1 (doc_char CHR '','') (socket_spec documented_nom) (inner r @ ?rest)
      = Inr ([], r # rs)"
    using assms(3) rs socket_spec_printed [OF _ nd, of r] socket_list_rest [of rs "Suc (length ?rest)" "[r]"]
    by (simp add: doc_list1_def del: doc_list_rest.simps)
  have "no_digit (CHR ''='' # x)" for x by (simp add: no_digit_def char_class_defs)
  note local = socket_spec_printed [OF assms(2) this]
  have printed: "tunnel_to_string t = inner (tun_local t) @ CHR ''='' # inner r @ ?rest"
    by (simp add: tunnel_to_string_def spec_to_string_def rs show_remotes_Suc)
  have result: "\<lparr>tun_local = tun_local t, tun_remote = r # rs, tun_options = None\<rparr> = t\<lparr>tun_options := None\<rparr>"
    using rs by (cases t) simp
  have "tunnel documented_nom d (tunnel_to_string t) = Inr ([], t\<lparr>tun_options := None\<rparr>)"
    using local [of "inner r @ ?rest"] list
    by (simp add: printed result [symmetric] tunnel_def documented_fields doc_all_consuming_def doc_map_def
        doc_separated_def doc_pair_def doc_char_def doc_opt_def doc_delimited_def)
  with assms(1) show ?thesis by (simp add: tunnel_from_str_def nom_documented_def)
qed

text \<open>
  C32: a tunnel whose ends are host names with ports and that has a remote is read back from its
  printed form, without its options, which are not printed.
\<close>

theorem printed_tunnel_reads_back:
  assumes "nom_documented N" and "named_spec (tun_local t)" and "list_all named_spec (tun_remote t)"
    and "tun_remote t \<noteq> []"
  shows "tunnel_from_str N d (tunnel_to_string t) = Inr (t\<lparr>tun_options := None\<rparr>)"
  using assms named_printed by (intro printed_tunnel) (auto simp: list_all_iff)

theorem printed_tunnel_reads_back_witness:
  "tunnel_from_str documented_nom DEFAULT_TUNNEL_OPTIONS
     (tunnel_to_string \<lparr>tun_local = SocketSpec ''localhost:3000'',
        tun_remote = [SocketSpec ''a.b-c:80'', SocketSpec ''d:443''], tun_options = None\<rparr>)
   = Inr \<lparr>tun_local = SocketSpec ''localhost:3000'',
        tun_remote = [SocketSpec ''a.b-c:80'', SocketSpec ''d:443''], tun_options = None\<rparr>"
proof -
  let ?t = "\<lparr>tun_local = SocketSpec ''localhost:3000'',
        tun_remote = [SocketSpec ''a.b-c:80'', SocketSpec ''d:443''], tun_options = None\<rparr>"
  have "named_spec (tun_local ?t)" "list_all named_spec (tun_remote ?t)" by code_simp+
  from printed_tunnel_reads_back [OF _ this, of documented_nom DEFAULT_TUNNEL_OPTIONS]
  show ?thesis by (simp add: nom_documented_def)
qed

subsection \<open>Options\<close>

definition option_ok :: "key_value \<Rightarrow> bool" where
  "option_ok kv =
     (case kv of (k, v) \<Rightarrow>
        let key = to_lower k
        in (key = ''strategy'' \<and> \<not> isl (lb_from_str v)) \<or> (key = ''retries'' \<and> parse_u16 v \<noteq> None)
         \<or> (key \<in> {''timeout'', ''check-interval''} \<and> parse_f32 v \<noteq> None)
         \<or> (key = ''errors'' \<and> parse_u64 v \<noteq> None) \<or> (key = ''remote-tls'' \<and> parse_bool v \<noteq> None))"

text \<open>The value of the last option with a name, in any case.\<close>

fun last_value :: "string \<Rightarrow> key_value list \<Rightarrow> string option" where
  "last_value key [] = None"
| "last_value key ((k, v) # kvs) =
     (case last_value key kvs of
        Some v' \<Rightarrow> Some v'
      | None \<Rightarrow> if to_lower k = key then Some v else None)"

text \<open>A field is the last value given for it, or what it was before.\<close>

definition chosen :: "string \<Rightarrow> (string \<Rightarrow> 'a) \<Rightarrow> key_value list \<Rightarrow> 'a \<Rightarrow> 'a" where
  "chosen key parse kvs old = (case last_value key kvs of None \<Rightarrow> old | Some v \<Rightarrow> parse v)"

definition merged_options :: "key_value list \<Rightarrow> TunnelOptions \<Rightarrow> TunnelOptions" where
  "merged_options kvs opts =
     (let o1 = to_options opts
      in \<lparr>to_lb_strategy = chosen ''strategy'' (\<lambda>v. projr (lb_from_str v)) kvs (to_lb_strategy opts),
          to_remote_connect_retries =
            chosen ''retries'' (\<lambda>v. the (parse_u16 v)) kvs (to_remote_connect_retries opts),
          to_options =
            \<lparr>ro_errors_till_dead = chosen ''errors'' (\<lambda>v. the (parse_u64 v)) kvs (ro_errors_till_dead o1),
             ro_connect_timeout = chosen ''timeout'' (\<lambda>v. the (parse_f32 v)) kvs (ro_connect_timeout o1),
             ro_dead_retry = chosen ''check-interval'' (\<lambda>v. the (parse_f32 v)) kvs (ro_dead_retry o1),
             ro_tls = chosen ''remote-tls'' (\<lambda>v. the (parse_bool v)) kvs (ro_tls o1)\<rparr>\<rparr>)"

lemma chosen_Cons:
  "chosen key parse ((k, v) # kvs) old = chosen key parse kvs (if to_lower k = key then parse v else old)"
  by (simp add: chosen_def split: option.split)

lemma set_option_ok:
  assumes "option_ok (k, v)"
  obtains opts' where "set_option (k, v) opts = Inr opts'"
    and "\<And>kvs. merged_options kvs opts' = merged_options ((k, v) # kvs) opts"
proof -
  have "\<exists>opts'. set_option (k, v) opts = Inr opts'
    \<and> (\<forall>kvs. merged_options kvs opts' = merged_options ((k, v) # kvs) opts)"
    using assms
    by (auto simp: option_ok_def set_option_def Let_def merged_options_def chosen_Cons isl_def
        split: sum.split option.split)
  then show thesis using that by blast
qed

lemma set_option_bad:
  "\<not> option_ok (k, v) \<Longrightarrow> set_option (k, v) opts \<in> {Inl (option_err k), Inl (option_err v)}"
  by (auto simp: option_ok_def set_option_def Let_def split: sum.split option.split)

text \<open>
  C33: the options of a tunnel are merged as a whole. If each has a known name, in any case, and
  a value of its type, the result has for every field the last value given for it, else the
  default; otherwise the tunnel is rejected with a failure, which no alternative of the grammar
  can turn into success, at the first offending option.
\<close>

theorem options_are_merged:
  "if list_all option_ok kvs then set_options kvs opts = Inr (merged_options kvs opts)
   else (case hd (dropWhile option_ok kvs) of (k, v) \<Rightarrow>
           set_options kvs opts \<in> {Inl (ErrFailure k ''Verify''), Inl (ErrFailure v ''Verify'')})"
proof (induction kvs arbitrary: opts)
  case Nil
  then show ?case by (simp add: merged_options_def chosen_def Let_def)
next
  case (Cons kv kvs)
  obtain k v where kv: "kv = (k, v)" by (cases kv)
  show ?case
  proof (cases "option_ok (k, v)")
    case True
    then obtain opts' where "set_option (k, v) opts = Inr opts'"
      and "\<And>kvs. merged_options kvs opts' = merged_options ((k, v) # kvs) opts"
      by (rule set_option_ok [of k v opts]) blast
    with Cons.IH [of opts'] True kv show ?thesis by (cases "list_all option_ok kvs") simp_all
  next
    case False
    with set_option_bad [OF False, of opts] kv show ?thesis by (auto simp: option_err_def)
  qed
qed

theorem options_are_merged_witness:
  "set_options [(''Retries'', ''5''), (''remote-tls'', ''true''), (''retries'', ''7'')] DEFAULT_TUNNEL_OPTIONS
     = Inr (merged_options [(''Retries'', ''5''), (''remote-tls'', ''true''), (''retries'', ''7'')]
         DEFAULT_TUNNEL_OPTIONS)
   \<and> to_remote_connect_retries (merged_options
       [(''Retries'', ''5''), (''remote-tls'', ''true''), (''retries'', ''7'')] DEFAULT_TUNNEL_OPTIONS) = 7"
proof
  let ?kvs = "[(''Retries'', ''5''), (''remote-tls'', ''true''), (''retries'', ''7'')]"
  have "list_all option_ok ?kvs" by code_simp
  then show "set_options ?kvs DEFAULT_TUNNEL_OPTIONS = Inr (merged_options ?kvs DEFAULT_TUNNEL_OPTIONS)"
    using options_are_merged [of ?kvs DEFAULT_TUNNEL_OPTIONS] by simp
  show "to_remote_connect_retries (merged_options ?kvs DEFAULT_TUNNEL_OPTIONS) = 7" by code_simp
qed

end
