(* ===== verification/Admin.thy ===== *)
theory Admin
  imports System Parser_Spec
begin

text \<open>
  Starting a tunnel (\<open>start_tunnel\<close> of \<open>src/lib.rs\<close>), as the control protocol, the JSON-RPC
  interface and the start of the program do it.

  An administrative request runs in a task of its own. It reads and writes the shared state a
  few times, each access being one step, and it waits for the binding of a listener. What the
  other tasks do to the state before its \<open>k\<close>-th access is the function \<open>env_acts k\<close>, any function;
  \<open>env_bound\<close> is the outcome of the binding and \<open>env_channel\<close> identifies the close channel the
  request creates. A request that panics has no result and leaves the state as it is.
\<close>

record Env =
  env_acts :: "nat \<Rightarrow> State \<Rightarrow> State"
  env_bound :: "unit result"
  env_channel :: channel_id

text \<open>An environment without other tasks.\<close>

definition alone :: "unit result \<Rightarrow> channel_id \<Rightarrow> Env" where
  "alone bound ch = \<lparr>env_acts = (\<lambda>_ st. st), env_bound = bound, env_channel = ch\<rparr>"

lemma alone_fields [simp]:
  "env_acts (alone bound ch) k st = st"
  "env_bound (alone bound ch) = bound"
  "env_channel (alone bound ch) = ch"
  by (simp_all add: alone_def)

definition start_tunnel :: "Env \<Rightarrow> Tunnel \<Rightarrow> State \<Rightarrow> TunnelHandler result option \<times> State" where
  "start_tunnel env t st =
     (case create_tunnel_start t st of
        None \<Rightarrow> (None, st)
      | Some (Inl e) \<Rightarrow> (Some (Inl e), st)
      | Some (Inr _) \<Rightarrow>
          (case create_tunnel_bound t (env_bound env) (env_channel env) (env_acts env 1 st) of
             (res, st') \<Rightarrow> (Some res, st')))"

text \<open>Its cases: refused at once, failed to bind, overtaken by another request, or started.\<close>

lemma start_tunnel_cases:
  obtains (panics) "as_tuple (tun_local t) = None" "\<not> tunnel_exists (tun_local t) st"
      "start_tunnel env t st = (None, st)"
  | (exists) "tunnel_exists (tun_local t) st" "start_tunnel env t st = (Some (Inl TunnelExists), st)"
  | (not_bound) e where "\<not> tunnel_exists (tun_local t) st" "env_bound env = Inl e"
      "start_tunnel env t st = (Some (Inl e), env_acts env 1 st)"
  | (overtaken) "tunnel_exists (tun_local t) (env_acts env 1 st)"
      "start_tunnel env t st = (Some (Inl TunnelExists), env_acts env 1 st)"
  | (started) "\<not> tunnel_exists (tun_local t) (env_acts env 1 st)" "env_bound env = Inr ()"
      "\<not> tunnel_exists (tun_local t) st" "as_tuple (tun_local t) \<noteq> None"
      "start_tunnel env t st =
         (Some (Inr \<lparr>th_tunnel_key = tun_local t, th_close_channel = env_channel env\<rparr>),
          snd (add_tunnel t (env_channel env) (env_acts env 1 st)))"
proof (cases "tunnel_exists (tun_local t) st")
  case True
  then show thesis using exists by (simp add: start_tunnel_def create_tunnel_start_def)
next
  case new: False
  show thesis
  proof (cases "as_tuple (tun_local t)")
    case None
    then show thesis using panics new by (simp add: start_tunnel_def create_tunnel_start_def)
  next
    case (Some a)
    with new have s: "create_tunnel_start t st = Some (Inr ())"
      by (simp add: create_tunnel_start_def)
    show thesis
    proof (cases "env_bound env")
      case (Inl e)
      then show thesis using not_bound new s
        by (simp add: start_tunnel_def create_tunnel_bound_def)
    next
      case (Inr u)
      show thesis
      proof (cases "tunnel_exists (tun_local t) (env_acts env 1 st)")
        case True
        then show thesis using overtaken s Inr
          by (simp add: start_tunnel_def create_tunnel_bound_def add_tunnel_def tunnel_exists_def)
      next
        case False
        then show thesis using started s Inr Some new
          by (simp add: start_tunnel_def create_tunnel_bound_def add_tunnel_def tunnel_exists_def)
      qed
    qed
  qed
qed

text \<open>A tunnel that was not started changed nothing itself.\<close>

lemma start_tunnel_failed:
  "fst (start_tunnel env t st) = Some (Inl e) \<Longrightarrow>
     snd (start_tunnel env t st) = (if tunnel_exists (tun_local t) st then st else env_acts env 1 st)"
  by (rule start_tunnel_cases [of t st env])
    (auto simp: start_tunnel_def create_tunnel_start_def)

lemma start_tunnel_returns:
  "as_tuple (tun_local t) \<noteq> None \<Longrightarrow> fst (start_tunnel env t st) \<noteq> None"
  by (rule start_tunnel_cases [of t st env]) auto

lemma wf_start_tunnel [wf_intros]:
  "wf_state st \<Longrightarrow> (\<And>k st. wf_state st \<Longrightarrow> wf_state (env_acts env k st))
     \<Longrightarrow> wf_state (snd (start_tunnel env t st))"
  by (rule start_tunnel_cases [of t st env]) (auto intro: wf_operations)

lemma wf_stop_tunnel [wf_intros]: "wf_state st \<Longrightarrow> wf_state (snd (stop_tunnel l st))"
  using wf_remove_tunnel [of st l] by (auto simp: stop_tunnel_def split: sum.split prod.split)

text \<open>In the system these are the events of a started tunnel and of the outcome of its binding.\<close>

definition start_events :: "Env \<Rightarrow> Tunnel \<Rightarrow> Sys \<Rightarrow> sys_event list" where
  "start_events env t s =
     StartTunnel t #
     (case create_tunnel_start t (sys_state s) of
        Some (Inr _) \<Rightarrow> [Bound (length (sys_starting s)) (env_bound env)]
      | _ \<Rightarrow> [])"

lemma start_tunnel_events:
  "\<exists>s'. sys_run (\<lambda>_ _. True) (start_events (alone bound (sys_next_channel s)) t s) s = Some s'
     \<and> sys_state s' = snd (start_tunnel (alone bound (sys_next_channel s)) t (sys_state s))"
  by (auto simp: start_events_def start_tunnel_def remove_nth_def
      split: option.split sum.split prod.split)

subsection \<open>Two requests for the same address\<close>

text \<open>
  \<open>add_tunnel\<close> is a test of the key and an insertion. If two tasks that open a tunnel under the same
  address, both with a bound listener, pass the test before either inserts, the second replaces
  the record of the first, and the metric of open tunnels counts both.
\<close>

definition add_tunnel_insert :: "Tunnel \<Rightarrow> channel_id \<Rightarrow> State \<Rightarrow> State" where
  "add_tunnel_insert t ch st =
     put_tunnel (tun_local t)
       (new_TunnelInfo ch (tun_remote t)
          (case tun_options t of Some opts \<Rightarrow> opts | None \<Rightarrow> st_default_options st),
        [Add (st_tunnels_counter st) 1 []]) st"

lemma add_tunnel_accesses:
  "add_tunnel t ch st =
     (if im_contains_key (st_tunnels st) (tun_local t) then (Inl TunnelExists, st)
      else (Inr (), add_tunnel_insert t ch st))"
  by (simp add: add_tunnel_def add_tunnel_insert_def Let_def)

lemma raced_inserts:
  assumes "tun_local t1 = tun_local t2"
  shows "add_tunnel_insert t2 ch2 (add_tunnel_insert t1 ch1 st) =
    put_tunnel (tun_local t2)
      (new_TunnelInfo ch2 (tun_remote t2)
         (case tun_options t2 of Some opts \<Rightarrow> opts | None \<Rightarrow> st_default_options st),
       [Add (st_tunnels_counter st) 1 [], Add (st_tunnels_counter st) 1 []]) st"
proof -
  have "st_default_options (put_tunnel l res st) = st_default_options st"
    "st_tunnels_counter (put_tunnel l res st) = st_tunnels_counter st" for l res
    by (simp_all add: put_tunnel_def)
  then show ?thesis
    by (simp add: add_tunnel_insert_def assms put_tunnel_twice split: option.split cong: option.case_cong)
qed

end
