(* ===== verification/Protocol.thy ===== *)
theory Protocol
  imports Admin
begin

text \<open>
  The control protocol (\<open>src/controller/protocol.rs\<close>, its codec \<open>src/controller/protocol/codec.rs\<close>
  and the connection loop of \<open>src/controller.rs\<close>): a request is one line of text, a response one
  or more lines. The parser library is the parameter \<open>N\<close>, the process-wide default options \<open>d\<close>.
\<close>

definition MAX_LINE_LENGTH :: nat where
  "MAX_LINE_LENGTH = 1024"

text \<open>Both halves of a connection get a codec with this limit, by the library's constructor.\<close>

definition split_socket :: "(nat \<Rightarrow> 'codec) \<Rightarrow> 'codec \<times> 'codec" where
  "split_socket new_with_max_length =
     (new_with_max_length MAX_LINE_LENGTH, new_with_max_length MAX_LINE_LENGTH)"

datatype CommandRequest =
    Open Tunnel
  | Close SocketSpec
  | Status bool
  | Detail SocketSpec
  | Help
  | Exit
  | Invalid Error
  | Add SocketSpec SocketSpec
  | Remove SocketSpec SocketSpec

datatype CommandResponse =
    OK
  | Problem "Error option"
  | Info string "string list option"
  | Done

subsection \<open>Requests\<close>

text \<open>
  The arguments of a request: the rest of the line after its first blank, and two
  specifications in it, separated by a blank.
\<close>

definition args :: "string option \<Rightarrow> string result" where
  "args rest =
     (case rest of None \<Rightarrow> Inl (ControlProtocolError ''Missing argument'') | Some s \<Rightarrow> Inr s)"

definition one_socket :: "nom \<Rightarrow> string option \<Rightarrow> SocketSpec result" where
  "one_socket N rest = (case args rest of Inl e \<Rightarrow> Inl e | Inr s \<Rightarrow> spec_from_str N s)"

definition two_sockets :: "nom \<Rightarrow> string option \<Rightarrow> (SocketSpec \<times> SocketSpec) result" where
  "two_sockets N rest =
     (case args rest of
        Inl e \<Rightarrow> Inl e
      | Inr s \<Rightarrow>
          (case splitn2 CHR '' '' s of (first, second) \<Rightarrow>
             (case spec_from_str N first of
                Inl e \<Rightarrow> Inl e
              | Inr l \<Rightarrow>
                  (case second of
                     None \<Rightarrow> Inl (ControlProtocolError ''Missing remote socket spec'')
                   | Some s' \<Rightarrow>
                       (case spec_from_str N s' of
                          Inl e \<Rightarrow> Inl e
                        | Inr r \<Rightarrow> Inr (l, r))))))"

definition status_arg :: "string option \<Rightarrow> CommandRequest result" where
  "status_arg rest =
     (let scale = (case args rest of Inl _ \<Rightarrow> '''' | Inr s \<Rightarrow> to_upper s)
      in if scale \<in> {''LONG'', ''FULL''} then Inr (Status True)
         else if scale \<in> {''SHORT'', ''''} then Inr (Status False)
         else Inl (ControlProtocolError ''Invalid argument to STATUS''))"

definition command_from_str :: "nom \<Rightarrow> TunnelOptions \<Rightarrow> string \<Rightarrow> CommandRequest result" where
  "command_from_str N d s =
     (case splitn2 CHR '' '' s of (first, rest) \<Rightarrow>
        let cmd = to_upper first
        in if cmd = ''STATUS'' then status_arg rest
           else if cmd = ''OPEN''
           then (case args rest of
                   Inl e \<Rightarrow> Inl e
                 | Inr a \<Rightarrow>
                     (case tunnel_from_str N d a of Inl e \<Rightarrow> Inl e | Inr t \<Rightarrow> Inr (Open t)))
           else if cmd = ''HELP'' then Inr Help
           else if cmd = ''EXIT'' then Inr Exit
           else if cmd = ''CLOSE''
           then (case one_socket N rest of Inl e \<Rightarrow> Inl e | Inr l \<Rightarrow> Inr (Close l))
           else if cmd = ''DETAIL''
           then (case one_socket N rest of Inl e \<Rightarrow> Inl e | Inr l \<Rightarrow> Inr (Detail l))
           else if cmd = ''ADD''
           then (case two_sockets N rest of Inl e \<Rightarrow> Inl e | Inr (l, r) \<Rightarrow> Inr (Add l r))
           else if cmd = ''REMOVE''
           then (case two_sockets N rest of Inl e \<Rightarrow> Inl e | Inr (l, r) \<Rightarrow> Inr (Remove l r))
           else Inl (ControlProtocolError (''Invalid command: '' @ cmd)))"

text \<open>
  Decoding and encoding. What the line codec of the library returns is an argument: the next
  line, nothing yet, or an error; and the text appended for a response, or an error.
\<close>

definition decode ::
  "nom \<Rightarrow> TunnelOptions \<Rightarrow> string + string option \<Rightarrow> CommandRequest option result" where
  "decode N d res =
     (case res of
        Inl e \<Rightarrow> Inl (ControlProtocolLineError e)
      | Inr None \<Rightarrow> Inr None
      | Inr (Some line) \<Rightarrow>
          Inr (Some (case command_from_str N d line of Inl e \<Rightarrow> Invalid e | Inr c \<Rightarrow> c)))"

subsection \<open>Responses\<close>

text \<open>The numbered lines of the details: a line feed after each but the last.\<close>

fun show_details :: "nat \<Rightarrow> nat \<Rightarrow> string list \<Rightarrow> string" where
  "show_details n len [] = []"
| "show_details n len (l # ls) =
     [CHR 9] @ l @ (if n < len - 1 then [CHR 10] else []) @ show_details (Suc n) len ls"

fun response_to_string :: "CommandResponse \<Rightarrow> string" where
  "response_to_string Done = ''DONE''"
| "response_to_string OK = ''OK''"
| "response_to_string (Problem msg) =
     ''SORRY'' @ (case msg of Some e \<Rightarrow> '': '' @ error_to_string e | None \<Rightarrow> [])"
| "response_to_string (Info short details) =
     ''OK: '' @ short
     @ (case details of None \<Rightarrow> [] | Some ls \<Rightarrow> [CHR 10] @ show_details 0 (length ls) ls)"

definition encode :: "(string \<Rightarrow> string + string) \<Rightarrow> CommandResponse \<Rightarrow> string result" where
  "encode lines_encode item =
     (case lines_encode (response_to_string item) of
        Inl e \<Rightarrow> Inl (ControlProtocolLineError e)
      | Inr bytes \<Rightarrow> Inr bytes)"

definition from_result :: "'a result \<Rightarrow> CommandResponse" where
  "from_result res = (case res of Inr _ \<Rightarrow> OK | Inl e \<Rightarrow> Problem (Some e))"

subsection \<open>Execution\<close>

definition status_line :: "SocketSpec \<times> TunnelStats \<Rightarrow> string" where
  "status_line ls =
     (case ls of (l, s) \<Rightarrow>
        spec_to_string l @ '' = open conns '' @ show_word (ts_streams_open s)
        @ '', total conns '' @ show_word (ts_total_connections s)
        @ '', bytes sent '' @ show_word (ts_bytes_sent s)
        @ '', received '' @ show_word (ts_bytes_received s)
        @ '', total errors '' @ show_word (ts_errors s))"

definition detail_line :: "SocketSpec \<times> RemoteStats \<Rightarrow> string" where
  "detail_line rs =
     (case rs of (r, s) \<Rightarrow>
        spec_to_string r @ '' = open conns '' @ show_word (rs_streams_open s)
        @ '', total conns '' @ show_word (rs_total_connections s)
        @ '', bytes sent '' @ show_word (rs_bytes_sent s)
        @ '', received '' @ show_word (rs_bytes_received s)
        @ '', recent errors '' @ show_word (rs_num_errors s)
        @ '', total errors '' @ show_word (rs_total_errors s))"

definition status_text :: "nat \<Rightarrow> string" where
  "status_text n = ''Tunnels: '' @ show_nat n"

definition detail_text :: "nat \<Rightarrow> nat \<Rightarrow> TunnelOptions \<Rightarrow> string" where
  "detail_text live dead opts =
     ''Remotes: '' @ show_nat live @ '', Dead Remotes: '' @ show_nat dead
     @ '', Options: '' @ options_to_string opts"

definition help_lines :: "string list" where
  "help_lines =
     [''OPEN tunnel'', ''CLOSE tunnel'', ''ADD socket_address'', ''REMOVE socket_address'',
      ''STATUS [full|long]'', ''DETAIL tunnel'', ''EXIT'', ''HELP'']"

text \<open>
  The response, or \<open>None\<close> if the task panics. The queries of \<open>STATUS\<close> and of \<open>DETAIL\<close> are
  accesses of their own, between which the other tasks go on.
\<close>

fun exec :: "Env \<Rightarrow> CommandRequest \<Rightarrow> State \<Rightarrow> CommandResponse option \<times> State" where
  "exec env (Open t) st =
     (case start_tunnel env t st of (res, st') \<Rightarrow> (map_option from_result res, st'))"
| "exec env (Close l) st =
     (case stop_tunnel l st of (res, st') \<Rightarrow> (Some (from_result res), st'))"
| "exec env (Invalid e) st = (Some (Problem (Some e)), st)"
| "exec env Exit st = (Some Done, st)"
| "exec env (Status long) st =
     (if number_of_tunnels st = 0 then (Some (Info ''No tunnels'' None), st)
      else let st1 = env_acts env 1 st;
               short = status_text (number_of_tunnels st1)
           in if long
              then let st2 = env_acts env 2 st1
                   in (Some (Info short (Some (map status_line (stats st2)))), st2)
              else (Some (Info short None), st1))"
| "exec env (Detail l) st =
     (case remotes l st of
        Inl e \<Rightarrow> (Some (Problem (Some e)), st)
      | Inr (rs, dead) \<Rightarrow>
          let st1 = env_acts env 1 st
          in (case tunnel_options l st1 of
                Inl e \<Rightarrow> (Some (Problem (Some e)), st1)
              | Inr opts \<Rightarrow>
                  (Some (Info (detail_text (length rs) dead opts) (Some (map detail_line rs))), st1)))"
| "exec env Help st = (Some (Info ''commands'' (Some help_lines)), st)"
| "exec env (Add l r) st =
     (case add_remote_to_tunnel l r st of (res, st') \<Rightarrow> (Some (from_result res), st'))"
| "exec env (Remove l r) st =
     (case remove_remote_from_tunnel l r st of (res, st') \<Rightarrow> (Some (from_result res), st'))"

subsection \<open>A connection\<close>

text \<open>
  The loop over the decoded items: a request, or an error of the connection. It returns the
  responses handed to the writer, whether they are sent or not, the state, and how it ended.
  Before each item the other tasks act on the state.
\<close>

datatype loop_end = EndOfInput | AfterExit | LoopPanicked

definition respond :: "Env \<Rightarrow> CommandRequest result \<Rightarrow> State \<Rightarrow> CommandResponse option \<times> State" where
  "respond env item st =
     (case item of
        Inr c \<Rightarrow> exec env c (env_acts env 0 st)
      | Inl e \<Rightarrow> (Some (Problem (Some e)), env_acts env 0 st))"

fun control_loop ::
  "(Env \<times> CommandRequest result) list \<Rightarrow> State \<Rightarrow> CommandResponse list \<times> State \<times> loop_end" where
  "control_loop [] st = ([], st, EndOfInput)"
| "control_loop ((env, item) # items) st =
     (case respond env item st of
        (None, st') \<Rightarrow> ([], st', LoopPanicked)
      | (Some resp, st') \<Rightarrow>
          if resp = Done then ([], st', AfterExit)
          else (case control_loop items st' of (resps, st'', e) \<Rightarrow> (resp # resps, st'', e)))"

end
