(* ===== verification/Views.thy ===== *)
theory Views
  imports System
begin

text \<open>
  What of a tunnel only its own clients and its administration change. An operation that is
  about a remote end, a check or a selection leaves it alone: this is proved once, for any view
  of a tunnel that does not look at its remotes, its errors and its traffic, and used for the
  count of open streams and for the close channel.
\<close>

definition view :: "(TunnelInfo \<Rightarrow> 'b) \<Rightarrow> State \<Rightarrow> SocketSpec \<Rightarrow> 'b option" where
  "view g st = (\<lambda>l. map_option g (get_tunnel st l))"

lemma view_put: "view g (put_tunnel l res st) = (view g st)(l \<mapsto> g (fst res))"
  by (simp add: view_def fun_eq_iff)

lemma view_same: "st_tunnels st' = st_tunnels st \<Longrightarrow> view g st' = view g st"
  by (simp add: view_def)

lemma view_at: "get_tunnel st l = Some ti \<Longrightarrow> view g st l = Some (g ti)"
  by (simp add: view_def)

lemma view_end_task: "view g (end_task t st) = view g st"
  by (rule view_same) simp

lemma view_check_dead: "view g (snd (check_dead l r t a c st)) = view g st"
  by (rule view_same) simp

lemma view_add_tunnel:
  "view g (snd (add_tunnel t ch st)) =
     (if get_tunnel st (tun_local t) = None
      then (view g st)(tun_local t \<mapsto> g (new_TunnelInfo ch (tun_remote t)
             (case tun_options t of Some opts \<Rightarrow> opts | None \<Rightarrow> st_default_options st)))
      else view g st)"
  by (simp add: add_tunnel_def im_contains_key_def Let_def view_put)

lemma view_remove_tunnel: "wf_state st \<Longrightarrow> view g (snd (remove_tunnel l st)) = (view g st)(l := None)"
  by (simp add: view_def fun_eq_iff remove_tunnel_lookup)

locale tunnel_view =
  fixes g :: "TunnelInfo \<Rightarrow> 'b"
  assumes remotes: "g (ti\<lparr>ti_remotes := m\<rparr>) = g ti"
    and dead_remotes: "g (ti\<lparr>ti_dead_remotes := m'\<rparr>) = g ti"
    and last_selected: "g (ti\<lparr>ti_last_selected_index := i\<rparr>) = g ti"
    and errors: "g (fst (ti_remote_error l r ti)) = g ti"
    and moved: "g (fst (ti_update_moved_bytes sent n l ti)) = g ti"
begin

lemma on_remote_view: "g (fst (on_remote r f res)) = g (fst res)"
  by (simp only: fst_on_remote remotes)

lemma put_keep: "get_tunnel st l = Some ti \<Longrightarrow> g (fst res) = g ti \<Longrightarrow> view g (put_tunnel l res st) = view g st"
  by (simp add: view_put) (simp add: view_def fun_eq_iff)

lemma quiet:
  "view g (remote_connected l r st) = view g st"
  "view g (update_transferred l r sent n st) = view g st"
  "view g (snd (add_remote_to_tunnel l r st)) = view g st"
  "view g (snd (remove_remote_from_tunnel l r st)) = view g st"
  by (auto simp: remote_connected_def update_transferred_def add_remote_to_tunnel_def
      remove_remote_from_tunnel_def on_remote_view remotes dead_remotes moved
      intro!: put_keep split: option.split)

lemma select:
  assumes "select_remote rnd l st = Some (res, st')"
  shows "view g st' = view g st"
proof (cases "get_tunnel st l")
  case None
  with assms show ?thesis by (simp add: select_remote_def)
next
  case (Some ti)
  with assms show ?thesis
    by (cases rule: ti_select_remote_cases [of ti rnd])
      (auto simp: select_remote_def im_contains_key_def on_remote_view last_selected intro!: put_keep)
qed

lemma remote_error: "view g (outcome_state (remote_error now l r c opts st)) = view g st"
proof (cases "get_tunnel st l")
  case None
  then show ?thesis by (simp add: remote_error_def)
next
  case (Some ti)
  then show ?thesis
    by (auto simp: remote_error_def Let_def case_prod_beta view_put view_check_dead view_at
        on_remote_view remotes dead_remotes errors fun_upd_idem split: option.split)
qed

lemma dead_check: "view g (dead_check_done now ok t st) = view g st"
proof (cases "im_get (st_tasks st) t")
  case None
  then show ?thesis by (simp add: dead_check_done_def)
next
  case dc: (Some dc)
  show ?thesis
  proof (cases "get_tunnel st (dc_local dc)")
    case None
    with dc show ?thesis by (simp add: dead_check_done_def view_end_task)
  next
    case (Some ti)
    have "g (ti\<lparr>ti_dead_remotes := m, ti_remotes := m'\<rparr>) = g ti" for m m'
      by (simp only: remotes dead_remotes)
    with dc Some show ?thesis
      by (auto simp: dead_check_done_def Let_def case_prod_beta view_put view_check_dead view_end_task
          view_at dead_remotes errors fun_upd_idem split: option.split)
  qed
qed

end

interpretation open_streams: tunnel_view "\<lambda>ti. ts_streams_open (ti_stats ti)"
  by unfold_locales (simp_all add: ti_defs Let_def)

interpretation close_channel: tunnel_view ti_close_channel
  by unfold_locales (simp_all add: ti_defs Let_def)

end
