(* ===== verification/Counters.thy ===== *)
theory Counters
  imports Views
begin

text \<open>
  What the counters of open and pending streams mean: how each operation of the state changes
  them, and that they count the connections of the transition system: those of a tunnel exactly,
  as long as that tunnel is not closed; those of a remote exactly, as long as that remote is
  neither removed nor found dead. The runs of \<open>Churn\<close> show that these conditions are needed.
\<close>

subsection \<open>The counters of a state\<close>

definition tunnel_open :: "State \<Rightarrow> SocketSpec \<Rightarrow> u64 option" where
  "tunnel_open = view (\<lambda>ti. ts_streams_open (ti_stats ti))"

lemma tunnel_open_apply:
  "tunnel_open st l = map_option (\<lambda>ti. ts_streams_open (ti_stats ti)) (get_tunnel st l)"
  by (simp add: tunnel_open_def view_def)

text \<open>Pending and open streams of a live remote.\<close>

definition stream_counts :: "RemoteInfo \<Rightarrow> u64 \<times> u64" where
  "stream_counts ri = (rs_streams_pending (ri_stats ri), rs_streams_open (ri_stats ri))"

definition live_counts :: "State \<Rightarrow> SocketSpec \<Rightarrow> SocketSpec \<Rightarrow> (u64 \<times> u64) option" where
  "live_counts st l r =
     Option.bind (get_tunnel st l) (\<lambda>ti. map_option stream_counts (im_get (ti_remotes ti) r))"

definition not_dead :: "SocketSpec \<Rightarrow> SocketSpec \<Rightarrow> State \<Rightarrow> bool" where
  "not_dead l r st \<longleftrightarrow>
     (case get_tunnel st l of None \<Rightarrow> True | Some ti \<Rightarrow> im_get (ti_dead_remotes ti) r = None)"

lemma not_deadD: "not_dead l r st \<Longrightarrow> get_tunnel st l = Some ti \<Longrightarrow> im_get (ti_dead_remotes ti) r = None"
  by (simp add: not_dead_def)

lemma live_counts_put:
  "live_counts (put_tunnel l res st) =
     (live_counts st)(l := (\<lambda>r. map_option stream_counts (im_get (ti_remotes (fst res)) r)))"
  by (simp add: live_counts_def fun_eq_iff)

lemma live_counts_keep:
  "get_tunnel st l = Some ti \<Longrightarrow> im_get (ti_remotes (fst res)) = im_get (ti_remotes ti)
    \<Longrightarrow> live_counts (put_tunnel l res st) = live_counts st"
  by (simp add: live_counts_put) (simp add: live_counts_def fun_eq_iff)

lemma live_counts_same: "st_tunnels st' = st_tunnels st \<Longrightarrow> live_counts st' = live_counts st"
  by (simp add: live_counts_def fun_eq_iff)

lemma ti_stats_open [simp]:
  "ts_streams_open (ti_stats (fst (ti_client_connected l ti))) = ts_streams_open (ti_stats ti) + 1"
  "ts_streams_open (ti_stats (fst (ti_client_disconnected l ti))) = ts_streams_open (ti_stats ti) - 1"
  "ts_streams_open (ti_stats (fst (ti_remote_error l r ti))) = ts_streams_open (ti_stats ti)"
  "ts_streams_open (ti_stats (fst (ti_update_moved_bytes b n l ti))) = ts_streams_open (ti_stats ti)"
  by (simp_all add: ti_defs Let_def)

subsection \<open>Open streams of a tunnel\<close>

lemma tunnel_open_client:
  "tunnel_open (client_connected l st) =
     (tunnel_open st)(l := map_option (\<lambda>n. n + 1) (tunnel_open st l))"
  "tunnel_open (client_disconnected l r st) =
     (tunnel_open st)(l := map_option (\<lambda>n. n - 1) (tunnel_open st l))"
  by (cases "get_tunnel st l";
      simp add: client_connected_def client_disconnected_def tunnel_open_apply fun_eq_iff
        split: option.split)+

text \<open>Every other operation on an existing tunnel leaves the count alone.\<close>

lemmas tunnel_open_quiet = open_streams.quiet [folded tunnel_open_def]
  open_streams.dead_check [folded tunnel_open_def]

lemmas tunnel_open_select = open_streams.select [folded tunnel_open_def]

lemmas tunnel_open_remote_error = open_streams.remote_error [folded tunnel_open_def]

lemma tunnel_open_add_tunnel:
  "tunnel_open (snd (add_tunnel t ch st)) =
     (if get_tunnel st (tun_local t) = None then (tunnel_open st)(tun_local t \<mapsto> 0) else tunnel_open st)"
  by (simp add: tunnel_open_def view_add_tunnel new_TunnelInfo_def default_TunnelStats_def)

text \<open>
  The connections of a tunnel: those in progress, from joining to leaving, and those whose task
  has panicked. Nothing is left of the latter but their counts, since the task ends where it
  panics; both kinds are counted as open.
\<close>

definition in_progress :: "SocketSpec \<Rightarrow> Session \<Rightarrow> bool" where
  "in_progress l se \<longleftrightarrow> se_tunnel se = l \<and>
     (case se_pc se of
        Counted \<Rightarrow> True | Looping \<Rightarrow> True | Connecting r opts \<Rightarrow> True | Copying r \<Rightarrow> True | Finishing \<Rightarrow> True
      | _ \<Rightarrow> False)"

definition panicked_in :: "SocketSpec \<Rightarrow> Session \<Rightarrow> bool" where
  "panicked_in l se \<longleftrightarrow> se_tunnel se = l \<and> session_panicked se"

definition counted_in :: "SocketSpec \<Rightarrow> Session \<Rightarrow> bool" where
  "counted_in l se \<longleftrightarrow> in_progress l se \<or> panicked_in l se"

lemmas counted_in_defs = counted_in_def in_progress_def panicked_in_def session_panicked_def

lemma session_trans_tunnel: "session_trans ev se st se' st' \<Longrightarrow> se_tunnel se' = se_tunnel se"
  by (induction rule: session_trans.induct) auto

lemma tunnel_open_session:
  assumes "session_trans ev se st se' st'" and "se_tunnel se = l \<Longrightarrow> tunnel_open st l \<noteq> None"
  shows "tunnel_open st' l
    = map_option (\<lambda>n. n + of_bool (counted_in l se') - of_bool (counted_in l se)) (tunnel_open st l)"
proof -
  have keep: ?thesis if "tunnel_open st' = tunnel_open st" and "counted_in l se' = counted_in l se"
    unfolding that by (simp add: option.map_ident)
  from assms(1) show ?thesis
  proof cases
    case joins
    then show ?thesis by (cases "tunnel_open st l") (auto simp: tunnel_open_client counted_in_defs)
  next
    case leaves
    then show ?thesis by (cases "tunnel_open st l") (auto simp: tunnel_open_client counted_in_defs)
  next
    case (refused e)
    with assms(2) have "se_tunnel se \<noteq> l" by (auto simp: remote_retries_def tunnel_open_apply split: option.splits)
    with refused show ?thesis by (intro keep) (simp_all add: counted_in_defs)
  next
    case (attempt_fails r opts now)
    with tunnel_open_remote_error [of now "se_tunnel se" r "se_client se" opts st]
    show ?thesis by (intro keep) (simp_all add: counted_in_defs)
  next
    case (error_panics r opts now)
    with tunnel_open_remote_error [of now "se_tunnel se" r "se_client se" opts st]
    show ?thesis by (intro keep) (simp_all add: counted_in_defs)
  qed (intro keep; simp add: counted_in_defs tunnel_open_quiet tunnel_open_select)+
qed

text \<open>
  A run in which tunnel \<open>l\<close> is not closed; what happens to the other tunnels does not matter.
\<close>

definition keeps_tunnel :: "SocketSpec \<Rightarrow> sys_event \<Rightarrow> Sys \<Rightarrow> bool" where
  "keeps_tunnel l ev s' \<longleftrightarrow> (case ev of StopTunnel l' \<Rightarrow> l' \<noteq> l | _ \<Rightarrow> True)"

definition never_closed :: "SocketSpec \<Rightarrow> State \<Rightarrow> Sys \<Rightarrow> bool" where
  "never_closed l st0 s \<longleftrightarrow> (\<exists>n. reachable (keeps_tunnel l) (new_Sys st0) n s)"

definition count_sessions :: "(Session \<Rightarrow> bool) \<Rightarrow> Sys \<Rightarrow> nat" where
  "count_sessions P s = length (filter P (sys_sessions s))"

definition open_inv :: "SocketSpec \<Rightarrow> Sys \<Rightarrow> bool" where
  "open_inv l s \<longleftrightarrow>
     (case tunnel_open (sys_state s) l of
        None \<Rightarrow> (\<forall>h \<in> set (sys_handlers s). th_tunnel_key h \<noteq> l)
          \<and> (\<forall>se \<in> set (sys_sessions s). se_tunnel se \<noteq> l)
      | Some n \<Rightarrow> n = of_nat (count_sessions (counted_in l) s))"

lemma open_inv_same:
  assumes "open_inv l s" and "tunnel_open (sys_state s') l = tunnel_open (sys_state s) l"
    and "sys_sessions s' = sys_sessions s" and "set (sys_handlers s') \<subseteq> set (sys_handlers s)"
  shows "open_inv l s'"
  using assms by (auto simp: open_inv_def count_sessions_def split: option.splits)

lemma open_inv_bound:
  assumes "open_inv l s" and "sys_exec (Bound i b) s = Some s'"
  shows "open_inv l s'"
proof -
  let ?t = "sys_starting s ! i" and ?st = "sys_state s"
  from assms(2) consider (same) "tunnel_open (sys_state s') = tunnel_open ?st"
      "sys_sessions s' = sys_sessions s" "sys_handlers s' = sys_handlers s"
    | (new) "get_tunnel ?st (tun_local ?t) = None"
      "tunnel_open (sys_state s') = (tunnel_open ?st)(tun_local ?t \<mapsto> 0)"
      "sys_sessions s' = sys_sessions s"
      "sys_handlers s' = sys_handlers s @ [\<lparr>th_tunnel_key = tun_local ?t, th_close_channel = sys_next_channel s\<rparr>]"
    using tunnel_open_add_tunnel [of ?t "sys_next_channel s" ?st]
    by (auto simp: create_tunnel_bound_def add_tunnel_def im_contains_key_def Let_def
        split: if_splits sum.splits prod.splits)
  then show ?thesis
  proof cases
    case same
    with assms(1) show ?thesis by (auto intro: open_inv_same)
  next
    case new
    show ?thesis
    proof (cases "l = tun_local ?t")
      case True
      with new assms(1) have "\<forall>se \<in> set (sys_sessions s). \<not> counted_in l se"
        by (auto simp: open_inv_def counted_in_defs tunnel_open_apply)
      then have "filter (counted_in l) (sys_sessions s) = []" by (simp add: filter_empty_conv)
      with new True show ?thesis by (simp add: open_inv_def count_sessions_def)
    next
      case False
      with new assms(1) show ?thesis
        by (auto simp: open_inv_def count_sessions_def split: option.splits)
    qed
  qed
qed

lemma open_inv_session:
  assumes "open_inv l s" and "sys_exec (SessionStep i ev) s = Some s'"
  shows "open_inv l s'"
proof -
  let ?se = "sys_sessions s ! i"
  from assms(2) obtain se' st' where i: "i < length (sys_sessions s)"
    and step: "session_trans ev ?se (sys_state s) se' st'"
    and s': "s' = s\<lparr>sys_state := st', sys_sessions := (sys_sessions s)[i := se']\<rparr>"
    by (auto split: if_splits option.splits dest: session_step_trans)
  have "tunnel_open (sys_state s) l \<noteq> None" if "se_tunnel ?se = l"
    using assms(1) nth_mem [OF i] that by (auto simp: open_inv_def split: option.splits)
  note delta = tunnel_open_session [OF step this]
  have "\<forall>se \<in> set ((sys_sessions s)[i := se']). se_tunnel se \<noteq> l"
    if "\<forall>se \<in> set (sys_sessions s). se_tunnel se \<noteq> l"
    using that nth_mem [OF i] session_trans_tunnel [OF step] set_update_subset_insert [of "sys_sessions s" i se']
    by fastforce
  with assms(1) i show ?thesis
    by (auto simp: open_inv_def s' delta count_sessions_def of_nat_filter_update split: option.splits)
qed

lemma open_inv_exec:
  assumes "wf_state (sys_state s)" and "open_inv l s" and "sys_exec ev s = Some s'"
    and "keeps_tunnel l ev s'"
  shows "open_inv l s'"
proof (cases ev)
  case (Bound i b)
  with assms open_inv_bound show ?thesis by blast
next
  case (SessionStep i e)
  with assms open_inv_session show ?thesis by blast
next
  case (StopTunnel l')
  with assms(3) have "sys_state s' = snd (remove_tunnel l' (sys_state s))"
    and "sys_sessions s' = sys_sessions s" "sys_handlers s' = sys_handlers s"
    by (auto simp: stop_tunnel_def split: sum.splits prod.splits)
  with StopTunnel assms show ?thesis
    by (intro open_inv_same [OF assms(2)])
      (simp_all add: tunnel_open_def view_remove_tunnel keeps_tunnel_def)
next
  case (Accepted i c)
  with assms(3) have i: "i < length (sys_handlers s)"
    and s': "s' = s\<lparr>sys_sessions := sys_sessions s @ [run_tunnel_accept (sys_handlers s ! i) c]\<rparr>"
    by (auto split: if_splits)
  then have "\<not> counted_in l (run_tunnel_accept (sys_handlers s ! i) c)"
    by (simp add: run_tunnel_accept_def new_session_def counted_in_defs)
  with assms(2) i s' show ?thesis
    by (auto simp: open_inv_def count_sessions_def run_tunnel_accept_def new_session_def
        split: option.splits)
next
  case (TunnelFinished i)
  with assms(2,3) show ?thesis
    by (auto simp: remove_nth_def split: if_splits intro!: open_inv_same [OF assms(2)]
        dest: in_set_takeD in_set_dropD)
qed (use assms in \<open>auto split: option.splits sum.splits intro: open_inv_same
       simp: tunnel_open_quiet\<close>)

interpretation open_count: sys_invariant "keeps_tunnel l" "open_inv l" for l
  by unfold_locales (rule open_inv_exec)

lemma open_inv_new: "st_tunnels st = [] \<Longrightarrow> open_inv l (new_Sys st)"
  by (simp add: open_inv_def new_Sys_def tunnel_open_apply)

lemma new_State_no_tunnels: "new_State args opts c = Inr st \<Longrightarrow> st_tunnels st = []"
  by (auto simp: new_State_def split: sum.splits)

lemma open_streams_count:
  assumes "new_State args opts c = Inr st0" and "reachable (keeps_tunnel l) (new_Sys st0) n s"
    and "get_tunnel (sys_state s) l = Some ti"
  shows "ts_streams_open (ti_stats ti) = of_nat (count_sessions (counted_in l) s)"
proof -
  have "open_inv l s"
    using open_count.always [OF assms(2) wf_new_Sys [OF assms(1)]]
      open_inv_new [OF new_State_no_tunnels [OF assms(1)]] by blast
  with assms(3) show ?thesis by (simp add: open_inv_def tunnel_open_apply)
qed

text \<open>
  A run through states in which the configuration of tunnel \<open>l\<close> makes sense, that is with a
  connection timeout that is a duration and remotes that are a host and a port. In such a run no
  session of it has panicked.
\<close>

definition always_sane :: "SocketSpec \<Rightarrow> State \<Rightarrow> Sys \<Rightarrow> bool" where
  "always_sane l st0 s \<longleftrightarrow> (\<exists>n. reachable (\<lambda>ev s'. sane_tunnel l (sys_state s')) (new_Sys st0) n s)"

definition no_panic_inv :: "SocketSpec \<Rightarrow> Sys \<Rightarrow> bool" where
  "no_panic_inv l s \<longleftrightarrow> sane_tunnel l (sys_state s)
     \<and> (\<forall>se \<in> set (sys_sessions s). session_ok se \<and> \<not> panicked_in l se)"

lemma no_panic_inv_exec:
  assumes "no_panic_inv l s" and "sys_exec ev s = Some s'" and "sane_tunnel l (sys_state s')"
  shows "no_panic_inv l s'"
proof (cases ev)
  case (SessionStep i e)
  let ?se = "sys_sessions s ! i"
  from SessionStep assms(2) obtain se' st' where i: "i < length (sys_sessions s)"
    and step: "session_trans e ?se (sys_state s) se' st'"
    and s': "s' = s\<lparr>sys_state := st', sys_sessions := (sys_sessions s)[i := se']\<rparr>"
    by (auto split: if_splits option.splits dest: session_step_trans)
  have old: "session_ok ?se" "\<not> panicked_in l ?se"
    using assms(1) nth_mem [OF i] by (auto simp: no_panic_inv_def)
  have "session_ok se' \<and> \<not> panicked_in l se'"
    using session_ok_step [OF step old(1)] session_step_no_panic [OF step old(1)] old(2) assms(1)
      session_trans_tunnel [OF step]
    by (auto simp: panicked_in_def no_panic_inv_def)
  with assms(1,3) s' set_update_subset_insert [of "sys_sessions s" i se'] show ?thesis
    by (auto simp: no_panic_inv_def)
next
  case (Accepted i c)
  with assms show ?thesis
    by (auto simp: no_panic_inv_def run_tunnel_accept_def panicked_in_def session_panicked_def new_session_def
        session_ok_def split: if_splits)
qed (use assms in \<open>auto simp: no_panic_inv_def split: option.splits sum.splits prod.splits if_splits\<close>)

interpretation no_panic: sys_invariant "\<lambda>ev s'. sane_tunnel l (sys_state s')" "no_panic_inv l" for l
  by unfold_locales (rule no_panic_inv_exec)

lemma sane_run_no_panic:
  assumes "new_State args opts c = Inr st0" and "always_sane l st0 s"
  shows "\<forall>se \<in> set (sys_sessions s). \<not> panicked_in l se"
proof -
  have "no_panic_inv l (new_Sys st0)"
    by (simp add: no_panic_inv_def new_Sys_def sane_tunnel_def new_State_no_tunnels [OF assms(1)])
  then show ?thesis
    using no_panic.always [OF _ wf_new_Sys [OF assms(1)]] assms(2)
    by (auto simp: always_sane_def no_panic_inv_def)
qed

lemma sane_run_counts:
  assumes "new_State args opts c = Inr st0" and "always_sane l st0 s" and "\<And>se. P se \<Longrightarrow> panicked_in l se"
  shows "count_sessions P s = 0"
  using sane_run_no_panic [OF assms(1,2)] assms(3) by (auto simp: count_sessions_def filter_empty_conv)

lemma count_sessions_disjoint:
  "(\<And>se. \<not> (P se \<and> Q se)) \<Longrightarrow> count_sessions (\<lambda>se. P se \<or> Q se) s = count_sessions P s + count_sessions Q s"
proof -
  assume "\<And>se. \<not> (P se \<and> Q se)"
  then have "length (filter (\<lambda>se. P se \<or> Q se) xs) = length (filter P xs) + length (filter Q xs)" for xs
    by (induction xs) auto
  then show ?thesis by (simp add: count_sessions_def)
qed

lemma count_counted_in:
  "count_sessions (counted_in l) s = count_sessions (in_progress l) s + count_sessions (panicked_in l) s"
  using count_sessions_disjoint [of "in_progress l" "panicked_in l" s]
  by (simp add: counted_in_defs counted_in_def [abs_def] split: session_pc.split)

text \<open>
  C4: as long as a tunnel is not closed, the open streams reported for it are exactly its client
  connections in progress and those whose task has panicked, in every interleaving of connections,
  checks and administration, the opening and closing of other tunnels included: no connection is
  counted twice and none is forgotten, whichever of its error paths it takes. If the connection
  timeout of the tunnel was a duration and its remotes a host and a port all the time, no task has
  panicked and they are exactly the connections in progress; otherwise a panicked task stays
  counted for ever.
\<close>

theorem open_streams_exact:
  assumes "new_State args opts c = Inr st0" and "reachable (keeps_tunnel l) (new_Sys st0) n s"
    and "get_tunnel (sys_state s) l = Some ti"
  shows "ts_streams_open (ti_stats ti)
      = of_nat (count_sessions (in_progress l) s + count_sessions (panicked_in l) s)
    \<and> (always_sane l st0 s \<longrightarrow> ts_streams_open (ti_stats ti) = of_nat (count_sessions (in_progress l) s))"
  using open_streams_count [OF assms] sane_run_counts [OF assms(1), of l s "panicked_in l"]
  by (simp add: count_counted_in)

subsection \<open>Streams of a remote\<close>

text \<open>The change of the counters of one live remote.\<close>

definition on_counts ::
  "State \<Rightarrow> SocketSpec \<Rightarrow> SocketSpec \<Rightarrow> u64 \<times> u64 \<Rightarrow> SocketSpec \<Rightarrow> SocketSpec \<Rightarrow> (u64 \<times> u64) option" where
  "on_counts st l r d =
     (live_counts st)(l := (live_counts st l)
       (r := map_option (\<lambda>(p, q). (p + fst d, q + snd d)) (live_counts st l r)))"

lemma on_counts_none: "live_counts st l r = None \<Longrightarrow> on_counts st l r d = live_counts st"
  by (simp add: on_counts_def fun_upd_idem)

lemma on_counts_zero: "on_counts st l r (0, 0) = live_counts st"
  by (cases "live_counts st l r") (auto simp: on_counts_def fun_upd_idem)

lemma live_counts_method:
  assumes "get_tunnel st l = Some ti" and "ti_remotes (fst res) = ti_remotes ti"
    and "\<And>ri. stream_counts (fst (f ri)) = (fst (stream_counts ri) + fst d, snd (stream_counts ri) + snd d)"
  shows "live_counts (put_tunnel l (on_remote r f res) st) = on_counts st l r d"
  using assms
  by (simp add: live_counts_put on_counts_def)
    (auto simp: live_counts_def fun_eq_iff option.map_comp comp_def case_prod_beta split: option.split)

lemma ri_method_counts:
  "stream_counts (fst (ri_new_pending_stream l r ri)) = (fst (stream_counts ri) + 1, snd (stream_counts ri) + 0)"
  "stream_counts (fst (ri_remote_connected l r ri)) = (fst (stream_counts ri) + - 1, snd (stream_counts ri) + 1)"
  "stream_counts (fst (ri_error now l r (Some c) ri)) = (fst (stream_counts ri) + - 1, snd (stream_counts ri) + 0)"
  "stream_counts (fst (ri_error now l r None ri)) = (fst (stream_counts ri) + 0, snd (stream_counts ri) + 0)"
  "stream_counts (fst (ri_update_moved_bytes b n l r ri)) = (fst (stream_counts ri) + 0, snd (stream_counts ri) + 0)"
  "stream_counts (fst (ri_client_disconnected l r ri)) = (fst (stream_counts ri) + 0, snd (stream_counts ri) + - 1)"
  "stream_counts (fst (ri_remote_recovered l r ri)) = (fst (stream_counts ri) + 0, snd (stream_counts ri) + 0)"
  by (simp_all add: stream_counts_def ri_defs Let_def)

lemma live_counts_unknown: "get_tunnel st l = None \<Longrightarrow> live_counts st l r = None"
  by (simp add: live_counts_def)

lemma live_counts_ops:
  "live_counts (client_connected l st) = live_counts st"
  "live_counts (remote_connected l r st) = on_counts st l r (- 1, 1)"
  "live_counts (update_transferred l r sent n st) = live_counts st"
  "live_counts (client_disconnected l None st) = live_counts st"
  "live_counts (client_disconnected l (Some r) st) = on_counts st l r (0, - 1)"
proof -
  have None: "live_counts (client_connected l st) = live_counts st
    \<and> live_counts (remote_connected l r st) = on_counts st l r (- 1, 1)
    \<and> live_counts (update_transferred l r sent n st) = live_counts st
    \<and> live_counts (client_disconnected l None st) = live_counts st
    \<and> live_counts (client_disconnected l (Some r) st) = on_counts st l r (0, - 1)"
    if "get_tunnel st l = None"
    by (simp add: that client_connected_def remote_connected_def update_transferred_def
        client_disconnected_def on_counts_none [OF live_counts_unknown [OF that]])
  have Some: "live_counts (client_connected l st) = live_counts st
    \<and> live_counts (remote_connected l r st) = on_counts st l r (- 1, 1)
    \<and> live_counts (update_transferred l r sent n st) = on_counts st l r (0, 0)
    \<and> live_counts (client_disconnected l None st) = live_counts st
    \<and> live_counts (client_disconnected l (Some r) st) = on_counts st l r (0, - 1)"
    if "get_tunnel st l = Some ti" for ti
    using that by (simp add: client_connected_def remote_connected_def update_transferred_def
        client_disconnected_def live_counts_keep live_counts_method ri_method_counts)
  note both = None Some [unfolded on_counts_zero]
  show "live_counts (client_connected l st) = live_counts st"
    "live_counts (remote_connected l r st) = on_counts st l r (- 1, 1)"
    "live_counts (update_transferred l r sent n st) = live_counts st"
    "live_counts (client_disconnected l None st) = live_counts st"
    "live_counts (client_disconnected l (Some r) st) = on_counts st l r (0, - 1)"
    using both by (cases "get_tunnel st l"; blast)+
qed

lemma live_counts_select:
  assumes "select_remote rnd l st = Some (res, st')"
  shows "live_counts st' = (case res of Inl e \<Rightarrow> live_counts st | Inr (r, opts) \<Rightarrow> on_counts st l r (1, 0))
    \<and> (case res of Inl e \<Rightarrow> True | Inr (r, opts) \<Rightarrow> live_counts st l r \<noteq> None)"
proof (cases "get_tunnel st l")
  case None
  with assms show ?thesis by (auto simp: select_remote_def)
next
  case (Some ti)
  then show ?thesis
  proof (cases rule: ti_select_remote_cases [of ti rnd])
    case none
    with Some assms show ?thesis by (auto simp: select_remote_def intro!: live_counts_keep)
  next
    case (some idx ri)
    let ?r = "fst (ti_remotes ti ! idx)" and ?ti = "ti\<lparr>ti_last_selected_index := Some idx\<rparr>"
    have "live_counts (put_tunnel l (on_remote ?r (ri_new_pending_stream l ?r) (?ti, [])) st)
        = on_counts st l ?r (1, 0)"
      by (rule live_counts_method [OF Some]) (simp_all add: ri_method_counts)
    moreover have "live_counts st l ?r \<noteq> None"
      using Some some(3) by (simp add: live_counts_def)
    ultimately show ?thesis
      using Some some assms by (auto simp: select_remote_def im_contains_key_def)
  qed
qed

lemma live_counts_remote_error:
  assumes "remote_error now l' r' c opts st = Done st'" and "not_dead l r st'" and "wf_state st"
  shows "live_counts st' l r = on_counts st l' r' (- 1, 0) l r"
proof (cases "get_tunnel st l'")
  case None
  with assms(1) have "st' = st" by (simp add: remote_error_def)
  then show ?thesis by (simp add: on_counts_none [OF live_counts_unknown [OF None]])
next
  case (Some ti)
  define res where "res = on_remote r' (ri_error now l' r' (Some c)) (ti_remote_error l' r' ti)"
  have counts: "live_counts (put_tunnel l' res st) = on_counts st l' r' (- 1, 0)"
    unfolding res_def by (rule live_counts_method [OF Some]) (simp_all add: ri_method_counts)
  show ?thesis
  proof (cases "st' = put_tunnel l' res st")
    case True
    then show ?thesis by (simp add: counts)
  next
    case False
    with assms(1) Some obtain d m st2
      where st': "st' = put_tunnel l' ((fst res)\<lparr>ti_remotes := im_remove r' (ti_remotes (fst res)),
          ti_dead_remotes := im_insert r' d m\<rparr>, []) st2"
        and st2: "st_tunnels st2 = st_tunnels (put_tunnel l' res st)"
      by (fastforce simp: remote_error_def Let_def res_def [symmetric] case_prod_beta
          split: option.splits if_splits)
    from st' have lookup: "get_tunnel st' l' = Some ((fst res)\<lparr>ti_remotes := im_remove r' (ti_remotes (fst res)),
        ti_dead_remotes := im_insert r' d m\<rparr>)"
      and others: "l \<noteq> l' \<Longrightarrow> get_tunnel st' l = get_tunnel (put_tunnel l' res st) l"
      using st2 by simp_all
    have "im_wf (ti_remotes (fst res))"
      using wf_tunnelD(1) [OF wf_stateD(4) [OF assms(3) Some]] by (simp add: res_def im_wf_update)
    moreover have "l = l' \<Longrightarrow> r \<noteq> r'"
      using not_deadD [OF assms(2)] lookup by (auto simp: im_get_insert)
    ultimately have "live_counts st' l r = live_counts (put_tunnel l' res st) l r"
      using lookup others by (cases "l = l'") (simp_all add: live_counts_def)
    then show ?thesis by (simp add: counts)
  qed
qed

lemma live_counts_dead_check:
  assumes "not_dead l r st"
  shows "live_counts (dead_check_done now ok t st) l r = live_counts st l r"
proof (cases "im_get (st_tasks st) t")
  case None
  then show ?thesis by (simp add: dead_check_done_def)
next
  case dc: (Some dc)
  have same: "live_counts (end_task t st) = live_counts st" by (rule live_counts_same) simp
  show ?thesis
  proof (cases "get_tunnel st (dc_local dc)")
    case None
    with dc same show ?thesis by (simp add: dead_check_done_def)
  next
    case (Some ti)
    with not_deadD [OF assms] dc same show ?thesis
      by (auto simp: dead_check_done_def Let_def live_counts_put live_counts_def case_prod_beta split: option.splits)
  qed
qed

lemma live_counts_remove_remote:
  assumes "wf_state st" and "l' \<noteq> l \<or> r' \<noteq> r"
  shows "live_counts (snd (remove_remote_from_tunnel l' r' st)) l r = live_counts st l r"
proof (cases "get_tunnel st l'")
  case None
  then show ?thesis by (simp add: remove_remote_from_tunnel_def)
next
  case (Some ti)
  with assms(2) wf_tunnelD(1) [OF wf_stateD(4) [OF assms(1) Some]] show ?thesis
    by (auto simp: remove_remote_from_tunnel_def live_counts_def split: option.split)
qed

lemma live_counts_add_tunnel:
  "live_counts (snd (add_tunnel t ch st)) l r = live_counts st l r
   \<or> live_counts st l r = None \<and> live_counts (snd (add_tunnel t ch st)) l r = Some (0, 0)"
proof -
  have new: "im_get (im_of_list (map (\<lambda>k. (k, new_RemoteInfo)) rs)) r \<in> {None, Some new_RemoteInfo}" for rs
  proof -
    have "im_get m r \<in> {None, Some new_RemoteInfo}
        \<Longrightarrow> im_get (fold (\<lambda>(k, v) m. im_insert k v m) (map (\<lambda>k. (k, new_RemoteInfo)) rs) m) r
            \<in> {None, Some new_RemoteInfo}" for m
      by (induction rs arbitrary: m) auto
    then show ?thesis by (simp add: im_of_list_def)
  qed
  show ?thesis
    using new [of "tun_remote t"]
    by (cases "get_tunnel st (tun_local t)")
      (auto simp: add_tunnel_def im_contains_key_def Let_def live_counts_put new_TunnelInfo_def
        live_counts_unknown stream_counts_def new_RemoteInfo_def default_RemoteStats_def)
qed

lemma live_counts_add_remote:
  "live_counts (snd (add_remote_to_tunnel l' r' st)) l r = live_counts st l r
   \<or> live_counts st l r = None \<and> live_counts (snd (add_remote_to_tunnel l' r' st)) l r = Some (0, 0)"
  by (cases "get_tunnel st l'")
    (auto simp: add_remote_to_tunnel_def im_contains_key_def live_counts_put live_counts_def
      stream_counts_def new_RemoteInfo_def default_RemoteStats_def)

text \<open>
  The connections that wait for a remote, those whose task panicked when it was about to connect
  to it, and those that stream to it. The first two are counted as pending.
\<close>

definition waits_for :: "SocketSpec \<Rightarrow> SocketSpec \<Rightarrow> Session \<Rightarrow> bool" where
  "waits_for l r se \<longleftrightarrow> se_tunnel se = l \<and>
     (case se_pc se of Connecting r' opts \<Rightarrow> r' = r | _ \<Rightarrow> False)"

definition panicked_at :: "SocketSpec \<Rightarrow> SocketSpec \<Rightarrow> Session \<Rightarrow> bool" where
  "panicked_at l r se \<longleftrightarrow> se_tunnel se = l \<and> se_pc se = Panicking (Some r)"

definition pending_at :: "SocketSpec \<Rightarrow> SocketSpec \<Rightarrow> Session \<Rightarrow> bool" where
  "pending_at l r se \<longleftrightarrow> waits_for l r se \<or> panicked_at l r se"

lemmas pending_at_defs = pending_at_def waits_for_def panicked_at_def

lemma count_pending_at:
  "count_sessions (pending_at l r) s = count_sessions (waits_for l r) s + count_sessions (panicked_at l r) s"
  using count_sessions_disjoint [of "waits_for l r" "panicked_at l r" s]
  by (simp add: pending_at_def [abs_def] waits_for_def panicked_at_def split: session_pc.split)

definition streams_to :: "SocketSpec \<Rightarrow> SocketSpec \<Rightarrow> Session \<Rightarrow> bool" where
  "streams_to l r se \<longleftrightarrow> se_tunnel se = l \<and>
     (case se_pc se of Copying r' \<Rightarrow> r' = r | Finishing \<Rightarrow> se_last_remote se = Some r | _ \<Rightarrow> False)"

text \<open>A session in its loop has no last remote.\<close>

definition session_clean :: "Session \<Rightarrow> bool" where
  "session_clean se \<longleftrightarrow> session_ok se \<and> (in_loop (se_pc se) \<longrightarrow> se_last_remote se = None)"

lemma session_clean_step:
  assumes "session_trans ev se st se' st'" and "session_clean se"
  shows "session_clean se'"
  using assms(1) session_ok_step [OF assms(1)] assms(2)
  by cases (auto simp: session_clean_def in_loop_def)

definition count_change :: "SocketSpec \<Rightarrow> SocketSpec \<Rightarrow> Session \<Rightarrow> Session \<Rightarrow> u64 \<times> u64" where
  "count_change l r se se' =
     (of_bool (pending_at l r se') - of_bool (pending_at l r se),
      of_bool (streams_to l r se') - of_bool (streams_to l r se))"

lemma live_counts_session:
  assumes "session_trans ev se st se' st'" and "session_clean se" and "not_dead l r st'" and "wf_state st"
  shows "live_counts st' l r
    = map_option (\<lambda>(p, q). (p + fst (count_change l r se se'), q + snd (count_change l r se se')))
        (live_counts st l r)"
proof -
  have keep: ?thesis if "live_counts st' = live_counts st" and "count_change l r se se' = (0, 0)"
    by (simp add: that option.map_ident option.map_id)
  have on: ?thesis if "live_counts st' l r = on_counts st (se_tunnel se) r' d l r"
      and "count_change l r se se' = (if l = se_tunnel se \<and> r = r' then d else (0, 0))" for r' d
    by (auto simp: that on_counts_def option.map_ident option.map_id)
  note defs = count_change_def pending_at_defs streams_to_def
  from assms(1) show ?thesis
  proof cases
    case (no_remote rnd e)
    with live_counts_select [OF this(5)] show ?thesis by (intro keep) (simp_all add: defs)
  next
    case (attempts rnd r' opts)
    with live_counts_select [OF this(5)] show ?thesis by (intro on) (auto simp: defs)
  next
    case (attempt_panics rnd r' opts)
    with live_counts_select [OF this(5)] show ?thesis by (intro on) (auto simp: defs)
  next
    case (connects r' opts)
    then show ?thesis by (intro on) (auto simp: defs live_counts_ops)
  next
    case (attempt_fails r' opts now)
    with live_counts_remote_error [OF this(4) assms(3,4)] show ?thesis
      by (intro on) (auto simp: defs)
  next
    case (error_panics r' opts now)
    with assms(2) remote_error_no_panic show ?thesis
      by (simp add: session_clean_def session_ok_def connect_remote_starts_def)
  next
    case leaves
    show ?thesis
    proof (cases "se_last_remote se")
      case None
      with leaves show ?thesis by (intro keep) (simp_all add: defs live_counts_ops)
    next
      case (Some r')
      with leaves show ?thesis by (intro on) (auto simp: defs live_counts_ops)
    qed
  next
    case exhausted
    with assms(2) show ?thesis by (intro keep) (simp_all add: defs session_clean_def in_loop_def)
  next
    case (copied r')
    with assms(2) show ?thesis
      by (intro keep) (simp_all add: defs session_clean_def session_ok_def)
  qed (intro keep; simp add: defs live_counts_ops)+
qed

text \<open>
  Runs in which remote \<open>r\<close> of tunnel \<open>l\<close> stays: the tunnel is not closed, the remote is not
  removed and not found dead. What happens to other tunnels and other remotes does not matter.
\<close>

definition keeps_remote :: "SocketSpec \<Rightarrow> SocketSpec \<Rightarrow> sys_event \<Rightarrow> Sys \<Rightarrow> bool" where
  "keeps_remote l r ev s' \<longleftrightarrow>
     (case ev of StopTunnel l' \<Rightarrow> l' \<noteq> l | RemoveRemoteFrom l' r' \<Rightarrow> l' \<noteq> l \<or> r' \<noteq> r | _ \<Rightarrow> True)
     \<and> not_dead l r (sys_state s')"

definition uses_remote :: "SocketSpec \<Rightarrow> SocketSpec \<Rightarrow> Session \<Rightarrow> bool" where
  "uses_remote l r se \<longleftrightarrow> pending_at l r se \<or> streams_to l r se"

definition stream_inv :: "SocketSpec \<Rightarrow> SocketSpec \<Rightarrow> Sys \<Rightarrow> bool" where
  "stream_inv l r s \<longleftrightarrow> not_dead l r (sys_state s)
     \<and> (\<forall>se \<in> set (sys_sessions s). session_clean se)
     \<and> (case live_counts (sys_state s) l r of
          None \<Rightarrow> \<forall>se \<in> set (sys_sessions s). \<not> uses_remote l r se
        | Some (p, q) \<Rightarrow> p = of_nat (count_sessions (pending_at l r) s)
            \<and> q = of_nat (count_sessions (streams_to l r) s))"

lemma stream_invD:
  assumes "stream_inv l r s" and "se \<in> set (sys_sessions s)"
  shows "session_clean se"
    and "uses_remote l r se \<Longrightarrow> live_counts (sys_state s) l r \<noteq> None"
  using assms by (auto simp: stream_inv_def split: option.splits)

lemma stream_inv_grow:
  assumes "stream_inv l r s" and "not_dead l r (sys_state s')" and "sys_sessions s' = sys_sessions s"
    and "live_counts (sys_state s') l r = live_counts (sys_state s) l r
       \<or> live_counts (sys_state s) l r = None \<and> live_counts (sys_state s') l r = Some (0, 0)"
  shows "stream_inv l r s'"
  using assms(4)
proof
  assume "live_counts (sys_state s') l r = live_counts (sys_state s) l r"
  with assms(1-3) show ?thesis
    by (cases "live_counts (sys_state s) l r") (simp_all add: stream_inv_def count_sessions_def)
next
  assume new: "live_counts (sys_state s) l r = None \<and> live_counts (sys_state s') l r = Some (0, 0)"
  with assms(1) have "filter (pending_at l r) (sys_sessions s) = []" "filter (streams_to l r) (sys_sessions s) = []"
    by (simp_all add: stream_inv_def uses_remote_def filter_empty_conv)
  with assms(1-3) new show ?thesis by (simp add: stream_inv_def count_sessions_def)
qed

lemma stream_inv_session:
  assumes "stream_inv l r s" and "sys_exec (SessionStep i ev) s = Some s'"
    and "not_dead l r (sys_state s')" and "wf_state (sys_state s)"
  shows "stream_inv l r s'"
proof -
  let ?se = "sys_sessions s ! i"
  from assms(2) obtain se' st' where i: "i < length (sys_sessions s)"
    and step: "session_trans ev ?se (sys_state s) se' st'"
    and s': "s' = s\<lparr>sys_state := st', sys_sessions := (sys_sessions s)[i := se']\<rparr>"
    by (auto split: if_splits option.splits dest: session_step_trans)
  note old = stream_invD [OF assms(1)]
  note clean = old(1) [OF nth_mem [OF i]]
  have nd: "not_dead l r st'" using assms(3) s' by simp
  note delta = live_counts_session [OF step clean nd assms(4)]
  have used: "live_counts (sys_state s) l r \<noteq> None" if "uses_remote l r se'"
  proof -
    have "uses_remote l r ?se \<or> live_counts (sys_state s) l r \<noteq> None"
      using step that clean
      by cases (auto simp: uses_remote_def pending_at_defs streams_to_def session_clean_def session_ok_def
          in_loop_def dest!: live_counts_select)
    with old(2) [OF nth_mem [OF i]] show ?thesis by blast
  qed
  have all: "session_clean se \<and> (uses_remote l r se \<longrightarrow> live_counts (sys_state s) l r \<noteq> None)"
    if "se \<in> set ((sys_sessions s)[i := se'])" for se
  proof (cases "se = se'")
    case True
    with session_clean_step [OF step clean] used show ?thesis by blast
  next
    case False
    with that set_update_subset_insert [of "sys_sessions s" i se'] old show ?thesis by blast
  qed
  show ?thesis
  proof (cases "live_counts (sys_state s) l r")
    case None
    with all nd show ?thesis by (auto simp: stream_inv_def s' delta)
  next
    case (Some c)
    with assms(1) i nd all show ?thesis
      by (auto simp: stream_inv_def s' delta count_sessions_def of_nat_filter_update count_change_def)
  qed
qed

lemma stream_inv_exec:
  assumes "wf_state (sys_state s)" and "stream_inv l r s" and "sys_exec ev s = Some s'"
    and "keeps_remote l r ev s'"
  shows "stream_inv l r s'"
proof -
  have nd: "not_dead l r (sys_state s)" "not_dead l r (sys_state s')"
    using assms(2,4) by (simp_all add: stream_inv_def keeps_remote_def)
  note grow = stream_inv_grow [OF assms(2) nd(2)]
  show ?thesis
  proof (cases ev)
    case (Bound i b)
    let ?add = "snd (add_tunnel (sys_starting s ! i) (sys_next_channel s) (sys_state s))"
    from Bound assms(3) have "sys_sessions s' = sys_sessions s"
      and "sys_state s' = sys_state s \<or> sys_state s' = ?add"
      by (auto simp: create_tunnel_bound_def split: if_splits sum.splits prod.splits)
    then show ?thesis
      using live_counts_add_tunnel [of "sys_starting s ! i" "sys_next_channel s" "sys_state s"]
      by (intro grow) metis+
  next
    case (AddRemoteTo l' r')
    with assms(3) show ?thesis
      using live_counts_add_remote [of l' r' "sys_state s" l r] by (intro grow) auto
  next
    case (RemoveRemoteFrom l' r')
    with assms show ?thesis
      by (intro grow) (auto simp: keeps_remote_def live_counts_remove_remote)
  next
    case (SessionStep i e)
    with assms stream_inv_session nd show ?thesis by blast
  next
    case (StopTunnel l')
    with assms(3) have "sys_state s' = snd (remove_tunnel l' (sys_state s))" "sys_sessions s' = sys_sessions s"
      by (auto simp: stop_tunnel_def split: sum.splits prod.splits)
    with StopTunnel assms(1,4) show ?thesis
      by (intro grow) (auto simp: keeps_remote_def live_counts_def remove_tunnel_lookup)
  next
    case (Accepted i c)
    with assms(3) have s': "s' = s\<lparr>sys_sessions := sys_sessions s @ [run_tunnel_accept (sys_handlers s ! i) c]\<rparr>"
      by (auto split: if_splits)
    have "\<not> pending_at l r (run_tunnel_accept h c)" "\<not> streams_to l r (run_tunnel_accept h c)"
      "session_clean (run_tunnel_accept h c)" for h
      by (simp_all add: run_tunnel_accept_def new_session_def pending_at_defs streams_to_def
          session_clean_def session_ok_def in_loop_def)
    with assms(2) s' show ?thesis
      by (auto simp: stream_inv_def count_sessions_def uses_remote_def split: option.splits)
  next
    case (StartTunnel t)
    with assms(3) show ?thesis by (intro grow) (auto split: option.splits sum.splits)
  next
    case (TunnelFinished i)
    with assms(3) show ?thesis by (intro grow) (auto split: if_splits)
  next
    case (CheckEnded now ok t)
    with assms(3) live_counts_dead_check [OF nd(1), of now ok t] show ?thesis by (intro grow) auto
  qed
qed

interpretation stream_count: sys_invariant "keeps_remote l r" "stream_inv l r" for l r
  by unfold_locales (rule stream_inv_exec)

lemma stream_inv_new: "st_tunnels st = [] \<Longrightarrow> stream_inv l r (new_Sys st)"
  by (simp add: stream_inv_def new_Sys_def not_dead_def live_counts_def)

text \<open>
  C6: while a remote is neither removed nor found dead and its tunnel is not closed, its open
  streams are exactly the connections that stream to it, and its pending streams exactly those that
  wait for it and those whose task panicked when it was about to connect to it, whatever happens to
  other tunnels and to the other remotes of the same tunnel. If the connection timeout of the
  tunnel was a duration and its remotes a host and a port all the time, no task has panicked and
  the pending streams are exactly the connections waiting for the remote.
\<close>

theorem remote_streams_exact:
  assumes "new_State args opts c = Inr st0" and "reachable (keeps_remote l r) (new_Sys st0) n s"
    and "get_tunnel (sys_state s) l = Some ti" and "im_get (ti_remotes ti) r = Some ri"
  shows "rs_streams_pending (ri_stats ri)
      = of_nat (count_sessions (waits_for l r) s + count_sessions (panicked_at l r) s)
    \<and> rs_streams_open (ri_stats ri) = of_nat (count_sessions (streams_to l r) s)
    \<and> (always_sane l st0 s
        \<longrightarrow> rs_streams_pending (ri_stats ri) = of_nat (count_sessions (waits_for l r) s))"
proof -
  have "live_counts (sys_state s) l r
      = Some (rs_streams_pending (ri_stats ri), rs_streams_open (ri_stats ri))"
    using assms(3,4) by (simp add: live_counts_def stream_counts_def)
  moreover have "stream_inv l r s"
    using stream_count.always [OF assms(2) wf_new_Sys [OF assms(1)]]
      stream_inv_new [OF new_State_no_tunnels [OF assms(1)]] by blast
  moreover have "always_sane l st0 s \<Longrightarrow> count_sessions (panicked_at l r) s = 0"
    by (rule sane_run_counts [OF assms(1)]) (auto simp: panicked_at_def panicked_in_def session_panicked_def)
  ultimately show ?thesis by (auto simp: stream_inv_def count_pending_at)
qed

end
