(* ===== verification/Protocol_Spec.thy ===== *)
theory Protocol_Spec
  imports Protocol Counters
begin

text \<open>
  What the control protocol promises: every line gets one answer of the right kind, in order,
  until \<open>EXIT\<close> or an error of the connection; requests that fail and requests that only ask change nothing; requests are read
  back from their printed form in any case; what is reported is what goes on.
\<close>

subsection \<open>The types of answers\<close>

text \<open>Which answers a request can get, in an environment with a given outcome of binding.\<close>

inductive answers :: "Env \<Rightarrow> CommandRequest \<Rightarrow> CommandResponse \<Rightarrow> bool" for env where
  opened: "env_bound env = Inr () \<Longrightarrow> answers env (Open t) OK"
| not_opened: "e = TunnelExists \<or> env_bound env = Inl e \<Longrightarrow> answers env (Open t) (Problem (Some e))"
| closed: "answers env (Close l) OK"
| not_closed: "answers env (Close l) (Problem (Some TunnelDoesNotExist))"
| no_tunnels: "answers env (Status b) (Info ''No tunnels'' None)"
| status_short: "answers env (Status False) (Info (status_text n) None)"
| status_long: "answers env (Status True) (Info (status_text n) (Some (map status_line ss)))"
| details: "answers env (Detail l)
     (Info (detail_text (length rs) n opts) (Some (map detail_line rs)))"
| no_details: "answers env (Detail l) (Problem (Some TunnelDoesNotExist))"
| commands: "answers env Help (Info ''commands'' (Some help_lines))"
| leaves: "answers env Exit Done"
| invalid: "answers env (Invalid e) (Problem (Some e))"
| added: "answers env (Add l r) OK"
| not_added: "e = TunnelDoesNotExist \<or> e = RemoteExists \<Longrightarrow> answers env (Add l r) (Problem (Some e))"
| removed: "answers env (Remove l r) OK"
| not_removed: "e = TunnelDoesNotExist \<or> e = RemoteDoesNotExist
    \<Longrightarrow> answers env (Remove l r) (Problem (Some e))"

inductive_cases answers_DoneE: "answers env c Done"
inductive_simps answers_problem: "answers env c (Problem e)"

lemma from_result_simps [simp]:
  "from_result (Inr x) = OK"
  "from_result (Inl e) = Problem (Some e)"
  by (simp_all add: from_result_def)

lemma from_result_iff:
  "from_result res = Problem e \<longleftrightarrow> (\<exists>x. res = Inl x \<and> e = Some x)"
  "from_result res = OK \<longleftrightarrow> (\<exists>x. res = Inr x)"
  by (simp_all add: from_result_def split: sum.split) auto

lemma exec_open:
  "fst (exec env (Open t) st) = map_option from_result (fst (start_tunnel env t st))"
  "snd (exec env (Open t) st) = snd (start_tunnel env t st)"
  by (simp_all split: prod.split)

lemma exec_open_answers:
  "fst (exec env (Open t) st) = Some resp \<Longrightarrow> answers env (Open t) resp"
  unfolding exec_open by (rule start_tunnel_cases [of t st env]) (auto intro: answers.intros)

lemma exec_answers:
  assumes "fst (exec env c st) = Some resp"
  shows "answers env c resp"
proof (cases c)
  case (Open t)
  with assms show ?thesis using exec_open_answers by simp
next
  case (Close l)
  with assms show ?thesis
    by (auto simp: stop_tunnel_def remove_tunnel_def Let_def intro: answers.intros split: option.splits)
next
  case (Status b)
  with assms show ?thesis by (cases b) (auto simp: Let_def intro: answers.intros split: if_splits)
next
  case (Detail l)
  with assms show ?thesis
    by (auto simp: remotes_def tunnel_options_def Let_def split: option.splits
        intro: answers.intros details [where rs = "map _ _", simplified])
next
  case (Add l r)
  with assms show ?thesis
    by (auto simp: add_remote_to_tunnel_def intro: answers.intros split: option.splits if_splits)
next
  case (Remove l r)
  with assms show ?thesis
    by (auto simp: remove_remote_from_tunnel_def intro: answers.intros split: option.splits)
qed (use assms in \<open>auto intro: answers.intros\<close>)

text \<open>Only the opening of a tunnel whose address is not one can panic.\<close>

definition usable :: "CommandRequest \<Rightarrow> bool" where
  "usable c \<longleftrightarrow> (\<forall>t. c = Open t \<longrightarrow> as_tuple (tun_local t) \<noteq> None)"

lemma exec_usable: "usable c \<Longrightarrow> fst (exec env c st) \<noteq> None"
proof (cases c)
  case (Open t)
  then show "usable c \<Longrightarrow> ?thesis" using start_tunnel_returns [of t env st] exec_open by (simp add: usable_def)
qed (auto simp: Let_def split: prod.split sum.split)

text \<open>What a line can be parsed to: the requests but \<open>Invalid\<close>, with usable addresses.\<close>

definition parsed :: "CommandRequest \<Rightarrow> bool" where
  "parsed c \<longleftrightarrow>
     (case c of
        Open t \<Rightarrow> as_tuple (tun_local t) \<noteq> None \<and> tun_remote t \<noteq> []
          \<and> (\<forall>r \<in> set (tun_remote t). as_tuple r \<noteq> None)
      | Close l \<Rightarrow> as_tuple l \<noteq> None
      | Detail l \<Rightarrow> as_tuple l \<noteq> None
      | Add l r \<Rightarrow> as_tuple l \<noteq> None \<and> as_tuple r \<noteq> None
      | Remove l r \<Rightarrow> as_tuple l \<noteq> None \<and> as_tuple r \<noteq> None
      | Invalid _ \<Rightarrow> False
      | _ \<Rightarrow> True)"

lemma spec_from_str_address:
  "nom_results N \<Longrightarrow> spec_from_str N s = Inr l \<Longrightarrow> as_tuple l \<noteq> None"
  using nom_results.socket_spec_address [of N s]
  by (auto simp: spec_from_str_def split: sum.splits nom_err.splits if_splits)

lemma tunnel_from_str_addresses:
  "nom_results N \<Longrightarrow> tunnel_from_str N d s = Inr t \<Longrightarrow> as_tuple (tun_local t) \<noteq> None \<and> tun_remote t \<noteq> []
     \<and> (\<forall>r \<in> set (tun_remote t). as_tuple r \<noteq> None)"
  using nom_results.tunnel_addresses [of N d s]
  by (auto simp: tunnel_from_str_def split: sum.splits nom_err.splits)

lemma command_from_str_parsed:
  assumes "nom_results N" and "command_from_str N d s = Inr c"
  shows "parsed c"
  using assms(2) spec_from_str_address [OF assms(1)] tunnel_from_str_addresses [OF assms(1)]
  by (auto simp: command_from_str_def status_arg_def one_socket_def two_sockets_def args_def Let_def parsed_def
      split: prod.splits if_splits sum.splits option.splits)

lemma decode_usable:
  "nom_results N \<Longrightarrow> decode N d res = Inr (Some c) \<Longrightarrow> usable c"
  by (auto simp: decode_def usable_def parsed_def dest!: command_from_str_parsed
      split: sum.splits option.splits)

text \<open>
  C13: every line that arrives on a control connection is understood as a request or refused as an
  invalid one, its execution never panics, and its answer has the type of the request: which
  kind of response, which errors, how many lines of details. Addresses in an accepted request
  are usable.
\<close>

theorem answers_are_typed:
  assumes "nom_results N" and "decode N d (Inr (Some line)) = Inr (Some c)"
  shows "((\<exists>e. c = Invalid e) \<or> parsed c)
    \<and> (\<exists>resp st'. exec env c st = (Some resp, st') \<and> answers env c resp)"
proof
  show "(\<exists>e. c = Invalid e) \<or> parsed c"
    using assms command_from_str_parsed by (auto simp: decode_def split: sum.splits)
  show "\<exists>resp st'. exec env c st = (Some resp, st') \<and> answers env c resp"
    using exec_usable [OF decode_usable [OF assms], of env st] exec_answers [of env c st]
    by (cases "exec env c st") auto
qed

theorem answers_are_typed_witness:
  "\<exists>c resp st'. decode documented_nom DEFAULT_TUNNEL_OPTIONS (Inr (Some ''remove a:1 b:2'')) = Inr (Some c)
     \<and> exec (alone (Inr ()) 0) c boot = (Some resp, st') \<and> answers (alone (Inr ()) 0) c resp"
proof -
  have d: "decode documented_nom DEFAULT_TUNNEL_OPTIONS (Inr (Some ''remove a:1 b:2''))
      = Inr (Some (Remove here near))"
    unfolding here_def near_def by code_simp
  from answers_are_typed [OF documented.nom_results_axioms d, of "alone (Inr ()) 0" boot] d
  show ?thesis by blast
qed

subsection \<open>Requests that change nothing\<close>

text \<open>The states the other tasks can make of a state while a request runs.\<close>

definition others_only :: "Env \<Rightarrow> State \<Rightarrow> State set" where
  "others_only env st = {st, env_acts env 1 st, env_acts env 2 (env_acts env 1 st)}"

fun asks :: "CommandRequest \<Rightarrow> bool" where
  "asks (Open t) = False"
| "asks (Close l) = False"
| "asks (Add l r) = False"
| "asks (Remove l r) = False"
| "asks _ = True"

lemma exec_asks: "asks c \<Longrightarrow> snd (exec env c st) \<in> others_only env st"
  by (cases c) (auto simp: others_only_def Let_def split: sum.split)

lemma exec_fails:
  assumes "fst (exec env c st) = Some (Problem e)"
  shows "snd (exec env c st) \<in> others_only env st"
proof (cases c)
  case (Open t)
  with assms obtain x where "fst (start_tunnel env t st) = Some (Inl x)"
    by (auto simp: exec_open from_result_iff simp del: exec.simps)
  from start_tunnel_failed [OF this] show ?thesis
    by (simp add: Open exec_open others_only_def del: exec.simps)
qed (use assms exec_asks [of c env st] in \<open>auto simp: others_only_def stop_tunnel_def remove_tunnel_def
      add_remote_to_tunnel_def remove_remote_from_tunnel_def Let_def split: option.splits if_splits\<close>)

subsection \<open>The text of a response\<close>

lemma lines_of_details:
  assumes "list_all (\<lambda>l. CHR 10 \<notin> set l) ls" and "ls \<noteq> []"
  shows "lines_of (show_details n (n + length ls) ls) = map (Cons (CHR 9)) ls"
  using assms
proof (induction ls arbitrary: n)
  case (Cons l ls)
  show ?case
  proof (cases ls)
    case Nil
    with Cons.prems show ?thesis using lines_of_line [of "CHR 9 # l"] by simp
  next
    case (Cons x xs)
    with Cons.prems Cons.IH [of "Suc n"] lines_of_append [of "CHR 9 # l"] show ?thesis by simp
  qed
qed simp

text \<open>
  A response with details is its text and one indented line for each of them, when none of them
  contains a line feed.
\<close>

lemma response_lines:
  assumes "CHR 10 \<notin> set short" and "list_all (\<lambda>l. CHR 10 \<notin> set l) ls" and "ls \<noteq> []"
  shows "lines_of (response_to_string (Info short (Some ls))) = (''OK: '' @ short) # map (Cons (CHR 9)) ls"
  using lines_of_append [of "''OK: '' @ short"] lines_of_details [OF assms(2,3), of 0] assms(1) by simp

lemma status_line_no_feed: "CHR 10 \<notin> set (spec_to_string l) \<Longrightarrow> CHR 10 \<notin> set (status_line (l, s))"
  by (simp add: status_line_def)

subsection \<open>A connection\<close>

text \<open>
  What the framed reader of the library gets from a connection: a result of the decoder (a line,
  nothing yet, an error), or an input/output error, of the socket or for the bytes left over at its
  end; the end of the list is the end of the input. As that library does it, the error is the next
  item of the stream and then the stream ends, whatever the socket still holds.
\<close>

datatype framed_read =
    Decoded "string + string option"
  | ReadFailed string

fun items_of ::
  "nom \<Rightarrow> TunnelOptions \<Rightarrow> (Env \<times> framed_read) list \<Rightarrow> (Env \<times> CommandRequest result) list" where
  "items_of N d [] = []"
| "items_of N d ((env, ReadFailed e) # reads) = [(env, Inl (IOError e))]"
| "items_of N d ((env, Decoded res) # reads) =
     (case decode N d res of
        Inl e \<Rightarrow> [(env, Inl e)]
      | Inr None \<Rightarrow> items_of N d reads
      | Inr (Some c) \<Rightarrow> (env, Inr c) # items_of N d reads)"

text \<open>The lines before the first error, the first error, and the request made of a line.\<close>

fun read_line :: "Env \<times> framed_read \<Rightarrow> (Env \<times> string) option" where
  "read_line (env, Decoded (Inr (Some line))) = Some (env, line)"
| "read_line _ = None"

fun read_error :: "Env \<times> framed_read \<Rightarrow> (Env \<times> Error) option" where
  "read_error (env, Decoded (Inl e)) = Some (env, ControlProtocolLineError e)"
| "read_error (env, ReadFailed e) = Some (env, IOError e)"
| "read_error _ = None"

definition lines_read :: "(Env \<times> framed_read) list \<Rightarrow> (Env \<times> string) list" where
  "lines_read reads = List.map_filter read_line (takeWhile (\<lambda>x. read_error x = None) reads)"

definition first_error :: "(Env \<times> framed_read) list \<Rightarrow> (Env \<times> Error) list" where
  "first_error reads = take 1 (List.map_filter read_error reads)"

definition request :: "nom \<Rightarrow> TunnelOptions \<Rightarrow> string \<Rightarrow> CommandRequest" where
  "request N d line = (case command_from_str N d line of Inl e \<Rightarrow> Invalid e | Inr c \<Rightarrow> c)"

lemma items_of_reads:
  "items_of N d reads =
     map (\<lambda>(env, line). (env, Inr (request N d line))) (lines_read reads)
     @ map (\<lambda>(env, e). (env, Inl e)) (first_error reads)"
proof (induction reads)
  case (Cons x reads)
  obtain env r where x: "x = (env, r)" by (cases x)
  show ?case
  proof (cases r)
    case (Decoded res)
    with Cons x show ?thesis
      by (cases res)
        (auto simp: decode_def lines_read_def first_error_def map_filter_simps request_def split: option.split)
  next
    case (ReadFailed e)
    with x show ?thesis by (simp add: lines_read_def first_error_def map_filter_simps)
  qed
qed (simp add: lines_read_def first_error_def map_filter_simps)

definition goes_on :: "Env \<times> CommandRequest result \<Rightarrow> bool" where
  "goes_on item \<longleftrightarrow> snd item \<noteq> Inr Exit"

definition item_usable :: "Env \<times> CommandRequest result \<Rightarrow> bool" where
  "item_usable item \<longleftrightarrow> (case snd item of Inl e \<Rightarrow> True | Inr c \<Rightarrow> usable c)"

lemma request_usable: "nom_results N \<Longrightarrow> usable (request N d line)"
  using decode_usable [of N d "Inr (Some line)"] by (simp add: decode_def request_def)

lemma items_usable: "nom_results N \<Longrightarrow> list_all item_usable (items_of N d reads)"
  by (auto simp: items_of_reads list_all_iff item_usable_def request_usable)

lemma respond_usable: "item_usable (env, item) \<Longrightarrow> fst (respond env item st) \<noteq> None"
  using exec_usable by (auto simp: respond_def item_usable_def split: sum.splits)

lemma respond_Done: "fst (respond env item st) = Some Done \<longleftrightarrow> item = Inr Exit"
  by (auto simp: respond_def split: sum.split dest!: exec_answers elim: answers_DoneE)

definition state_after :: "(Env \<times> CommandRequest result) list \<Rightarrow> State \<Rightarrow> State" where
  "state_after items st = fold (\<lambda>(env, item) st. snd (respond env item st)) items st"

lemma control_loop_spec:
  assumes "list_all item_usable items"
  shows "control_loop items st =
     (map (\<lambda>i. the (fst (respond (fst (items ! i)) (snd (items ! i)) (state_after (take i items) st))))
        [0..<length (takeWhile goes_on items)],
      state_after (take (Suc (length (takeWhile goes_on items))) items) st,
      if list_all goes_on items then EndOfInput else AfterExit)"
  using assms
proof (induction items arbitrary: st)
  case Nil
  then show ?case by (simp add: state_after_def)
next
  case (Cons it items)
  obtain env item where it: "it = (env, item)" by (cases it)
  from Cons.prems obtain resp st' where r: "respond env item st = (Some resp, st')"
    using respond_usable [of env item st] it by (cases "respond env item st") auto
  show ?case
  proof (cases "item = Inr Exit")
    case True
    then have "resp = Done" using respond_Done [of env item st] r by simp
    with r it True show ?thesis by (simp add: goes_on_def state_after_def)
  next
    case False
    then have "resp \<noteq> Done" using respond_Done [of env item st] r by auto
    moreover have "state_after (it # xs) st = state_after xs st'" for xs
      using r it by (simp add: state_after_def)
    ultimately show ?thesis using Cons.IH [of st'] Cons.prems r it False
      by (simp add: goes_on_def map_upt_Suc del: upt_Suc) (simp add: state_after_def)
  qed
qed

text \<open>
  C12: the items of a control connection are its lines up to the first error, as requests, and then
  that error. Every item up to the first \<open>EXIT\<close> gets exactly one response, and the \<open>i\<close>-th response
  is the answer to the \<open>i\<close>-th item in the state its predecessors and the other tasks left. \<open>EXIT\<close>,
  the first error (which is answered) and the end of the input end the loop, nothing after them is
  executed, and the task never panics.
\<close>

theorem every_line_is_answered_in_order:
  assumes "nom_results N" and items: "items = items_of N d reads"
    and n: "n = length (takeWhile goes_on items)"
    and loop: "control_loop items st = (resps, st', ending)"
  shows "items = map (\<lambda>(env, line). (env, Inr (request N d line))) (lines_read reads)
      @ map (\<lambda>(env, e). (env, Inl e)) (first_error reads)
    \<and> length resps = n
    \<and> (\<forall>i < n. fst (respond (fst (items ! i)) (snd (items ! i)) (state_after (take i items) st))
          = Some (resps ! i))
    \<and> st' = state_after (take (Suc n) items) st
    \<and> ending = (if n < length items then AfterExit else EndOfInput)"
proof (intro conjI allI impI)
  show "items = map (\<lambda>(env, line). (env, Inr (request N d line))) (lines_read reads)
      @ map (\<lambda>(env, e). (env, Inl e)) (first_error reads)"
    unfolding items by (rule items_of_reads)
  have u: "list_all item_usable items" unfolding items by (rule items_usable [OF assms(1)])
  note spec = control_loop_spec [OF u, of st, unfolded loop, folded n]
  show "length resps = n" and "st' = state_after (take (Suc n) items) st" using spec by simp_all
  have "list_all goes_on items \<longleftrightarrow> takeWhile goes_on items = items"
    by (simp add: takeWhile_eq_all_conv list_all_iff)
  also have "\<dots> \<longleftrightarrow> \<not> n < length items"
    unfolding n by (metis length_takeWhile_le takeWhile_eq_take linorder_not_less order_le_less take_all_iff)
  finally show "ending = (if n < length items then AfterExit else EndOfInput)" using spec by simp
  fix i assume i: "i < n"
  then have "i < length items" unfolding n using length_takeWhile_le order_less_le_trans by blast
  then have "item_usable (items ! i)" using u by (simp add: list_all_length)
  then have "fst (respond (fst (items ! i)) (snd (items ! i)) (state_after (take i items) st)) \<noteq> None"
    by (intro respond_usable) simp
  with spec i show "fst (respond (fst (items ! i)) (snd (items ! i)) (state_after (take i items) st))
      = Some (resps ! i)" by auto
qed

text \<open>
  A connection that asks for the status, closes an unknown tunnel, and leaves before its last line;
  and one with a line that is too long between two others.
\<close>

definition example_reads :: "(Env \<times> framed_read) list" where
  "example_reads = map (\<lambda>line. (alone (Inr ()) 0, Decoded (Inr (Some line))))
     [''status'', ''CLOSE a:1'', ''exit'', ''open a:1=b:2'']"

definition long_line_reads :: "(Env \<times> framed_read) list" where
  "long_line_reads = map (Pair (alone (Inr ()) 0))
     [Decoded (Inr (Some ''status'')), Decoded (Inr None), Decoded (Inl ''max line length exceeded''),
      Decoded (Inr (Some ''CLOSE a:1''))]"

lemma example_lines:
  "decode documented_nom DEFAULT_TUNNEL_OPTIONS (Inr (Some ''status'')) = Inr (Some (Status False))"
  "decode documented_nom DEFAULT_TUNNEL_OPTIONS (Inr (Some ''CLOSE a:1'')) = Inr (Some (Close here))"
  "decode documented_nom DEFAULT_TUNNEL_OPTIONS (Inr (Some ''exit'')) = Inr (Some Exit)"
  "decode documented_nom DEFAULT_TUNNEL_OPTIONS (Inr (Some ''open a:1=b:2''))
     = Inr (Some (Open \<lparr>tun_local = here, tun_remote = [near], tun_options = None\<rparr>))"
  unfolding here_def near_def by code_simp+

theorem every_line_is_answered_in_order_witness:
  "\<exists>resps. control_loop (items_of documented_nom DEFAULT_TUNNEL_OPTIONS example_reads) boot
       = (resps, boot, AfterExit)
     \<and> resps ! 1 = Problem (Some TunnelDoesNotExist) \<and> length resps = 2"
proof -
  let ?items = "items_of documented_nom DEFAULT_TUNNEL_OPTIONS example_reads"
  have items: "?items = map (Pair (alone (Inr ()) 0))
      [Inr (Status False), Inr (Close here), Inr Exit,
       Inr (Open \<lparr>tun_local = here, tun_remote = [near], tun_options = None\<rparr>)]"
    by (simp add: example_reads_def example_lines)
  then have n: "length (takeWhile goes_on ?items) = 2" by (simp add: goes_on_def)
  obtain resps st' ending where loop: "control_loop ?items boot = (resps, st', ending)"
    by (cases "control_loop ?items boot") auto
  have boot: "st_tunnels boot = []" by (simp add: boot_def new_State_def)
  have after: "state_after (take 1 ?items) boot = boot" "state_after (take 3 ?items) boot = boot"
    using boot by (simp_all add: items state_after_def respond_def number_of_tunnels_def stop_tunnel_def
        remove_tunnel_def eval_nat_numeral)
  note answered = every_line_is_answered_in_order
    [OF documented.nom_results_axioms refl n [symmetric] loop, THEN conjunct2]
  have "length resps = 2" and "ending = AfterExit" and "st' = boot"
    using answered after by (simp_all add: items eval_nat_numeral)
  moreover have "fst (respond (fst (?items ! 1)) (snd (?items ! 1)) boot) = Some (resps ! 1)"
    using answered [THEN conjunct2, THEN conjunct1, rule_format, of 1] after(1) by simp
  ultimately show ?thesis using loop boot
    by (auto simp: items respond_def stop_tunnel_def remove_tunnel_def from_result_def)
qed

text \<open>The line after the one that is too long gets no answer.\<close>

lemma long_line_ends_connection:
  "control_loop (items_of documented_nom DEFAULT_TUNNEL_OPTIONS long_line_reads) boot
     = ([Info ''No tunnels'' None, Problem (Some (ControlProtocolLineError ''max line length exceeded''))],
        boot, EndOfInput)"
proof -
  have "st_tunnels boot = []" by (simp add: boot_def new_State_def)
  then show ?thesis
    by (simp add: long_line_reads_def example_lines respond_def number_of_tunnels_def)
      (simp add: decode_def respond_def)
qed

subsection \<open>Requests are read back\<close>

lemma spec_from_str_printed:
  assumes "nom_documented N" and "printed_spec s"
  shows "spec_from_str N (spec_to_string s) = Inr s"
  using socket_spec_printed [OF assms(2), of "[]"] assms(1)
  by (simp add: spec_from_str_def spec_to_string_def nom_documented_def no_digit_def trim_end_def)

lemma show_word_no_blank: "CHR '' '' \<notin> set (show_word (p :: 'a :: len word))"
  using show_int_digits [of "uint p"] by (auto simp: show_word_def list_all_iff is_digit_def)

lemma printed_spec_no_blank: "printed_spec s \<Longrightarrow> CHR '' '' \<notin> set (spec_to_string s)"
proof (induction rule: printed_spec.induct)
  case (with_name h p)
  then show ?case using show_word_no_blank [of p]
    by (auto simp: spec_to_string_def host_text_def list_all_iff is_other_hostname_char_def char_class_defs)
next
  case (with_ipv4 a b c d p)
  then show ?case using show_word_no_blank [of p]
    by (auto simp: spec_to_string_def octet_text_def list_all_iff char_class_defs)
next
  case (with_ipv6 s ss p)
  have "CHR '' '' \<notin> set t" if "segment_text t" for t
    using that by (auto simp: segment_text_def list_all_iff char_class_defs)
  with with_ipv6 have "\<forall>t \<in> set (s # ss). CHR '' '' \<notin> set t" by (auto simp: list_all_iff)
  then show ?case using show_word_no_blank [of p] by (auto simp: spec_to_string_def segments_text_def)
qed

text \<open>A word in any case has no blank when its upper-case form has none.\<close>

lemma to_upper_no_blank: "CHR '' '' \<notin> set (to_upper w) \<Longrightarrow> CHR '' '' \<notin> set w"
  by (force simp: to_upper_def upper_char_def is_lower_def image_iff)

lemma command_word:
  assumes "CHR '' '' \<notin> set (to_upper w)"
  shows "splitn2 CHR '' '' (w @ '' '' @ rest) = (w, Some rest)" and "splitn2 CHR '' '' w = (w, None)"
  using splitn2_present [OF to_upper_no_blank [OF assms], of rest]
    splitn2_absent [OF to_upper_no_blank [OF assms]] by simp_all

lemma two_sockets_printed:
  assumes "nom_documented N" and "printed_spec l" and "printed_spec r"
  shows "two_sockets N (Some (spec_to_string l @ '' '' @ spec_to_string r)) = Inr (l, r)"
  using splitn2_present [OF printed_spec_no_blank [OF assms(2)], of "spec_to_string r"]
  by (simp add: two_sockets_def args_def spec_from_str_printed [OF assms(1)] assms)

text \<open>
  C28: a request written as its keyword, in any case, and the printed form of its addresses, host
  names, IPv4 or IPv6 addresses with a port, is parsed to that request; \<open>OPEN\<close> with the printed form
  of a tunnel to the request to open that tunnel without options of its own, since they are not
  printed.
\<close>

theorem requests_read_back:
  assumes "nom_documented N" and "printed_spec l" and "printed_spec r" and "printed_spec (tun_local t)"
    and "list_all printed_spec (tun_remote t)" and "tun_remote t \<noteq> []"
  shows "(to_upper w = ''OPEN'' \<longrightarrow>
        command_from_str N d (w @ '' '' @ tunnel_to_string t) = Inr (Open (t\<lparr>tun_options := None\<rparr>)))
    \<and> (to_upper w = ''CLOSE'' \<longrightarrow> command_from_str N d (w @ '' '' @ spec_to_string l) = Inr (Close l))
    \<and> (to_upper w = ''DETAIL'' \<longrightarrow> command_from_str N d (w @ '' '' @ spec_to_string l) = Inr (Detail l))
    \<and> (to_upper w = ''ADD'' \<longrightarrow>
        command_from_str N d (w @ '' '' @ spec_to_string l @ '' '' @ spec_to_string r) = Inr (Add l r))
    \<and> (to_upper w = ''REMOVE'' \<longrightarrow>
        command_from_str N d (w @ '' '' @ spec_to_string l @ '' '' @ spec_to_string r) = Inr (Remove l r))
    \<and> (to_upper w = ''STATUS'' \<longrightarrow> command_from_str N d w = Inr (Status False)
        \<and> (to_upper x \<in> {''FULL'', ''LONG''} \<longrightarrow> command_from_str N d (w @ '' '' @ x) = Inr (Status True)))
    \<and> (to_upper w = ''HELP'' \<longrightarrow> command_from_str N d w = Inr Help)
    \<and> (to_upper w = ''EXIT'' \<longrightarrow> command_from_str N d w = Inr Exit)"
  using command_word [of w] printed_tunnel [OF assms(1,4,5,6), of d]
    spec_from_str_printed [OF assms(1,2)] two_sockets_printed [OF assms(1-3)]
  by (auto simp: command_from_str_def one_socket_def status_arg_def args_def)

theorem requests_read_back_witness:
  "command_from_str documented_nom DEFAULT_TUNNEL_OPTIONS ''Add a:1 [::ff]:2'' = Inr (Add here (SocketSpec ''[::ff]:2''))"
proof -
  let ?r = "SocketSpec ''[::ff]:2''"
  let ?t = "\<lparr>tun_local = here, tun_remote = [?r], tun_options = None\<rparr>"
  have "named_spec here" and two: "show_word (2 :: u16) = ''2''" and u: "to_upper ''Add'' = ''ADD''"
    and seg: "list_all segment_text ['''', '''', ''ff'']" by code_simp+
  then have h: "printed_spec here" by (intro named_printed)
  from printed_spec.with_ipv6 [OF seg, of 2] have r: "printed_spec ?r"
    by (simp add: two segments_text_def)
  from h r have "printed_spec (tun_local ?t)" "list_all printed_spec (tun_remote ?t)" "tun_remote ?t \<noteq> []"
    by simp_all
  from requests_read_back [OF _ h r this, of documented_nom "''Add''" DEFAULT_TUNNEL_OPTIONS "[]"] u
  show ?thesis by (simp add: nom_documented_def spec_to_string_def here_def)
qed

end
