(* ===== verification/Rpc.thy ===== *)
theory Rpc
  imports Protocol_Spec
begin

text \<open>
  The JSON-RPC interface (\<open>src/rpc.rs\<close>): its methods over the shared state. The texts of the
  arguments are parsed first; the transport and the (de)serialization belong to the library.
  What a client is told of an error is its code and its text.
\<close>

record ErrorObject =
  eo_code :: int
  eo_message :: string
  eo_data :: "unit option"

definition error_object :: "Error \<Rightarrow> ErrorObject" where
  "error_object e = \<lparr>eo_code = error_code e, eo_message = error_to_string e, eo_data = None\<rparr>"

record RPCTunnelInfo =
  rti_stats :: TunnelStats
  rti_num_remotes :: nat
  rti_num_dead_remotes :: nat
  rti_options :: TunnelOptions

definition rpc_tunnel_info_of :: "TunnelInfo \<Rightarrow> RPCTunnelInfo" where
  "rpc_tunnel_info_of ti =
     \<lparr>rti_stats = ti_stats ti, rti_num_remotes = length (ti_remotes ti),
      rti_num_dead_remotes = length (ti_dead_remotes ti), rti_options = ti_options ti\<rparr>"

subsection \<open>Queries\<close>

definition rpc_number_of_tunnels :: "State \<Rightarrow> nat" where
  "rpc_number_of_tunnels st = number_of_tunnels st"

definition rpc_list_tunnels :: "State \<Rightarrow> string list" where
  "rpc_list_tunnels st = map spec_to_string (list_tunnels st)"

definition rpc_tunnel_info :: "nom \<Rightarrow> string \<Rightarrow> State \<Rightarrow> RPCTunnelInfo result" where
  "rpc_tunnel_info N tunnel_socket st =
     (case spec_from_str N tunnel_socket of
        Inl e \<Rightarrow> Inl e
      | Inr addr \<Rightarrow> info_to rpc_tunnel_info_of addr st)"

text \<open>The collected \<open>HashMap\<close>: a later entry with the same key replaces an earlier one.\<close>

definition rpc_remotes :: "nom \<Rightarrow> string \<Rightarrow> State \<Rightarrow> (string \<rightharpoonup> RemoteStats) result" where
  "rpc_remotes N tunnel_socket st =
     (case spec_from_str N tunnel_socket of
        Inl e \<Rightarrow> Inl e
      | Inr addr \<Rightarrow>
          (case remotes addr st of
             Inl e \<Rightarrow> Inl e
           | Inr (rs, _) \<Rightarrow> Inr (fold (\<lambda>(k, v) m. m(spec_to_string k \<mapsto> v)) rs Map.empty)))"

subsection \<open>Administration\<close>

text \<open>Parsing a list stops at the first error.\<close>

fun parse_all :: "nom \<Rightarrow> string list \<Rightarrow> SocketSpec list result" where
  "parse_all N [] = Inr []"
| "parse_all N (s # ss) =
     (case spec_from_str N s of
        Inl e \<Rightarrow> Inl e
      | Inr r \<Rightarrow> (case parse_all N ss of Inl e \<Rightarrow> Inl e | Inr rs \<Rightarrow> Inr (r # rs)))"

definition rpc_open_tunnel ::
  "Env \<Rightarrow> nom \<Rightarrow> string \<Rightarrow> string list \<Rightarrow> TunnelOptions option \<Rightarrow> State \<Rightarrow> unit result option \<times> State" where
  "rpc_open_tunnel env N tunnel_socket rems opts st =
     (case spec_from_str N tunnel_socket of
        Inl e \<Rightarrow> (Some (Inl e), st)
      | Inr l \<Rightarrow>
          (case parse_all N rems of
             Inl e \<Rightarrow> (Some (Inl e), st)
           | Inr rs \<Rightarrow>
               (case start_tunnel env \<lparr>tun_local = l, tun_remote = rs, tun_options = opts\<rparr> st of
                  (None, st') \<Rightarrow> (None, st')
                | (Some (Inl e), st') \<Rightarrow> (Some (Inl e), st')
                | (Some (Inr _), st') \<Rightarrow> (Some (Inr ()), st'))))"

definition rpc_close_tunnel :: "nom \<Rightarrow> string \<Rightarrow> State \<Rightarrow> unit result \<times> State" where
  "rpc_close_tunnel N tunnel_socket st =
     (case spec_from_str N tunnel_socket of
        Inl e \<Rightarrow> (Inl e, st)
      | Inr l \<Rightarrow>
          (case stop_tunnel l st of
             (Inl e, st') \<Rightarrow> (Inl e, st')
           | (Inr _, st') \<Rightarrow> (Inr (), st')))"

definition rpc_add_remote :: "nom \<Rightarrow> string \<Rightarrow> string \<Rightarrow> State \<Rightarrow> unit result \<times> State" where
  "rpc_add_remote N a b st =
     (case spec_from_str N a of
        Inl e \<Rightarrow> (Inl e, st)
      | Inr l \<Rightarrow>
          (case spec_from_str N b of
             Inl e \<Rightarrow> (Inl e, st)
           | Inr r \<Rightarrow> add_remote_to_tunnel l r st))"

definition rpc_remove_remote :: "nom \<Rightarrow> string \<Rightarrow> string \<Rightarrow> State \<Rightarrow> RemoteStats result \<times> State" where
  "rpc_remove_remote N a b st =
     (case spec_from_str N a of
        Inl e \<Rightarrow> (Inl e, st)
      | Inr l \<Rightarrow>
          (case spec_from_str N b of
             Inl e \<Rightarrow> (Inl e, st)
           | Inr r \<Rightarrow>
               (case remove_remote_from_tunnel l r st of
                  (Inl e, st') \<Rightarrow> (Inl e, st')
                | (Inr ri, st') \<Rightarrow> (Inr (ri_stats ri), st'))))"

subsection \<open>Methods\<close>

text \<open>
  The methods of the interface with their arguments and the values they return. An error becomes
  an error object.
\<close>

datatype rpc_method =
    NumberOfTunnels
  | ListTunnels
  | GetTunnelInfo string
  | Remotes string
  | OpenTunnel string "string list" "TunnelOptions option"
  | CloseTunnel string
  | AddRemote string string
  | RemoveRemote string string

fun method_name :: "rpc_method \<Rightarrow> string" where
  "method_name NumberOfTunnels = ''numberOfTunnels''"
| "method_name ListTunnels = ''listTunnels''"
| "method_name (GetTunnelInfo a) = ''tunnelInfo''"
| "method_name (Remotes a) = ''remotes''"
| "method_name (OpenTunnel a rs opts) = ''openTunnel''"
| "method_name (CloseTunnel a) = ''closeTunnel''"
| "method_name (AddRemote a b) = ''addRemote''"
| "method_name (RemoveRemote a b) = ''removeRemote''"

datatype rpc_value =
    NumberValue nat
  | ListValue "string list"
  | InfoValue RPCTunnelInfo
  | RemotesValue "string \<rightharpoonup> RemoteStats"
  | UnitValue
  | StatsValue RemoteStats

definition rpc_reply :: "('a \<Rightarrow> rpc_value) \<Rightarrow> 'a result \<Rightarrow> ErrorObject + rpc_value" where
  "rpc_reply val res = map_sum error_object val res"

fun rpc_exec :: "nom \<Rightarrow> Env \<Rightarrow> rpc_method \<Rightarrow> State \<Rightarrow> (ErrorObject + rpc_value) option \<times> State" where
  "rpc_exec N env NumberOfTunnels st = (Some (Inr (NumberValue (rpc_number_of_tunnels st))), st)"
| "rpc_exec N env ListTunnels st = (Some (Inr (ListValue (rpc_list_tunnels st))), st)"
| "rpc_exec N env (GetTunnelInfo a) st = (Some (rpc_reply InfoValue (rpc_tunnel_info N a st)), st)"
| "rpc_exec N env (Remotes a) st = (Some (rpc_reply RemotesValue (rpc_remotes N a st)), st)"
| "rpc_exec N env (OpenTunnel a rs opts) st =
     apfst (map_option (rpc_reply (\<lambda>_. UnitValue))) (rpc_open_tunnel env N a rs opts st)"
| "rpc_exec N env (CloseTunnel a) st =
     apfst (Some \<circ> rpc_reply (\<lambda>_. UnitValue)) (rpc_close_tunnel N a st)"
| "rpc_exec N env (AddRemote a b) st =
     apfst (Some \<circ> rpc_reply (\<lambda>_. UnitValue)) (rpc_add_remote N a b st)"
| "rpc_exec N env (RemoveRemote a b) st =
     apfst (Some \<circ> rpc_reply StatsValue) (rpc_remove_remote N a b st)"

fun rpc_asks :: "rpc_method \<Rightarrow> bool" where
  "rpc_asks (OpenTunnel a rs opts) = False"
| "rpc_asks (CloseTunnel a) = False"
| "rpc_asks (AddRemote a b) = False"
| "rpc_asks (RemoveRemote a b) = False"
| "rpc_asks _ = True"

subsection \<open>The same as the control protocol\<close>

lemma request_one_socket:
  "request N d (''CLOSE '' @ a) = (case spec_from_str N a of Inl e \<Rightarrow> Invalid e | Inr l \<Rightarrow> Close l)"
  "request N d (''DETAIL '' @ a) = (case spec_from_str N a of Inl e \<Rightarrow> Invalid e | Inr l \<Rightarrow> Detail l)"
  by (simp_all add: request_def command_from_str_def to_upper_def upper_char_def is_lower_def one_socket_def
      args_def split: sum.split)

lemma request_two_sockets:
  assumes "CHR '' '' \<notin> set a"
  shows "request N d (''ADD '' @ a @ '' '' @ b) =
      (case spec_from_str N a of Inl e \<Rightarrow> Invalid e
       | Inr l \<Rightarrow> (case spec_from_str N b of Inl e \<Rightarrow> Invalid e | Inr r \<Rightarrow> Add l r))"
    and "request N d (''REMOVE '' @ a @ '' '' @ b) =
      (case spec_from_str N a of Inl e \<Rightarrow> Invalid e
       | Inr l \<Rightarrow> (case spec_from_str N b of Inl e \<Rightarrow> Invalid e | Inr r \<Rightarrow> Remove l r))"
  using splitn2_present [OF assms, of b]
  by (simp_all add: request_def command_from_str_def to_upper_def upper_char_def is_lower_def two_sockets_def
      args_def split: sum.split)

lemma request_open:
  "request N d (''OPEN '' @ s) = (case tunnel_from_str N d s of Inl e \<Rightarrow> Invalid e | Inr t \<Rightarrow> Open t)"
  by (simp add: request_def command_from_str_def to_upper_def upper_char_def is_lower_def args_def
      split: sum.split)

lemma tunnel_error_code: "tunnel_from_str N d x = Inl e \<Longrightarrow> error_code e = error_code (TunnelParseError s)"
  by (auto simp: tunnel_from_str_def split: sum.splits nom_err.splits)

lemma spec_error_code: "spec_from_str N a = Inl e \<Longrightarrow> error_code e = error_code (SocketSpecParseError s)"
  by (auto simp: spec_from_str_def split: sum.splits nom_err.splits if_splits)

text \<open>The texts denote these addresses, one by one.\<close>

definition denote :: "nom \<Rightarrow> string list \<Rightarrow> SocketSpec list \<Rightarrow> bool" where
  "denote N ys rs \<longleftrightarrow> list_all2 (\<lambda>y r. spec_from_str N y = Inr r) ys rs"

lemma parse_all_denote: "denote N ys rs \<Longrightarrow> parse_all N ys = Inr rs"
  unfolding denote_def by (induction rule: list_all2_induct) simp_all

lemma parse_all_error:
  "y \<in> set ys \<Longrightarrow> isl (spec_from_str N y)
     \<Longrightarrow> \<exists>e. parse_all N ys = Inl e \<and> error_code e = error_code (SocketSpecParseError s)"
  by (induction ys) (auto split: sum.split dest: spec_error_code)

text \<open>
  C11: \<open>closeTunnel\<close>, \<open>addRemote\<close> and \<open>removeRemote\<close> do to the state what the lines \<open>CLOSE\<close>,
  \<open>ADD\<close> and \<open>REMOVE\<close> with the same arguments do (the first without a blank), whatever they are, and
  one fails exactly if the other does, with the same error, whether an argument is no address or the
  operation refuses. \<open>openTunnel\<close> and \<open>OPEN\<close> whose arguments denote the same addresses and the same
  options do the same too, with the same errors. Where the arguments of a tunnel cannot be parsed
  both fail and leave the state alone, but with different errors, that of a tunnel from \<open>OPEN\<close> and
  that of a socket from \<open>openTunnel\<close>.
\<close>

theorem rpc_and_control_agree:
  assumes "CHR '' '' \<notin> set a"
  shows "exec env (request N d (''CLOSE '' @ a)) st
      = (Some (from_result (fst (rpc_close_tunnel N a st))), snd (rpc_close_tunnel N a st))
    \<and> exec env (request N d (''ADD '' @ a @ '' '' @ b)) st
      = (Some (from_result (fst (rpc_add_remote N a b st))), snd (rpc_add_remote N a b st))
    \<and> exec env (request N d (''REMOVE '' @ a @ '' '' @ b)) st
      = (Some (from_result (fst (rpc_remove_remote N a b st))), snd (rpc_remove_remote N a b st))
    \<and> (tunnel_from_str N d x = Inr \<lparr>tun_local = l, tun_remote = rs, tun_options = opts\<rparr>
        \<longrightarrow> denote N (y # ys) (l # rs)
        \<longrightarrow> exec env (request N d (''OPEN '' @ x)) st
          = apfst (map_option from_result) (rpc_open_tunnel env N y ys opts st))
    \<and> (isl (tunnel_from_str N d x) \<longrightarrow>
        (\<exists>e. exec env (request N d (''OPEN '' @ x)) st = (Some (Problem (Some e)), st)
          \<and> error_code e = error_code (TunnelParseError [])))
    \<and> ((\<exists>z \<in> set (y # ys). isl (spec_from_str N z)) \<longrightarrow>
        (\<exists>e. rpc_open_tunnel env N y ys opts st = (Some (Inl e), st)
          \<and> error_code e = error_code (SocketSpecParseError [])))"
proof (intro conjI impI)
  show "exec env (request N d (''CLOSE '' @ a)) st
      = (Some (from_result (fst (rpc_close_tunnel N a st))), snd (rpc_close_tunnel N a st))"
    unfolding request_one_socket rpc_close_tunnel_def by (auto split: sum.split prod.split)
  show "exec env (request N d (''ADD '' @ a @ '' '' @ b)) st
      = (Some (from_result (fst (rpc_add_remote N a b st))), snd (rpc_add_remote N a b st))"
    unfolding request_two_sockets [OF assms] rpc_add_remote_def by (auto split: sum.split prod.split)
  show "exec env (request N d (''REMOVE '' @ a @ '' '' @ b)) st
      = (Some (from_result (fst (rpc_remove_remote N a b st))), snd (rpc_remove_remote N a b st))"
    unfolding request_two_sockets [OF assms] rpc_remove_remote_def
    by (auto split: sum.split prod.split)
  show "exec env (request N d (''OPEN '' @ x)) st
      = apfst (map_option from_result) (rpc_open_tunnel env N y ys opts st)"
    if "tunnel_from_str N d x = Inr \<lparr>tun_local = l, tun_remote = rs, tun_options = opts\<rparr>"
      and "denote N (y # ys) (l # rs)"
  proof -
    have "spec_from_str N y = Inr l" "parse_all N ys = Inr rs"
      using that(2) by (auto simp: denote_def intro: parse_all_denote [unfolded denote_def])
    then show ?thesis
      unfolding request_open that(1) rpc_open_tunnel_def
      by (auto split: option.split sum.split prod.split)
  qed
  show "\<exists>e. exec env (request N d (''OPEN '' @ x)) st = (Some (Problem (Some e)), st)
      \<and> error_code e = error_code (TunnelParseError [])" if "isl (tunnel_from_str N d x)"
    using that tunnel_error_code unfolding request_open by (cases "tunnel_from_str N d x") auto
  show "\<exists>e. rpc_open_tunnel env N y ys opts st = (Some (Inl e), st)
      \<and> error_code e = error_code (SocketSpecParseError [])"
    if "\<exists>z \<in> set (y # ys). isl (spec_from_str N z)"
  proof (cases "spec_from_str N y")
    case (Inl e)
    with spec_error_code [OF this, of "[]"] show ?thesis by (simp add: rpc_open_tunnel_def)
  next
    case (Inr l')
    with that parse_all_error [of _ ys N "[]"] obtain e where "parse_all N ys = Inl e"
      and "error_code e = error_code (SocketSpecParseError [])" by auto
    with Inr show ?thesis by (simp add: rpc_open_tunnel_def)
  qed
qed

text \<open>Addresses in printed form denote themselves in both.\<close>

lemma opened_alike:
  assumes "nom_documented N" and "printed_spec l" and "list_all printed_spec rs" and "rs \<noteq> []"
  shows "tunnel_from_str N d (tunnel_to_string \<lparr>tun_local = l, tun_remote = rs, tun_options = opts\<rparr>)
      = Inr \<lparr>tun_local = l, tun_remote = rs, tun_options = None\<rparr>"
    and "denote N (map spec_to_string (l # rs)) (l # rs)"
  using printed_tunnel [OF assms(1), of "\<lparr>tun_local = l, tun_remote = rs, tun_options = opts\<rparr>"] assms
    spec_from_str_printed
  by (simp_all add: denote_def list_all2_map1 list_all2_same list_all_iff)

text \<open>A tunnel with options, and an address that is none.\<close>

theorem rpc_and_control_agree_witness:
  "exec (alone (Inr ()) 0) (request documented_nom DEFAULT_TUNNEL_OPTIONS ''OPEN a:1=b:2,c:3[retries=7]'') boot
     = apfst (map_option from_result) (rpc_open_tunnel (alone (Inr ()) 0) documented_nom ''a:1'' [''b:2'', ''c:3'']
         (Some (DEFAULT_TUNNEL_OPTIONS\<lparr>to_remote_connect_retries := 7\<rparr>)) boot)
   \<and> exec (alone (Inr ()) 0) (request documented_nom DEFAULT_TUNNEL_OPTIONS ''ADD a:1 nowhere'') boot
     = (Some (from_result (fst (rpc_add_remote documented_nom ''a:1'' ''nowhere'' boot))), boot)"
proof -
  have a: "CHR '' '' \<notin> set ''a:1''" by simp
  have p: "denote documented_nom [''a:1'', ''b:2'', ''c:3''] [here, near, far]"
    "tunnel_from_str documented_nom DEFAULT_TUNNEL_OPTIONS ''a:1=b:2,c:3[retries=7]''
       = Inr \<lparr>tun_local = here, tun_remote = [near, far],
           tun_options = Some (DEFAULT_TUNNEL_OPTIONS\<lparr>to_remote_connect_retries := 7\<rparr>)\<rparr>"
    unfolding here_def near_def far_def denote_def by code_simp+
  have "isl (spec_from_str documented_nom ''nowhere'')" by code_simp
  then have "snd (rpc_add_remote documented_nom ''a:1'' ''nowhere'' boot) = boot"
    by (auto simp: rpc_add_remote_def split: sum.splits)
  with rpc_and_control_agree [OF a, of "alone (Inr ()) 0" documented_nom DEFAULT_TUNNEL_OPTIONS boot "''nowhere''"
      "''a:1=b:2,c:3[retries=7]''" here "[near, far]" "Some (DEFAULT_TUNNEL_OPTIONS\<lparr>to_remote_connect_retries := 7\<rparr>)"
      "''a:1''" "[''b:2'', ''c:3'']"] p
  show ?thesis by (simp del: exec.simps)
qed

subsection \<open>The same reports\<close>

lemma collected_remotes:
  "distinct (map fst rs) \<Longrightarrow> fold (\<lambda>(k, v) m. m(spec_to_string k \<mapsto> v)) rs m0 (spec_to_string r)
     = (case map_of rs r of Some v \<Rightarrow> Some v | None \<Rightarrow> m0 (spec_to_string r))"
proof (induction rs arbitrary: m0)
  case (Cons kv rs)
  obtain k v where kv: "kv = (k, v)" by (cases kv)
  have "spec_to_string r = spec_to_string k \<longleftrightarrow> r = k"
    by (cases r; cases k) (simp add: spec_to_string_def)
  moreover have "r = k \<Longrightarrow> map_of rs r = None" using Cons.prems kv by (simp add: map_of_eq_None_iff)
  ultimately show ?case using Cons kv by (auto split: option.split)
qed simp

lemma remotes_distinct:
  assumes "wf_state st" and "remotes l st = Inr (rs, n)"
  shows "distinct (map fst rs)"
proof -
  from assms(2) obtain ti where ti: "get_tunnel st l = Some ti"
    and rs: "rs = map (\<lambda>(r, ri). (r, ri_stats ri)) (ti_remotes ti)"
    by (auto simp: remotes_def split: option.splits)
  from wf_tunnelD(1) [OF wf_stateD(4) [OF assms(1) ti]] show ?thesis
    by (simp add: rs im_wf_def case_prod_beta comp_def)
qed

lemma tunnels_reported_alike:
  "if rpc_number_of_tunnels st = 0
   then exec (alone b ch) (Status True) st = (Some (Info ''No tunnels'' None), st)
   else \<exists>ss. exec (alone b ch) (Status True) st
          = (Some (Info (status_text (rpc_number_of_tunnels st)) (Some (map status_line ss))), st)
        \<and> map (spec_to_string \<circ> fst) ss = rpc_list_tunnels st"
  by (auto simp: rpc_number_of_tunnels_def rpc_list_tunnels_def list_tunnels_def stats_def
      case_prod_beta intro!: exI [of _ "stats st"])

lemma remotes_reported_alike:
  assumes "wf_state st"
  shows "case (rpc_remotes N a st, rpc_tunnel_info N a st) of
      (Inl e, Inl e') \<Rightarrow> e = e' \<and> exec (alone b ch) (request N d (''DETAIL '' @ a)) st
        = (Some (Problem (Some e)), st)
    | (Inr m, Inr info) \<Rightarrow>
        \<exists>rs. exec (alone b ch) (request N d (''DETAIL '' @ a)) st
            = (Some (Info (detail_text (rti_num_remotes info) (rti_num_dead_remotes info) (rti_options info))
                 (Some (map detail_line rs))), st)
          \<and> length rs = rti_num_remotes info \<and> (\<forall>r. m (spec_to_string r) = map_of rs r)
    | _ \<Rightarrow> False"
proof (cases "spec_from_str N a")
  case (Inl e)
  then show ?thesis unfolding request_one_socket by (simp add: rpc_remotes_def rpc_tunnel_info_def)
next
  case l: (Inr l)
  show ?thesis
  proof (cases "get_tunnel st l")
    case None
    with l show ?thesis unfolding request_one_socket
      by (simp add: rpc_remotes_def rpc_tunnel_info_def remotes_def info_to_def)
  next
    case (Some ti)
    let ?rs = "map (\<lambda>(r, ri). (r, ri_stats ri)) (ti_remotes ti)"
    have r: "remotes l st = Inr (?rs, length (ti_dead_remotes ti))" by (simp add: remotes_def Some)
    from collected_remotes [OF remotes_distinct [OF assms r]]
    have "\<forall>x. fold (\<lambda>(k, v) m. m(spec_to_string k \<mapsto> v)) ?rs Map.empty (spec_to_string x) = map_of ?rs x"
      by (simp split: option.split)
    with l Some r show ?thesis unfolding request_one_socket
      by (simp add: rpc_remotes_def rpc_tunnel_info_def info_to_def tunnel_options_def
          rpc_tunnel_info_of_def) (intro exI [of _ ?rs], simp)
  qed
qed

text \<open>
  C23: both protocols report the same of the same state: the number and the addresses of the tunnels,
  and for a tunnel, if it exists, the statistics of each live remote, the numbers of live and dead
  ones and the options; otherwise the same error.
\<close>

theorem rpc_and_control_report_alike:
  assumes "wf_state st"
  shows "(if rpc_number_of_tunnels st = 0
      then exec (alone b ch) (Status True) st = (Some (Info ''No tunnels'' None), st)
      else \<exists>ss. exec (alone b ch) (Status True) st
             = (Some (Info (status_text (rpc_number_of_tunnels st)) (Some (map status_line ss))), st)
           \<and> map (spec_to_string \<circ> fst) ss = rpc_list_tunnels st)
    \<and> (case (rpc_remotes N a st, rpc_tunnel_info N a st) of
         (Inl e, Inl e') \<Rightarrow> e = e' \<and> exec (alone b ch) (request N d (''DETAIL '' @ a)) st
           = (Some (Problem (Some e)), st)
       | (Inr m, Inr info) \<Rightarrow>
           \<exists>rs. exec (alone b ch) (request N d (''DETAIL '' @ a)) st
               = (Some (Info (detail_text (rti_num_remotes info) (rti_num_dead_remotes info) (rti_options info))
                    (Some (map detail_line rs))), st)
             \<and> length rs = rti_num_remotes info \<and> (\<forall>r. m (spec_to_string r) = map_of rs r)
       | _ \<Rightarrow> False)"
  by (intro conjI tunnels_reported_alike remotes_reported_alike [OF assms])

theorem rpc_and_control_report_alike_witness:
  "\<exists>rs m. exec (alone (Inr ()) 0) (request documented_nom DEFAULT_TUNNEL_OPTIONS ''DETAIL a:1'') failed
       = (Some (Info (detail_text 1 1 (ti_options failed_tunnel)) (Some (map detail_line rs))), failed)
     \<and> rpc_remotes documented_nom ''a:1'' failed = Inr m \<and> map_of rs near = None \<and> m ''b:2'' = None"
proof -
  have p: "spec_from_str documented_nom ''a:1'' = Inr here" unfolding here_def by code_simp
  have live: "map fst (ti_remotes failed_tunnel) = [far]" "length (ti_dead_remotes failed_tunnel) = 1"
    unfolding failed_tunnel_def failed_def by code_simp+
  then have "length (ti_remotes failed_tunnel) = 1" by (metis length_map list.size(3,4) One_nat_def add_0)
  with live p have info: "rpc_tunnel_info documented_nom ''a:1'' failed
      = Inr \<lparr>rti_stats = ti_stats failed_tunnel, rti_num_remotes = 1, rti_num_dead_remotes = 1,
             rti_options = ti_options failed_tunnel\<rparr>"
    by (simp add: rpc_tunnel_info_def info_to_def failed_lookups rpc_tunnel_info_of_def)
  obtain m where m: "rpc_remotes documented_nom ''a:1'' failed = Inr m"
    using p by (simp add: rpc_remotes_def remotes_def failed_lookups)
  from rpc_and_control_report_alike [OF failed_lookups(1), where N = documented_nom and a = "''a:1''"
      and d = DEFAULT_TUNNEL_OPTIONS and b = "Inr ()" and ch = 0]
  obtain rs where "exec (alone (Inr ()) 0) (request documented_nom DEFAULT_TUNNEL_OPTIONS ''DETAIL a:1'') failed
       = (Some (Info (detail_text 1 1 (ti_options failed_tunnel)) (Some (map detail_line rs))), failed)"
    and mr: "\<forall>r. m (spec_to_string r) = map_of rs r"
    by (auto simp: info m)
  moreover have "m ''b:2'' = None"
    using m p live(1) failed_lookups
    by (auto simp: rpc_remotes_def remotes_def spec_to_string_def far_def map_eq_Cons_conv)
  moreover from this mr [rule_format, of near] have "map_of rs near = None"
    by (simp add: near_def spec_to_string_def)
  ultimately show ?thesis using m by blast
qed

end
