(* ===== verification/Requests.thy ===== *)
theory Requests
  imports Rpc
begin

text \<open>
  Administrative requests in the running system: what a request does to the shared state is a
  sequence of events of the system, with the events of the other tasks in between, so every
  invariant of the system holds whatever is asked of it; a request that fails has done nothing;
  what the status reports is what goes on.
\<close>

subsection \<open>Requests as events\<close>

lemma sys_run_append:
  "sys_run P (xs @ ys) s = (case sys_run P xs s of None \<Rightarrow> None | Some s' \<Rightarrow> sys_run P ys s')"
  by (induction xs arbitrary: s) (auto split: option.split)

definition begins :: "Tunnel \<Rightarrow> Sys \<Rightarrow> bool" where
  "begins t s \<longleftrightarrow> create_tunnel_start t (sys_state s) = Some (Inr ())"

text \<open>
  The events of a request, when the other tasks do \<open>mid\<close> while it runs; the listener of a tunnel
  that is opened is then the \<open>i\<close>-th that is being bound, with outcome \<open>b\<close>.
\<close>

fun command_events :: "CommandRequest \<Rightarrow> sys_event list \<Rightarrow> nat \<Rightarrow> unit result \<Rightarrow> Sys \<Rightarrow> sys_event list" where
  "command_events (Open t) mid i b s = StartTunnel t # (if begins t s then mid @ [Bound i b] else [])"
| "command_events (Close l) mid i b s = [StopTunnel l]"
| "command_events (Add l r) mid i b s = [AddRemoteTo l r]"
| "command_events (Remove l r) mid i b s = [RemoveRemoteFrom l r]"
| "command_events (Status long) mid i b s = (if number_of_tunnels (sys_state s) = 0 then [] else mid)"
| "command_events (Detail l) mid i b s = (if isl (remotes l (sys_state s)) then [] else mid)"
| "command_events Help mid i b s = []"
| "command_events Exit mid i b s = []"
| "command_events (Invalid e) mid i b s = []"

text \<open>The system after the first step of a request, in which the other tasks go on.\<close>

definition request_begun :: "CommandRequest \<Rightarrow> Sys \<Rightarrow> Sys" where
  "request_begun c s =
     (case c of Open t \<Rightarrow> if begins t s then s\<lparr>sys_starting := sys_starting s @ [t]\<rparr> else s | _ \<Rightarrow> s)"

definition env_at :: "Sys \<Rightarrow> unit result \<Rightarrow> Env" where
  "env_at s b = \<lparr>env_acts = (\<lambda>_ _. sys_state s), env_bound = b, env_channel = sys_next_channel s\<rparr>"

lemma env_at_fields [simp]:
  "env_acts (env_at s b) k st = sys_state s"
  "env_bound (env_at s b) = b"
  "env_channel (env_at s b) = sys_next_channel s"
  by (simp_all add: env_at_def)

lemma open_events:
  assumes "sys_run (\<lambda>_ _. True) mid (request_begun (Open t) s) = Some s2"
    and "i < length (sys_starting s2)" and "sys_starting s2 ! i = t"
  shows "\<exists>s'. sys_run (\<lambda>_ _. True) (command_events (Open t) mid i b s) s = Some s'
    \<and> sys_state s' = snd (start_tunnel (env_at s2 b) t (sys_state s))"
proof (cases "begins t s")
  case True
  with assms show ?thesis
    by (simp add: request_begun_def begins_def start_tunnel_def sys_run_append split: prod.split)
next
  case False
  then show ?thesis
    by (auto simp: begins_def start_tunnel_def split: option.split sum.split)
qed

text \<open>
  C10: what a request does to the shared state is what its events do in the system, with whatever
  the other tasks do while it runs: opening starts a tunnel and ends with the outcome of the
  binding, closing, adding and removing are one event each, and the others are none.
\<close>

theorem requests_are_system_events:
  assumes mid: "sys_run (\<lambda>_ _. True) mid (request_begun c s) = Some s2"
    and bound: "\<And>t. c = Open t \<Longrightarrow> i < length (sys_starting s2) \<and> sys_starting s2 ! i = t"
  shows "\<exists>s'. sys_run (\<lambda>_ _. True) (command_events c mid i b s) s = Some s'
    \<and> sys_state s' = snd (exec (env_at s2 b) c (sys_state s))"
proof (cases c)
  case (Open t)
  with open_events [of mid t s s2 i b] mid bound show ?thesis by (simp only: exec_open)
next
  case (Status long)
  with mid show ?thesis by (auto simp: request_begun_def Let_def)
next
  case (Detail l)
  with mid show ?thesis by (auto simp: request_begun_def Let_def isl_def split: sum.split)
qed (auto split: sum.split prod.split)

text \<open>Opening a tunnel while another task opens one too.\<close>

theorem requests_are_system_events_witness:
  "\<exists>s'. sys_run (\<lambda>_ _. True) [StartTunnel example_tunnel, CheckEnded 9 True 0, Bound 0 (Inr ())]
       (new_Sys boot) = Some s'
     \<and> sys_state s' = snd (exec (env_at (request_begun (Open example_tunnel) (new_Sys boot)) (Inr ()))
         (Open example_tunnel) boot)"
proof -
  have b: "begins example_tunnel (new_Sys boot)"
    by (simp add: begins_def new_Sys_def boot_def) code_simp
  then have starting: "sys_starting (request_begun (Open example_tunnel) (new_Sys boot)) = [example_tunnel]"
    by (simp add: request_begun_def new_Sys_def)
  have "st_tasks boot = []" by (simp add: boot_def new_State_def)
  then have "sys_run (\<lambda>_ _. True) [CheckEnded 9 True 0] (request_begun (Open example_tunnel) (new_Sys boot))
      = Some (request_begun (Open example_tunnel) (new_Sys boot))"
    using b by (simp add: request_begun_def dead_check_done_def new_Sys_def)
  from requests_are_system_events [OF this, of 0 "Inr ()"] starting b
  have "\<exists>s'. sys_run (\<lambda>_ _. True)
      (command_events (Open example_tunnel) [CheckEnded 9 True 0] 0 (Inr ()) (new_Sys boot)) (new_Sys boot) = Some s'
    \<and> sys_state s' = snd (exec (env_at (request_begun (Open example_tunnel) (new_Sys boot)) (Inr ()))
         (Open example_tunnel) (sys_state (new_Sys boot)))"
    by fastforce
  moreover have "command_events (Open example_tunnel) [CheckEnded 9 True 0] 0 (Inr ()) (new_Sys boot)
      = [StartTunnel example_tunnel, CheckEnded 9 True 0, Bound 0 (Inr ())]"
    using b by simp
  moreover have "sys_state (new_Sys boot) = boot" by (simp add: new_Sys_def)
  ultimately show ?thesis by (simp only:)
qed

subsection \<open>Failed requests\<close>

lemma start_fails:
  "fst (start_tunnel env t st) = Some (Inl e) \<Longrightarrow> snd (start_tunnel env t st) \<in> others_only env st"
  using start_tunnel_failed [of env t st e] by (simp add: others_only_def)

lemma rpc_open_fails:
  assumes "fst (rpc_open_tunnel env N a rs opts st) = Some (Inl e)"
  shows "snd (rpc_open_tunnel env N a rs opts st) \<in> others_only env st"
proof (cases "spec_from_str N a")
  case (Inl x)
  then show ?thesis by (simp add: rpc_open_tunnel_def others_only_def)
next
  case l: (Inr l)
  show ?thesis
  proof (cases "parse_all N rs")
    case (Inl x)
    with l show ?thesis by (simp add: rpc_open_tunnel_def others_only_def)
  next
    case (Inr rs')
    let ?t = "\<lparr>tun_local = l, tun_remote = rs', tun_options = opts\<rparr>"
    obtain res st' where started: "start_tunnel env ?t st = (res, st')" by (cases "start_tunnel env ?t st")
    with assms l Inr have "res = Some (Inl e)"
      by (auto simp: rpc_open_tunnel_def split: option.splits sum.splits)
    with l Inr started start_fails [of env ?t st e] show ?thesis by (simp add: rpc_open_tunnel_def)
  qed
qed

text \<open>
  What the two protocols have in common: a request keeps the state well-formed if the other tasks
  do, and leaves it to them if it only asks or is refused.
\<close>

locale front_end =
  fixes run :: "Env \<Rightarrow> 'q \<Rightarrow> State \<Rightarrow> 'r option \<times> State"
    and refused :: "'r \<Rightarrow> bool"
    and only_asks :: "'q \<Rightarrow> bool"
  assumes keeps_wf: "wf_state st \<Longrightarrow> (\<And>k st'. wf_state st' \<Longrightarrow> wf_state (env_acts env k st'))
      \<Longrightarrow> wf_state (snd (run env q st))"
    and refusal: "fst (run env q st) = Some r \<Longrightarrow> refused r \<Longrightarrow> snd (run env q st) \<in> others_only env st"
    and asking: "only_asks q \<Longrightarrow> snd (run env q st) \<in> others_only env st"
begin

lemma unchanged:
  "only_asks q \<or> (\<exists>r. fst (run env q st) = Some r \<and> refused r) \<Longrightarrow> snd (run env q st) \<in> others_only env st"
  using refusal asking by blast

text \<open>Any number of requests of any connections, with any tasks between and during them.\<close>

lemma wf_requests:
  "wf_state st \<Longrightarrow> (\<And>env q k st'. (env, q) \<in> set rs \<Longrightarrow> wf_state st' \<Longrightarrow> wf_state (env_acts env k st'))
     \<Longrightarrow> wf_state (fold (\<lambda>(env, q) st. snd (run env q (env_acts env 0 st))) rs st)"
proof (induction rs arbitrary: st)
  case (Cons x rs)
  obtain env q where x: "x = (env, q)" by (cases x)
  have "wf_state (snd (run env q (env_acts env 0 st)))"
    using Cons.prems x by (intro keeps_wf) auto
  with Cons.IH Cons.prems(2) x show ?case by fastforce
qed simp

end

interpretation control: front_end exec "\<lambda>r. \<exists>e. r = Problem e" asks
proof
  fix st :: State and env :: Env and q :: CommandRequest
  assume "wf_state st" and "\<And>k st'. wf_state st' \<Longrightarrow> wf_state (env_acts env k st')"
  then show "wf_state (snd (exec env q st))"
    by (cases q) (auto simp: Let_def case_prod_beta split: sum.split intro: wf_intros)
qed (use exec_fails exec_asks in blast)+

lemma rpc_open_state:
  "snd (rpc_open_tunnel env N a rs opts st) = st
   \<or> (\<exists>t. snd (rpc_open_tunnel env N a rs opts st) = snd (start_tunnel env t st))"
proof (cases "isl (spec_from_str N a) \<or> isl (parse_all N rs)")
  case True
  then show ?thesis by (auto simp: rpc_open_tunnel_def split: sum.split)
next
  case False
  then obtain l rs' where "spec_from_str N a = Inr l" and "parse_all N rs = Inr rs'"
    by (metis sum.collapse(2))
  then show ?thesis
    by (intro disjI2 exI [of _ "\<lparr>tun_local = l, tun_remote = rs', tun_options = opts\<rparr>"])
      (simp add: rpc_open_tunnel_def split: prod.split option.split sum.split)
qed

interpretation rpc: front_end "rpc_exec N" isl rpc_asks for N
proof
  fix st :: State and env :: Env and q :: rpc_method
  assume wf: "wf_state st" and "\<And>k st'. wf_state st' \<Longrightarrow> wf_state (env_acts env k st')"
  then have "wf_state (snd (start_tunnel env t st))" for t by (rule wf_start_tunnel)
  with wf rpc_open_state [of env N _ _ _ st] have "wf_state (snd (rpc_open_tunnel env N a rs opts st))" for a rs opts
    by metis
  with wf show "wf_state (snd (rpc_exec N env q st))"
    by (cases q) (auto simp: rpc_close_tunnel_def rpc_add_remote_def rpc_remove_remote_def case_prod_beta
        split: sum.split intro: wf_intros)
next
  fix st :: State and env :: Env and q :: rpc_method
  show "rpc_asks q \<Longrightarrow> snd (rpc_exec N env q st) \<in> others_only env st"
    by (cases q) (simp_all add: others_only_def)
  fix r
  assume "fst (rpc_exec N env q st) = Some r" and "isl r"
  then show "snd (rpc_exec N env q st) \<in> others_only env st"
  proof (cases q)
    case (OpenTunnel a rs opts)
    with \<open>fst (rpc_exec N env q st) = Some r\<close> \<open>isl r\<close>
    obtain z where "fst (rpc_open_tunnel env N a rs opts st) = Some z" and "isl z"
      by (auto simp: rpc_reply_def isl_map_sum)
    with OpenTunnel rpc_open_fails show ?thesis by (cases z) auto
  qed (auto simp: rpc_reply_def others_only_def rpc_close_tunnel_def rpc_add_remote_def rpc_remove_remote_def
      stop_tunnel_def remove_tunnel_def add_remote_to_tunnel_def remove_remote_from_tunnel_def Let_def
      split: sum.splits option.splits if_splits)
qed

text \<open>Whatever is asked, dead remotes stay supervised.\<close>

lemma requests_keep_supervision:
  assumes "new_State cfg d c = Inr st0"
    and "\<And>env q k st. (env, q) \<in> set rs \<Longrightarrow> wf_state st \<Longrightarrow> wf_state (env_acts env k st)"
    and "st = fold (\<lambda>(env, q) st. snd (exec env q (env_acts env 0 st))) rs st0"
    and "get_tunnel st l = Some ti" and "im_get (ti_dead_remotes ti) r = Some dr"
  shows "supervised (im_get (st_tasks st)) l r dr"
proof -
  have "wf_state st"
    unfolding assms(3) by (rule control.wf_requests [OF wf_new_State [OF assms(1)]]) (rule assms(2))
  from wf_tunnelD(5) [OF wf_stateD(4) [OF this assms(4)] assms(5)] show ?thesis .
qed

text \<open>
  C27: a request that only asks, is answered with a problem by the control protocol, or with an
  error object by the JSON-RPC interface, has not changed the state: it is what the other tasks
  made of it, whether an argument is no address or the operation refuses.
\<close>

theorem failed_requests_change_nothing:
  "(asks c \<or> (\<exists>e. fst (exec env c st) = Some (Problem e)) \<longrightarrow> snd (exec env c st) \<in> others_only env st)
   \<and> (rpc_asks m \<or> (\<exists>e. fst (rpc_exec N env m st) = Some (Inl e))
        \<longrightarrow> snd (rpc_exec N env m st) \<in> others_only env st)"
  using control.unchanged [of c env st] rpc.unchanged [of m N env st] by fastforce

theorem failed_requests_change_nothing_witness:
  "snd (exec (alone (Inl (IOError ''in use'')) 0) (Open example_tunnel) boot) = boot"
proof -
  have "fst (exec (alone (Inl (IOError ''in use'')) 0) (Open example_tunnel) boot)
      = Some (Problem (Some (IOError ''in use'')))"
    by code_simp
  with failed_requests_change_nothing [of "Open example_tunnel" "alone (Inl (IOError ''in use'')) 0" boot]
  show ?thesis by (auto simp: others_only_def simp del: exec.simps)
qed

subsection \<open>The status\<close>

lemma status_exec:
  "number_of_tunnels st \<noteq> 0 \<Longrightarrow> env_acts env 1 st = st1 \<Longrightarrow> env_acts env 2 st1 = st2
     \<Longrightarrow> exec env (Status True) st
       = (Some (Info (status_text (number_of_tunnels st1)) (Some (map status_line (stats st2)))), st2)"
  by (simp add: Let_def)

text \<open>The lines of the text of the full status; without tunnels there is an empty one.\<close>

lemma status_lines:
  assumes "\<forall>l \<in> set (map fst ss). CHR 10 \<notin> set (spec_to_string l)"
  shows "lines_of (response_to_string (Info (status_text n) (Some (map status_line ss))))
    = (''OK: '' @ status_text n)
      # (if ss = [] then [''''] else map (\<lambda>x. CHR 9 # status_line x) ss)"
proof -
  have short: "CHR 10 \<notin> set (status_text n)" by (simp add: status_text_def)
  show ?thesis
  proof (cases "ss = []")
    case True
    with short lines_of_append [of "''OK: '' @ status_text n" "[]"] show ?thesis by simp
  next
    case False
    have "list_all (\<lambda>l. CHR 10 \<notin> set l) (map status_line ss)"
      using assms by (auto simp: list_all_iff status_line_no_feed)
    from response_lines [OF short this] False show ?thesis by (simp add: comp_def)
  qed
qed

text \<open>
  C29: the other tasks take any steps while a full status is produced, between the test whether
  there are tunnels, the count and the statistics. The first line of its text gives the number of
  tunnels at the count; then comes one line for every tunnel that is open when the statistics are
  taken. For every tunnel that was not closed on the way, the open connections in its line are the
  client connections then in progress and those whose task has panicked, the latter being none as
  long as the configuration of the tunnel made sense.
\<close>

theorem status_reports_connections:
  assumes "new_State cfg opts c = Inr st0" and "reachable (\<lambda>_ _. True) (new_Sys st0) n s"
    and "number_of_tunnels (sys_state s) \<noteq> 0"
    and "sys_run (\<lambda>_ _. True) mid1 s = Some s1" and "env_acts env 1 (sys_state s) = sys_state s1"
    and "sys_run (\<lambda>_ _. True) mid2 s1 = Some s2" and "env_acts env 2 (sys_state s1) = sys_state s2"
    and feeds: "\<forall>l \<in> set (list_tunnels (sys_state s2)). CHR 10 \<notin> set (spec_to_string l)"
  shows "\<exists>ss resp. exec env (Status True) (sys_state s) = (Some resp, sys_state s2)
    \<and> lines_of (response_to_string resp)
        = (''OK: '' @ status_text (number_of_tunnels (sys_state s1)))
          # (if ss = [] then [''''] else map (\<lambda>x. CHR 9 # status_line x) ss)
    \<and> map fst ss = list_tunnels (sys_state s2)
    \<and> (\<forall>(l, ts) \<in> set ss. never_closed l st0 s2
         \<longrightarrow> ts_streams_open ts = of_nat (count_sessions (in_progress l) s2 + count_sessions (panicked_in l) s2)
           \<and> (always_sane l st0 s2 \<longrightarrow> count_sessions (panicked_in l) s2 = 0))"
proof (intro exI conjI)
  let ?st = "sys_state s2"
  show "exec env (Status True) (sys_state s)
      = (Some (Info (status_text (number_of_tunnels (sys_state s1))) (Some (map status_line (stats ?st)))), ?st)"
    by (rule status_exec [OF assms(3,5,7)])
  show keys: "map fst (stats ?st) = list_tunnels ?st"
    by (simp add: stats_def list_tunnels_def case_prod_beta)
  show "lines_of (response_to_string
        (Info (status_text (number_of_tunnels (sys_state s1))) (Some (map status_line (stats ?st)))))
      = (''OK: '' @ status_text (number_of_tunnels (sys_state s1)))
        # (if stats ?st = [] then [''''] else map (\<lambda>x. CHR 9 # status_line x) (stats ?st))"
    by (rule status_lines) (use feeds in \<open>simp only: keys\<close>)
  have "reachable (\<lambda>_ _. True) (new_Sys st0) (n + length mid1 + length mid2) s2"
    by (intro sys_run_reachable [OF assms(6)] sys_run_reachable [OF assms(4)] assms(2))
  from wf_reachable [OF this wf_new_Sys [OF assms(1)]] have wf: "wf_state ?st" .
  show "\<forall>(l, ts) \<in> set (stats ?st). never_closed l st0 s2
      \<longrightarrow> ts_streams_open ts = of_nat (count_sessions (in_progress l) s2 + count_sessions (panicked_in l) s2)
        \<and> (always_sane l st0 s2 \<longrightarrow> count_sessions (panicked_in l) s2 = 0)"
  proof clarify
    fix l ts
    assume kept: "never_closed l st0 s2" and "(l, ts) \<in> set (stats ?st)"
    from this(2) obtain ti where "(l, ti) \<in> set (st_tunnels ?st)" and "ts = ti_stats ti"
      by (auto simp: stats_def)
    moreover from this have "get_tunnel ?st l = Some ti"
      using wf_stateD(1) [OF wf] by (simp add: im_wf_def)
    ultimately show "ts_streams_open ts = of_nat (count_sessions (in_progress l) s2 + count_sessions (panicked_in l) s2)
      \<and> (always_sane l st0 s2 \<longrightarrow> count_sessions (panicked_in l) s2 = 0)"
      using open_streams_count [OF assms(1)] kept sane_run_counts [OF assms(1), of l s2 "panicked_in l"]
      by (auto simp: never_closed_def count_counted_in)
  qed
qed

text \<open>
  The status of a proxy with one client: another tunnel is opened after the count, so that there
  are two lines below \<open>Tunnels: 1\<close>.
\<close>

definition one_client :: "sys_event list" where
  "one_client = [StartTunnel example_tunnel, Bound 0 (Inr ()), Accepted 0 ''client:9'', SessionStep 0 Proceed]"

definition after_count :: "sys_event list" where
  "after_count = [StartTunnel (example_tunnel\<lparr>tun_local := far\<rparr>), Bound 0 (Inr ())]"

definition status_env :: "Sys \<Rightarrow> Sys \<Rightarrow> Env" where
  "status_env s1 s2 = \<lparr>env_acts = (\<lambda>k _. if k = 1 then sys_state s1 else sys_state s2),
     env_bound = Inr (), env_channel = 0\<rparr>"

theorem status_reports_connections_witness:
  "\<exists>s s2 resp ts ts'. sys_run (keeps_tunnel here) one_client (new_Sys boot) = Some s
     \<and> exec (status_env s s2) (Status True) (sys_state s) = (Some resp, sys_state s2)
     \<and> lines_of (response_to_string resp)
         = [''OK: Tunnels: 1'', CHR 9 # status_line (here, ts), CHR 9 # status_line (far, ts')]
     \<and> ts_streams_open ts = 1"
proof -
  have "sys_run (keeps_tunnel here) (one_client @ after_count) (new_Sys boot) \<noteq> None" by code_simp
  then obtain s s2 where s: "sys_run (keeps_tunnel here) one_client (new_Sys boot) = Some s"
    and s2: "sys_run (keeps_tunnel here) after_count s = Some s2"
    and all: "sys_run (keeps_tunnel here) (one_client @ after_count) (new_Sys boot) = Some s2"
    by (auto simp: sys_run_append split: option.splits)
  have "map_option (\<lambda>s. number_of_tunnels (sys_state s))
      (sys_run (keeps_tunnel here) one_client (new_Sys boot)) = Some 1" by code_simp
  with s have n: "number_of_tunnels (sys_state s) = 1" by simp
  have "map_option (\<lambda>s. (list_tunnels (sys_state s), count_sessions (in_progress here) s,
        count_sessions (panicked_in here) s))
      (sys_run (keeps_tunnel here) (one_client @ after_count) (new_Sys boot)) = Some ([here, far], 1, 0)"
    by code_simp
  with all have l: "list_tunnels (sys_state s2) = [here, far]"
    and p: "count_sessions (in_progress here) s2 = 1" "count_sessions (panicked_in here) s2 = 0" by simp_all
  have kept: "never_closed here boot s2"
    unfolding never_closed_def using sys_run_reachable [OF all reachable.initial] by blast
  have r: "reachable (\<lambda>_ _. True) (new_Sys boot) (0 + length one_client) s"
    by (rule reachable_mono [OF sys_run_reachable [OF s reachable.initial]]) simp
  have m: "sys_run (\<lambda>_ _. True) after_count s = Some s2" by (rule sys_run_mono [OF s2]) simp
  have feeds: "\<forall>l \<in> set (list_tunnels (sys_state s2)). CHR 10 \<notin> set (spec_to_string l)"
    unfolding l by (simp add: here_def far_def spec_to_string_def)
  have env: "number_of_tunnels (sys_state s) \<noteq> 0" "sys_run (\<lambda>_ _. True) [] s = Some s"
    "env_acts (status_env s s2) 1 (sys_state s) = sys_state s"
    "env_acts (status_env s s2) 2 (sys_state s) = sys_state s2"
    by (simp_all add: n status_env_def)
  note reports = status_reports_connections [OF new_boot r env(1-3) m env(4) feeds, unfolded l n]
  from reports obtain ss resp where
    e: "exec (status_env s s2) (Status True) (sys_state s) = (Some resp, sys_state s2)"
    and t: "lines_of (response_to_string resp) = (''OK: '' @ status_text 1)
      # (if ss = [] then [''''] else map (\<lambda>x. CHR 9 # status_line x) ss)"
    and k: "map fst ss = [here, far]"
    and c: "\<forall>(l, ts) \<in> set ss. never_closed l boot s2
      \<longrightarrow> ts_streams_open ts = of_nat (count_sessions (in_progress l) s2 + count_sessions (panicked_in l) s2)
        \<and> (always_sane l boot s2 \<longrightarrow> count_sessions (panicked_in l) s2 = 0)"
    by (elim exE conjE) (rule that)
  from k obtain ts ts' where ss: "ss = [(here, ts), (far, ts')]" by (auto simp: map_eq_Cons_conv)
  have "status_text 1 = ''Tunnels: 1''" by code_simp
  with s e t c p ss kept show ?thesis
    by (intro exI [of _ s] exI [of _ s2] exI [of _ resp] exI [of _ ts] exI [of _ ts'])
      (simp del: exec.simps response_to_string.simps)
qed

end
