(* ===== verification/Tls.thy ===== *)
theory Tls
  imports State_Examples
begin

text \<open>
  The TLS client configuration (\<open>src/state/tls.rs\<close>): the trust anchors of the certificates in
  the file the arguments name, or those that come with the program. Files, the PEM and
  certificate formats and the TLS library are the parameter \<open>L\<close>; certificates and anchors are
  opaque texts, errors are the texts they print.
\<close>

record tls_lib =
  tl_open :: "string \<Rightarrow> string + string"
  tl_certs :: "string \<Rightarrow> string + string list"
  tl_trust_anchor :: "string \<Rightarrow> string + string"
  tl_server_roots :: "string list"
  tl_client_config :: "string list \<Rightarrow> ClientConfig"

text \<open>Collecting stops at the first certificate that is no trust anchor.\<close>

fun trust_anchors :: "tls_lib \<Rightarrow> string list \<Rightarrow> string list result" where
  "trust_anchors L [] = Inr []"
| "trust_anchors L (cert # certs) =
     (case tl_trust_anchor L cert of
        Inl e \<Rightarrow> Inl (from_webpki_error e)
      | Inr ta \<Rightarrow> (case trust_anchors L certs of Inl e \<Rightarrow> Inl e | Inr tas \<Rightarrow> Inr (ta # tas)))"

definition create_client_config :: "tls_lib \<Rightarrow> Args \<Rightarrow> ClientConfig result" where
  "create_client_config L a =
     (case arg_ca_bundle a of
        Some cafile \<Rightarrow>
          (case tl_open L cafile of
             Inl e \<Rightarrow> Inl (IOError e)
           | Inr pem \<Rightarrow>
               (case tl_certs L pem of
                  Inl e \<Rightarrow> Inl (IOError e)
                | Inr certs \<Rightarrow>
                    (case trust_anchors L certs of
                       Inl e \<Rightarrow> Inl e
                     | Inr tas \<Rightarrow> Inr (tl_client_config L tas))))
      | None \<Rightarrow> Inr (tl_client_config L (tl_server_roots L)))"

text \<open>
  A configuration trusts exactly the anchors of all certificates of the file, in their order,
  or the built-in ones; a file with one unusable certificate is refused as a whole.
\<close>

lemma trust_anchors_Inr:
  "trust_anchors L certs = Inr tas \<longleftrightarrow> map (tl_trust_anchor L) certs = map Inr tas"
proof (induction certs arbitrary: tas)
  case Nil
  then show ?case by auto
next
  case (Cons c cs)
  then show ?case
    by (cases tas; cases "trust_anchors L cs") (force split: sum.split)+
qed

lemma trust_anchors_Inl:
  "trust_anchors L certs = Inl e \<Longrightarrow> \<exists>c \<in> set certs. \<exists>x. tl_trust_anchor L c = Inl x \<and> e = CertificateError x"
  by (induction certs) (auto split: sum.splits)

lemma create_client_config_roots:
  "create_client_config L a = Inr cfg \<longleftrightarrow>
     (\<exists>tas. cfg = tl_client_config L tas
        \<and> (case arg_ca_bundle a of
             None \<Rightarrow> tas = tl_server_roots L
           | Some cafile \<Rightarrow>
               (\<exists>pem certs. tl_open L cafile = Inr pem \<and> tl_certs L pem = Inr certs
                  \<and> map (tl_trust_anchor L) certs = map Inr tas)))"
  by (auto simp: create_client_config_def trust_anchors_Inr [symmetric] split: option.splits sum.splits)

text \<open>An instance: a file is its certificates, one letter each, of which \<open>x\<close> is unusable.\<close>

definition example_tls :: tls_lib where
  "example_tls =
     \<lparr>tl_open = (\<lambda>f. if f = [] then Inl ''no such file'' else Inr f),
      tl_certs = (\<lambda>pem. Inr (map (\<lambda>c. [c]) pem)),
      tl_trust_anchor = (\<lambda>c. if c = ''x'' then Inl ''bad certificate'' else Inr c),
      tl_server_roots = [''root''], tl_client_config = (\<lambda>tas. ClientConfig (length tas))\<rparr>"

lemma example_tls_configs:
  "create_client_config example_tls default_Args = Inr (ClientConfig 1)"
  "create_client_config example_tls (default_Args\<lparr>arg_ca_bundle := Some ''abc''\<rparr>) = Inr (ClientConfig 3)"
  "create_client_config example_tls (default_Args\<lparr>arg_ca_bundle := Some ''axc''\<rparr>)
     = Inl (CertificateError ''bad certificate'')"
  by code_simp+

end
