(* ===== verification/Help.thy ===== *)
theory Help
  imports Parser_Spec
begin

text \<open>
  The help on tunnel specifications (\<open>Args::tunnel_help\<close> of \<open>src/config.rs\<close>): the text that is
  printed, and that it tells the truth about the parser: its examples are specifications, and it
  names exactly the options there are.
\<close>

definition help_text_lines :: "string list" where
  "help_text_lines =
     [[],
      ''    Tunnel specification consists of three parts, local_socket, where program is listening,'',
      ''    list of remote_sockets, where connections are proxied and eventually options for this tunnel '',
      ''    in square brackets, so it looks like:'',
      [],
      ''        local_socket=remote_socket[,remote_socket ...]['' @ [CHR 0x5C] @ ''[options'' @ [CHR 0x5C] @ '']]'',
      [],
      ''    socket is specified either by port number only, then address part is automatically IPv4 local loop - 127.0.0.1,'',
      ''    or it's host IP address (IPv4 or IPv6) or host name (that resolves locally to IP address). '',
      ''    You can have more then 1 remote socket addresses, in that case connections are load balanced between '',
      ''    remote hosts.'',
      ''    '',
      ''    Options must be in [ ] at the end of tunnel specification and they are key value parts separated by comma,'',
      ''    like key1=value1,... Valid options are:'',
      ''    '',
      ''    # Load balancing strategy'',
      ''    strategy=[random|round-robin|minimum-open-connections]'',
      ''    # Timeout for remote connection - seconds, allows decimals'',
      ''    timeout=<seconds>'',
      ''    # Retries for remote connection before failing the connection'',
      ''    retries=<n>'',
      ''    # Consequent errors on remote to consider it's down(dead) now'',
      ''    errors=<n>'',
      ''    # Internal to check if dead remote is alive again, allows decimals'',
      ''    check-interval=<seconds>'',
      ''    # Connect to remote via TLS, default is false'',
      ''    remote-tls=<true|false>'',
      [],
      ''    Examples of tunnel specifications:'',
      ''        localhost:4444=some.remote.host.net:3333'',
      ''        0.0.0.0:4444=192.168.33.5:3333,192.168.34.23:3333[strategy=random]'',
      ''        3000=3001,3002,3003[strategy=min-open-connections]'',
      ''        [::1]:3000=[::1]:3001,[::1]:3002,[::1]:3003[strategy=round-robin,timeout=2]'',
      [],
      ''        '']"

text \<open>What is printed: the lines, a line feed between them and one at the end.\<close>

definition tunnel_help :: string where
  "tunnel_help = concat (map (\<lambda>l. l @ [CHR 10]) help_text_lines)"

text \<open>The examples and the names of the options in it.\<close>

definition skip_blanks :: "string \<Rightarrow> string" where
  "skip_blanks = dropWhile (\<lambda>c. c = CHR '' '')"

definition help_examples :: "string list" where
  "help_examples =
     map skip_blanks (takeWhile (\<lambda>l. l \<noteq> [])
       (tl (dropWhile (\<lambda>l. skip_blanks l \<noteq> ''Examples of tunnel specifications:'') help_text_lines)))"

definition help_options :: "string list" where
  "help_options =
     map (takeWhile (\<lambda>c. c \<noteq> CHR ''=''))
       (filter (\<lambda>l. hd l \<noteq> CHR ''#'')
         (map skip_blanks (takeWhile (\<lambda>l. l \<noteq> [])
           (dropWhile (\<lambda>l. skip_blanks l \<noteq> ''# Load balancing strategy'') help_text_lines))))"

lemma help_options_eq:
  "help_options = [''strategy'', ''timeout'', ''retries'', ''errors'', ''check-interval'', ''remote-tls'']"
  by code_simp

lemma help_examples_eq:
  "help_examples =
     [''localhost:4444=some.remote.host.net:3333'',
      ''0.0.0.0:4444=192.168.33.5:3333,192.168.34.23:3333[strategy=random]'',
      ''3000=3001,3002,3003[strategy=min-open-connections]'',
      ''[::1]:3000=[::1]:3001,[::1]:3002,[::1]:3003[strategy=round-robin,timeout=2]'']"
  by code_simp

definition plain_tunnel :: "string \<Rightarrow> string list \<Rightarrow> TunnelOptions option \<Rightarrow> Tunnel" where
  "plain_tunnel l rs opts = \<lparr>tun_local = SocketSpec l, tun_remote = map SocketSpec rs, tun_options = opts\<rparr>"

lemma help_examples_parsed:
  "map (tunnel_from_str documented_nom DEFAULT_TUNNEL_OPTIONS) help_examples =
     [Inr (plain_tunnel ''localhost:4444'' [''some.remote.host.net:3333''] None),
      Inr (plain_tunnel ''0.0.0.0:4444'' [''192.168.33.5:3333'', ''192.168.34.23:3333'']
        (Some DEFAULT_TUNNEL_OPTIONS)),
      Inr (plain_tunnel ''127.0.0.1:3000'' [''127.0.0.1:3001'', ''127.0.0.1:3002'', ''127.0.0.1:3003'']
        (Some (DEFAULT_TUNNEL_OPTIONS\<lparr>to_lb_strategy := MinimumOpenConnections\<rparr>))),
      Inr (plain_tunnel ''[::1]:3000'' [''[::1]:3001'', ''[::1]:3002'', ''[::1]:3003'']
        (Some (DEFAULT_TUNNEL_OPTIONS\<lparr>to_lb_strategy := RoundRobin, to_options :=
           (to_options DEFAULT_TUNNEL_OPTIONS)\<lparr>ro_connect_timeout := the (parse_f32 ''2'')\<rparr>\<rparr>)))]"
  by code_simp

lemma help_option_values:
  "lb_from_str ''random'' = Inr Random" "parse_u16 ''3'' = Some 3" "parse_u64 ''3'' = Some 3"
  "parse_f32 ''3'' \<noteq> None" "parse_bool ''true'' = Some True"
  by code_simp+

lemma help_options_complete:
  "(\<exists>v opts'. set_option (k, v) opts = Inr opts') \<longleftrightarrow> to_lower k \<in> set help_options"
proof
  assume "\<exists>v opts'. set_option (k, v) opts = Inr opts'"
  then show "to_lower k \<in> set help_options"
    by (auto simp: set_option_def Let_def help_options_eq split: if_splits)
next
  assume "to_lower k \<in> set help_options"
  then have "set_option (k, ''random'') opts \<noteq> Inl (option_err ''random'') \<and> to_lower k = ''strategy''
      \<or> (\<exists>opts'. set_option (k, ''3'') opts = Inr opts')
      \<or> (\<exists>opts'. set_option (k, ''true'') opts = Inr opts')"
    using help_option_values by (auto simp: set_option_def Let_def help_options_eq)
  moreover have "set_option (k, ''random'') opts = Inr (opts\<lparr>to_lb_strategy := Random\<rparr>)"
    if "to_lower k = ''strategy''"
    using that help_option_values(1) by (simp add: set_option_def)
  ultimately show "\<exists>v opts'. set_option (k, v) opts = Inr opts'" by blast
qed

text \<open>
  C34: the help tells the truth: each of its examples is accepted as a tunnel, with the addresses
  and options it shows, and the options it lists are exactly those that some value can be given
  to, in any case of letters.
\<close>

theorem help_is_right:
  "map (tunnel_from_str documented_nom DEFAULT_TUNNEL_OPTIONS) help_examples =
     [Inr (plain_tunnel ''localhost:4444'' [''some.remote.host.net:3333''] None),
      Inr (plain_tunnel ''0.0.0.0:4444'' [''192.168.33.5:3333'', ''192.168.34.23:3333'']
        (Some DEFAULT_TUNNEL_OPTIONS)),
      Inr (plain_tunnel ''127.0.0.1:3000'' [''127.0.0.1:3001'', ''127.0.0.1:3002'', ''127.0.0.1:3003'']
        (Some (DEFAULT_TUNNEL_OPTIONS\<lparr>to_lb_strategy := MinimumOpenConnections\<rparr>))),
      Inr (plain_tunnel ''[::1]:3000'' [''[::1]:3001'', ''[::1]:3002'', ''[::1]:3003'']
        (Some (DEFAULT_TUNNEL_OPTIONS\<lparr>to_lb_strategy := RoundRobin, to_options :=
           (to_options DEFAULT_TUNNEL_OPTIONS)\<lparr>ro_connect_timeout := the (parse_f32 ''2'')\<rparr>\<rparr>)))]
   \<and> ((\<exists>v opts'. set_option (k, v) opts = Inr opts') \<longleftrightarrow> to_lower k \<in> set help_options)"
  by (rule conjI [OF help_examples_parsed help_options_complete])

end
