(* ===== verification/Startup.thy ===== *)
theory Startup
  imports Admin Tls Help
begin

text \<open>
  The start of the program (\<open>src/main.rs\<close> and \<open>Args::take_tunnels\<close> of \<open>src/config.rs\<close>), from the
  parsed command line on: the default options, the initial tunnels, the state, the servers, and
  then one attempt to start each tunnel. A tunnel that cannot be started is reported and the
  next one is tried; a specification that is no tunnel ends the program before it does anything.
  The certificates are loaded with the state. The servers are the sockets they listen on (what
  they do is in \<open>Servers\<close>).
\<close>

subsection \<open>The initial tunnels\<close>

fun parse_tunnels :: "nom \<Rightarrow> TunnelOptions \<Rightarrow> string list \<Rightarrow> Tunnel list result" where
  "parse_tunnels N d [] = Inr []"
| "parse_tunnels N d (s # ss) =
     (case tunnel_from_str N d s of
        Inl e \<Rightarrow> Inl e
      | Inr t \<Rightarrow> (case parse_tunnels N d ss of Inl e \<Rightarrow> Inl e | Inr ts \<Rightarrow> Inr (t # ts)))"

definition take_tunnels :: "nom \<Rightarrow> TunnelOptions \<Rightarrow> Args \<Rightarrow> Tunnel list result \<times> Args" where
  "take_tunnels N d a =
     (case arg_tunnels a of
        Some specs \<Rightarrow> (parse_tunnels N d specs, a\<lparr>arg_tunnels := None\<rparr>)
      | None \<Rightarrow> (Inr [], a\<lparr>arg_tunnels := None\<rparr>))"

text \<open>The loop over them: the results, the state, and whether an attempt panicked.\<close>

fun launch ::
  "(nat \<Rightarrow> Env) \<Rightarrow> nat \<Rightarrow> Tunnel list \<Rightarrow> State \<Rightarrow> TunnelHandler result list \<times> State \<times> bool" where
  "launch envs n [] st = ([], st, False)"
| "launch envs n (t # ts) st =
     (case start_tunnel (envs n) t (env_acts (envs n) 0 st) of
        (None, st') \<Rightarrow> ([], st', True)
      | (Some res, st') \<Rightarrow>
          (case launch envs (Suc n) ts st' of (results, st'', p) \<Rightarrow> (res # results, st'', p)))"

subsection \<open>The program\<close>

record Serving =
  sv_control_socket :: "SocketAddr option"
  sv_rpc_socket :: "SocketAddr option"
  sv_prometheus_socket :: "SocketAddr option"
  sv_results :: "TunnelHandler result list"
  sv_state :: State

datatype main_result = HelpShown string | MainFailed Error | MainPanicked | MainServing Serving

definition main_start :: "nom \<Rightarrow> tls_lib \<Rightarrow> (nat \<Rightarrow> Env) \<Rightarrow> Args \<Rightarrow> main_result" where
  "main_start N L envs a =
     (if arg_help_tunnel a then HelpShown tunnel_help
      else let d = default_tunnel_options
                     (set_default_tunnel_options (default_options_of_args a) DEFAULT_TUNNEL_OPTIONS)
           in (case take_tunnels N d a of
                 (Inl e, _) \<Rightarrow> MainFailed e
               | (Inr ts, a') \<Rightarrow>
                   (case new_State a' d (create_client_config L a') of
                      Inl e \<Rightarrow> MainFailed e
                    | Inr st \<Rightarrow>
                        (case launch envs 0 ts st of
                           (results, st', panicked) \<Rightarrow>
                             if panicked then MainPanicked
                             else MainServing \<lparr>sv_control_socket = arg_control_socket a',
                                    sv_rpc_socket = arg_rpc_socket a',
                                    sv_prometheus_socket = arg_prometheus_socket a',
                                    sv_results = results, sv_state = st'\<rparr>))))"

subsection \<open>What is started\<close>

lemma parse_tunnels_addresses:
  assumes "nom_results N"
  shows "parse_tunnels N d specs = Inr ts \<Longrightarrow> \<forall>t \<in> set ts. as_tuple (tun_local t) \<noteq> None"
proof (induction specs arbitrary: ts)
  case (Cons s ss)
  then obtain t ts' where t: "tunnel_from_str N d s = Inr t" and "parse_tunnels N d ss = Inr ts'"
    and "ts = t # ts'"
    by (auto split: sum.splits)
  moreover from t have "as_tuple (tun_local t) \<noteq> None"
    using nom_results.tunnel_addresses [OF assms, of d s]
    by (auto simp: tunnel_from_str_def split: sum.splits nom_err.splits)
  ultimately show ?case using Cons.IH by simp
qed simp

text \<open>The first tunnel with a local address whose listener can be bound, with its position.\<close>

fun first_bound ::
  "(nat \<Rightarrow> unit result) \<Rightarrow> nat \<Rightarrow> Tunnel list \<Rightarrow> SocketSpec \<Rightarrow> (nat \<times> Tunnel) option" where
  "first_bound bounds n [] l = None"
| "first_bound bounds n (t # ts) l =
     (if tun_local t = l \<and> bounds n = Inr () then Some (n, t) else first_bound bounds (Suc n) ts l)"

definition tunnel_record :: "(nat \<Rightarrow> channel_id) \<Rightarrow> TunnelOptions \<Rightarrow> nat \<times> Tunnel \<Rightarrow> TunnelInfo" where
  "tunnel_record chs d nt =
     new_TunnelInfo (chs (fst nt)) (tun_remote (snd nt))
       (case tun_options (snd nt) of Some opts \<Rightarrow> opts | None \<Rightarrow> d)"

lemma add_tunnel_lookup:
  "get_tunnel (snd (add_tunnel t ch st)) l =
     (case get_tunnel st l of
        Some ti \<Rightarrow> Some ti
      | None \<Rightarrow>
          if tun_local t = l
          then Some (tunnel_record (\<lambda>_. ch) (st_default_options st) (0, t)) else None)"
  by (auto simp: add_tunnel_def tunnel_record_def im_contains_key_def Let_def split: option.split)

lemma add_tunnel_defaults: "st_default_options (snd (add_tunnel t ch st)) = st_default_options st"
  by (simp add: add_tunnel_def Let_def put_tunnel_def)

lemma launch_alone:
  assumes "\<forall>t \<in> set ts. as_tuple (tun_local t) \<noteq> None"
    and "launch (\<lambda>n. alone (bounds n) (chs n)) n ts st = (results, st', panicked)"
  shows "\<not> panicked \<and> length results = length ts
    \<and> get_tunnel st' l =
        (case get_tunnel st l of
           Some ti \<Rightarrow> Some ti
         | None \<Rightarrow> map_option (tunnel_record chs (st_default_options st)) (first_bound bounds n ts l))"
  using assms
proof (induction ts arbitrary: n st results)
  case Nil
  then show ?case by (auto split: option.split)
next
  case (Cons t ts)
  let ?env = "alone (bounds n) (chs n)"
  obtain res st1 where started: "start_tunnel ?env t st = (Some res, st1)"
    using start_tunnel_returns [of t ?env st] Cons.prems(1) by (cases "start_tunnel ?env t st") auto
  obtain results' st2 p where rest: "launch (\<lambda>n. alone (bounds n) (chs n)) (Suc n) ts st1 = (results', st2, p)"
    by (cases "launch (\<lambda>n. alone (bounds n) (chs n)) (Suc n) ts st1") auto
  with started Cons.prems(2) have r: "results = res # results'" "st' = st2" "panicked = p" by auto
  have st1: "st1 = (if bounds n = Inr () then snd (add_tunnel t (chs n) st) else st)"
    using started Cons.prems(1)
    by (auto simp: start_tunnel_def create_tunnel_start_def create_tunnel_bound_def add_tunnel_def
        tunnel_exists_def split: if_splits sum.splits prod.splits)
  have "st_default_options st1 = st_default_options st" using st1 add_tunnel_defaults by simp
  moreover have "get_tunnel st1 l =
      (case get_tunnel st l of
         Some ti \<Rightarrow> Some ti
       | None \<Rightarrow> if tun_local t = l \<and> bounds n = Inr ()
                 then Some (tunnel_record chs (st_default_options st) (n, t)) else None)"
    by (auto simp: st1 add_tunnel_lookup tunnel_record_def split: option.split)
  ultimately show ?case using Cons.IH [OF _ rest [folded r(2,3)]] Cons.prems(1) r
    by (auto split: option.split)
qed

text \<open>
  C14: if one of the initial tunnel specifications is no tunnel, the program ends with the error
  of the first such one and no listener is ever bound. Otherwise it serves, and under every local
  address is open exactly the first of the tunnels given for it whose listener could be bound,
  with its own options or the defaults of the command line; those that failed stop no other.
\<close>

theorem startup_opens_tunnels:
  assumes "nom_results N" and "\<not> arg_help_tunnel a"
    and "create_client_config L (a\<lparr>arg_tunnels := None\<rparr>) = Inr c"
  shows "case fst (take_tunnels N (default_options_of_args a) a) of
      Inl e \<Rightarrow> main_start N L (\<lambda>n. alone (bounds n) (chs n)) a = MainFailed e
    | Inr ts \<Rightarrow> \<exists>sv. main_start N L (\<lambda>n. alone (bounds n) (chs n)) a = MainServing sv
        \<and> length (sv_results sv) = length ts
        \<and> (\<forall>l. get_tunnel (sv_state sv) l =
              map_option (tunnel_record chs (default_options_of_args a)) (first_bound bounds 0 ts l))"
proof -
  let ?d = "default_options_of_args a"
  let ?a' = "a\<lparr>arg_tunnels := None\<rparr>"
  obtain res where taken: "take_tunnels N ?d a = (res, ?a')"
    by (cases "arg_tunnels a") (simp_all add: take_tunnels_def)
  show ?thesis
  proof (cases res)
    case (Inl e)
    with taken assms(2) show ?thesis by (simp add: main_start_def Let_def)
  next
    case (Inr ts)
    from taken Inr have addresses: "\<forall>t \<in> set ts. as_tuple (tun_local t) \<noteq> None"
      using parse_tunnels_addresses [OF assms(1), of ?d]
      by (auto simp: take_tunnels_def split: option.splits)
    obtain st0 where st0: "new_State ?a' ?d (create_client_config L ?a') = Inr st0" and empty: "st_tunnels st0 = []"
      and defaults: "st_default_options st0 = ?d"
      using assms(3) by (simp add: new_State_def)
    obtain results st' p where run: "launch (\<lambda>n. alone (bounds n) (chs n)) 0 ts st0 = (results, st', p)"
      by (cases "launch (\<lambda>n. alone (bounds n) (chs n)) 0 ts st0") auto
    from launch_alone [OF addresses run] taken Inr assms(2) st0 run empty defaults show ?thesis
      by (simp add: main_start_def Let_def)
  qed
qed

theorem startup_opens_tunnels_witness:
  "\<exists>sv. main_start documented_nom example_tls
         (\<lambda>n. alone (if n = 0 then Inl (IOError ''in use'') else Inr ()) n)
         (default_Args\<lparr>arg_tunnels := Some [''a:1=b:2'', ''a:1=c:3'', ''c:3=b:2'']\<rparr>) = MainServing sv
     \<and> map_option (map fst \<circ> ti_remotes) (get_tunnel (sv_state sv) here) = Some [far]"
proof -
  let ?a = "default_Args\<lparr>arg_tunnels := Some [''a:1=b:2'', ''a:1=c:3'', ''c:3=b:2'']\<rparr>"
  let ?b = "\<lambda>n :: nat. if n = 0 then Inl (IOError ''in use'') else Inr () :: unit result"
  have taken: "fst (take_tunnels documented_nom (default_options_of_args ?a) ?a)
    = Inr [\<lparr>tun_local = here, tun_remote = [near], tun_options = None\<rparr>,
           \<lparr>tun_local = here, tun_remote = [far], tun_options = None\<rparr>,
           \<lparr>tun_local = far, tun_remote = [near], tun_options = None\<rparr>]"
    by code_simp
  have "\<not> arg_help_tunnel ?a" "create_client_config example_tls (?a\<lparr>arg_tunnels := None\<rparr>) = Inr (ClientConfig 1)"
    by code_simp+
  from startup_opens_tunnels [OF documented.nom_results_axioms this, where bounds = ?b and chs = "\<lambda>n. n"] taken
  obtain sv where "main_start documented_nom example_tls (\<lambda>n. alone (?b n) n) ?a = MainServing sv"
    and "get_tunnel (sv_state sv) here = Some (tunnel_record (\<lambda>n. n) (default_options_of_args ?a)
           (1, \<lparr>tun_local = here, tun_remote = [far], tun_options = None\<rparr>))"
    by auto
  then show ?thesis by (auto simp: tunnel_record_def new_TunnelInfo_def im_of_list_def)
qed

end
