(* ===== verification/Copy_Buffer.thy ===== *)
theory Copy_Buffer
  imports Prelude
begin

text \<open>
  Moving bytes between two sockets (\<open>src/aio.rs\<close>), one poll at a time.

  The sockets and the close signal are scripts: what each further poll of the reader, the
  writer (write, flush, shutdown) and the signal answers; a script at its end answers
  \<open>Pending\<close>. The scripts obey the contracts of the traits: a reader puts at most the free
  part of the buffer and keeps what did not fit, an empty chunk is the end of the stream, and
  a writer takes a prefix of what it is offered. They also record what the writer took and
  the calls of \<open>update_progress\<close>. Positions are lengths within one buffer, so they are
  natural numbers; the total is a \<open>u64\<close>.
\<close>

type_synonym u8 = "8 word"

datatype 'a poll = Pending | Ready 'a

datatype io_error = WriteZero | SocketError nat

datatype read_answer = ReadPending | ReadError io_error | ReadData "u8 list"

datatype write_answer = WritePending | WriteError io_error | WriteAccept nat

datatype flush_answer = FlushPending | FlushError io_error | FlushDone

record Io =
  io_reads :: "read_answer list"
  io_writes :: "write_answer list"
  io_flushes :: "flush_answer list"
  io_shutdowns :: "flush_answer list"
  io_finishes :: "bool list"
  io_delivered :: "u8 list"
  io_progress :: "u64 list"

subsection \<open>The sockets\<close>

definition poll_read :: "nat \<Rightarrow> Io \<Rightarrow> (io_error + u8 list) poll \<times> Io" where
  "poll_read room io =
     (case io_reads io of
        [] \<Rightarrow> (Pending, io)
      | ReadPending # rs \<Rightarrow> (Pending, io\<lparr>io_reads := rs\<rparr>)
      | ReadError e # rs \<Rightarrow> (Ready (Inl e), io\<lparr>io_reads := rs\<rparr>)
      | ReadData bs # rs \<Rightarrow>
          if length bs \<le> room then (Ready (Inr bs), io\<lparr>io_reads := rs\<rparr>)
          else (Ready (Inr (take room bs)), io\<lparr>io_reads := ReadData (drop room bs) # rs\<rparr>))"

definition poll_write :: "u8 list \<Rightarrow> Io \<Rightarrow> (io_error + nat) poll \<times> Io" where
  "poll_write bs io =
     (case io_writes io of
        [] \<Rightarrow> (Pending, io)
      | WritePending # ws \<Rightarrow> (Pending, io\<lparr>io_writes := ws\<rparr>)
      | WriteError e # ws \<Rightarrow> (Ready (Inl e), io\<lparr>io_writes := ws\<rparr>)
      | WriteAccept n # ws \<Rightarrow>
          (Ready (Inr (min n (length bs))),
           io\<lparr>io_writes := ws, io_delivered := io_delivered io @ take n bs\<rparr>))"

fun flush_result :: "flush_answer \<Rightarrow> (io_error + unit) poll" where
  "flush_result FlushPending = Pending"
| "flush_result (FlushError e) = Ready (Inl e)"
| "flush_result FlushDone = Ready (Inr ())"

definition poll_flush :: "Io \<Rightarrow> (io_error + unit) poll \<times> Io" where
  "poll_flush io =
     (case io_flushes io of
        [] \<Rightarrow> (Pending, io)
      | f # fs \<Rightarrow> (flush_result f, io\<lparr>io_flushes := fs\<rparr>))"

definition poll_shutdown :: "Io \<Rightarrow> (io_error + unit) poll \<times> Io" where
  "poll_shutdown io =
     (case io_shutdowns io of
        [] \<Rightarrow> (Pending, io)
      | f # fs \<Rightarrow> (flush_result f, io\<lparr>io_shutdowns := fs\<rparr>))"

subsection \<open>\<open>CopyBuffer\<close>\<close>

record CopyBuffer =
  cb_read_done :: bool
  cb_need_flush :: bool
  cb_pos :: nat
  cb_cap :: nat
  cb_amt :: u64
  cb_buf :: "u8 list"

definition new_CopyBuffer :: "nat \<Rightarrow> CopyBuffer" where
  "new_CopyBuffer buf_size =
     \<lparr>cb_read_done = False, cb_need_flush = False, cb_pos = 0, cb_cap = 0, cb_amt = 0,
      cb_buf = replicate buf_size 0\<rparr>"

definition poll_fill_buf :: "CopyBuffer \<Rightarrow> Io \<Rightarrow> (io_error + unit) poll \<times> CopyBuffer \<times> Io" where
  "poll_fill_buf cb io =
     (case poll_read (length (cb_buf cb) - cb_cap cb) io of
        (Pending, io') \<Rightarrow> (Pending, cb, io')
      | (Ready (Inl e), io') \<Rightarrow> (Ready (Inl e), cb, io')
      | (Ready (Inr bs), io') \<Rightarrow>
          let filled_len = cb_cap cb + length bs
          in (Ready (Inr ()),
              cb\<lparr>cb_buf := take (cb_cap cb) (cb_buf cb) @ bs @ drop filled_len (cb_buf cb),
                 cb_read_done := (cb_cap cb = filled_len), cb_cap := filled_len\<rparr>, io'))"

definition unwritten :: "CopyBuffer \<Rightarrow> u8 list" where
  "unwritten cb = take (cb_cap cb - cb_pos cb) (drop (cb_pos cb) (cb_buf cb))"

definition poll_write_buf :: "CopyBuffer \<Rightarrow> Io \<Rightarrow> (io_error + nat) poll \<times> CopyBuffer \<times> Io" where
  "poll_write_buf cb io =
     (case poll_write (unwritten cb) io of
        (Pending, io') \<Rightarrow>
          if \<not> cb_read_done cb \<and> cb_cap cb < length (cb_buf cb)
          then (case poll_fill_buf cb io' of
                  (Ready (Inl e), cb', io'') \<Rightarrow> (Ready (Inl e), cb', io'')
                | (_, cb', io'') \<Rightarrow> (Pending, cb', io''))
          else (Pending, cb, io')
      | (res, io') \<Rightarrow> (res, cb, io'))"

definition poll_finish :: "Io \<Rightarrow> bool \<times> Io" where
  "poll_finish io =
     (case io_finishes io of [] \<Rightarrow> (False, io) | f # fs \<Rightarrow> (f, io\<lparr>io_finishes := fs\<rparr>))"

lemma poll_write_bound:
  "poll_write bs io = (Ready (Inr i), io') \<Longrightarrow> i \<le> length bs"
  by (auto simp: poll_write_def split: list.splits write_answer.splits)

lemma poll_write_buf_ready:
  assumes "poll_write_buf cb io = (Ready (Inr i), cb', io')"
  shows "cb' = cb" and "i \<le> cb_cap cb - cb_pos cb" and "poll_write (unwritten cb) io = (Ready (Inr i), io')"
proof -
  show *: "poll_write (unwritten cb) io = (Ready (Inr i), io')"
    using assms by (auto simp: poll_write_buf_def split: prod.splits poll.splits sum.splits if_splits)
  show "cb' = cb"
    using assms * by (auto simp: poll_write_buf_def)
  show "i \<le> cb_cap cb - cb_pos cb"
    using poll_write_bound [OF *] by (simp add: unwritten_def)
qed

text \<open>
  The inner loop: \<open>None\<close> when everything buffered is written, otherwise what \<open>poll_copy\<close>
  returns from inside it.
\<close>

function write_loop :: "CopyBuffer \<Rightarrow> Io \<Rightarrow> (io_error + u64) poll option \<times> CopyBuffer \<times> Io" where
  "write_loop cb io =
     (if cb_pos cb < cb_cap cb
      then (case poll_write_buf cb io of
              (Pending, cb', io') \<Rightarrow> (Some Pending, cb', io')
            | (Ready (Inl e), cb', io') \<Rightarrow> (Some (Ready (Inl e)), cb', io')
            | (Ready (Inr i), cb', io') \<Rightarrow>
                if i = 0 then (Some (Ready (Inl WriteZero)), cb', io')
                else write_loop
                       (cb'\<lparr>cb_pos := cb_pos cb' + i, cb_amt := cb_amt cb' + of_nat i,
                            cb_need_flush := True\<rparr>)
                       (io'\<lparr>io_progress := io_progress io' @ [of_nat i]\<rparr>))
      else (None, cb, io))"
  by pat_completeness auto
termination
proof (relation "measure (\<lambda>(cb, io). cb_cap cb - cb_pos cb)", goal_cases)
  case (2 cb io)
  then show ?case
    using poll_write_buf_ready(1,2) [of cb io] by (auto dest!: sym [of "(_, _)"])
qed simp

declare write_loop.simps [simp del]

text \<open>Filling the empty buffer; a reader without data is the moment to flush.\<close>

definition fill_phase :: "CopyBuffer \<Rightarrow> Io \<Rightarrow> (io_error + u64) poll option \<times> CopyBuffer \<times> Io" where
  "fill_phase cb io =
     (case poll_fill_buf cb io of
        (Ready (Inr _), cb', io') \<Rightarrow> (None, cb', io')
      | (Ready (Inl e), cb', io') \<Rightarrow> (Some (Ready (Inl e)), cb', io')
      | (Pending, cb', io') \<Rightarrow>
          if cb_need_flush cb'
          then (case poll_flush io' of
                  (Pending, io'') \<Rightarrow> (Some Pending, cb', io'')
                | (Ready (Inl e), io'') \<Rightarrow> (Some (Ready (Inl e)), cb', io'')
                | (Ready (Inr _), io'') \<Rightarrow> (Some Pending, cb'\<lparr>cb_need_flush := False\<rparr>, io''))
          else (Some Pending, cb', io'))"

text \<open>One pass through the outer loop: \<open>None\<close> when it goes round again.\<close>

definition copy_pass :: "CopyBuffer \<Rightarrow> Io \<Rightarrow> (io_error + u64) poll option \<times> CopyBuffer \<times> Io" where
  "copy_pass cb io =
     (case poll_finish io of
        (True, io1) \<Rightarrow> (Some (Ready (Inr (cb_amt cb))), cb, io1)
      | (False, io1) \<Rightarrow>
          (case (if cb_pos cb = cb_cap cb \<and> \<not> cb_read_done cb
                 then fill_phase (cb\<lparr>cb_pos := 0, cb_cap := 0\<rparr>) io1
                 else (None, cb, io1)) of
             (Some res, cb2, io2) \<Rightarrow> (Some res, cb2, io2)
           | (None, cb2, io2) \<Rightarrow>
               (case write_loop cb2 io2 of
                  (Some res, cb3, io3) \<Rightarrow> (Some res, cb3, io3)
                | (None, cb3, io3) \<Rightarrow>
                    if cb_pos cb3 = cb_cap cb3 \<and> cb_read_done cb3
                    then (case poll_flush io3 of
                            (Pending, io4) \<Rightarrow> (Some Pending, cb3, io4)
                          | (Ready (Inl e), io4) \<Rightarrow> (Some (Ready (Inl e)), cb3, io4)
                          | (Ready (Inr _), io4) \<Rightarrow> (Some (Ready (Inr (cb_amt cb3))), cb3, io4))
                    else (None, cb3, io3))))"

text \<open>The outer loop; \<open>None\<close> is a loop that never ends.\<close>

partial_function (option) poll_copy ::
  "CopyBuffer \<Rightarrow> Io \<Rightarrow> ((io_error + u64) poll \<times> CopyBuffer \<times> Io) option" where
  [code]: "poll_copy cb io =
     (case copy_pass cb io of
        (Some res, cb', io') \<Rightarrow> Some (res, cb', io')
      | (None, cb', io') \<Rightarrow> poll_copy cb' io')"

subsection \<open>The loop ends\<close>

definition cb_ok :: "CopyBuffer \<Rightarrow> bool" where
  "cb_ok cb \<longleftrightarrow> cb_pos cb \<le> cb_cap cb \<and> cb_cap cb \<le> length (cb_buf cb)"

fun read_size :: "read_answer \<Rightarrow> nat" where
  "read_size (ReadData bs) = Suc (length bs)"
| "read_size _ = 1"

definition reads_left :: "Io \<Rightarrow> nat" where
  "reads_left io = sum_list (map read_size (io_reads io))"

text \<open>The bytes the reader still has, and those it has given but the writer has not taken.\<close>

fun read_bytes :: "read_answer \<Rightarrow> u8 list" where
  "read_bytes (ReadData bs) = bs"
| "read_bytes _ = []"

definition input_left :: "Io \<Rightarrow> u8 list" where
  "input_left io = concat (map read_bytes (io_reads io))"

definition in_flight :: "CopyBuffer \<Rightarrow> Io \<Rightarrow> u8 list" where
  "in_flight cb io = io_delivered io @ unwritten cb @ input_left io"

lemma poll_read_input:
  assumes "poll_read room io = (res, io')"
  shows "input_left io = (case res of Ready (Inr bs) \<Rightarrow> bs | _ \<Rightarrow> []) @ input_left io'"
    and "io_delivered io' = io_delivered io" and "io_progress io' = io_progress io"
    and "res = Ready (Inr bs) \<Longrightarrow> length bs \<le> room"
    and "res = Ready (Inr bs) \<Longrightarrow> bs \<noteq> [] \<Longrightarrow> reads_left io' < reads_left io"
    and "reads_left io' \<le> reads_left io" and "io_finishes io' = io_finishes io"
  using assms by (auto simp: poll_read_def input_left_def reads_left_def
      split: list.splits read_answer.splits if_splits)

lemma poll_write_output:
  assumes "poll_write bs io = (res, io')"
  shows "io_reads io' = io_reads io" and "io_progress io' = io_progress io"
    and "io_delivered io' = io_delivered io @ (case res of Ready (Inr i) \<Rightarrow> take i bs | _ \<Rightarrow> [])"
    and "res = Ready (Inr i) \<Longrightarrow> i \<le> length bs" and "io_finishes io' = io_finishes io"
  using assms by (auto simp: poll_write_def min_def split: list.splits write_answer.splits)

lemma poll_flush_quiet:
  assumes "poll_flush io = (res, io')"
  shows "io_reads io' = io_reads io" "io_delivered io' = io_delivered io" "io_progress io' = io_progress io"
    "io_finishes io' = io_finishes io"
  using assms by (auto simp: poll_flush_def split: list.splits)

lemma poll_finish_quiet:
  assumes "poll_finish io = (res, io')"
  shows "io_reads io' = io_reads io" "io_delivered io' = io_delivered io" "io_progress io' = io_progress io"
    "set (io_finishes io') \<subseteq> set (io_finishes io)" and "res \<Longrightarrow> True \<in> set (io_finishes io)"
  using assms by (auto simp: poll_finish_def split: list.splits)

text \<open>
  What every part of the copy does: it keeps the buffer in bounds, neither loses nor repeats
  nor reorders a byte on its way from the reader to the writer, and counts what it delivers.
\<close>

definition copies :: "CopyBuffer \<Rightarrow> Io \<Rightarrow> CopyBuffer \<Rightarrow> Io \<Rightarrow> bool" where
  "copies cb io cb' io' \<longleftrightarrow>
     cb_ok cb' \<and> length (cb_buf cb') = length (cb_buf cb) \<and> in_flight cb' io' = in_flight cb io
     \<and> set (io_finishes io') \<subseteq> set (io_finishes io)
     \<and> (\<exists>ds ps. io_delivered io' = io_delivered io @ ds \<and> cb_amt cb' = cb_amt cb + of_nat (length ds)
          \<and> io_progress io' = io_progress io @ ps \<and> sum_list ps = of_nat (length ds))"

lemma copies_refl: "cb_ok cb \<Longrightarrow> copies cb io cb io"
  by (simp add: copies_def)

lemma copies_trans:
  assumes "copies cb io cb1 io1" and "copies cb1 io1 cb2 io2"
  shows "copies cb io cb2 io2"
proof -
  from assms(1) obtain ds ps where "io_delivered io1 = io_delivered io @ ds"
    "cb_amt cb1 = cb_amt cb + of_nat (length ds)" "io_progress io1 = io_progress io @ ps"
    "sum_list ps = of_nat (length ds)" by (auto simp: copies_def)
  moreover from assms(2) obtain ds' ps' where "io_delivered io2 = io_delivered io1 @ ds'"
    "cb_amt cb2 = cb_amt cb1 + of_nat (length ds')" "io_progress io2 = io_progress io1 @ ps'"
    "sum_list ps' = of_nat (length ds')" by (auto simp: copies_def)
  ultimately have "io_delivered io2 = io_delivered io @ (ds @ ds')
    \<and> cb_amt cb2 = cb_amt cb + of_nat (length (ds @ ds')) \<and> io_progress io2 = io_progress io @ (ps @ ps')
    \<and> sum_list (ps @ ps') = of_nat (length (ds @ ds'))" by simp
  with assms show ?thesis unfolding copies_def by (metis subset_trans)
qed

lemma copies_same:
  assumes "cb_ok cb'" and "length (cb_buf cb') = length (cb_buf cb)" and "unwritten cb' = unwritten cb"
    and "cb_amt cb' = cb_amt cb" and "io_reads io' = io_reads io"
    and "io_delivered io' = io_delivered io" and "io_progress io' = io_progress io"
    and "set (io_finishes io') \<subseteq> set (io_finishes io)"
  shows "copies cb io cb' io'"
  using assms by (simp add: copies_def in_flight_def input_left_def)

lemma unwritten_alt: "cb_ok cb \<Longrightarrow> unwritten cb = drop (cb_pos cb) (take (cb_cap cb) (cb_buf cb))"
  by (simp add: unwritten_def drop_take)

lemma copies_fill:
  assumes "poll_fill_buf cb io = (res, cb', io')" and "cb_ok cb"
  shows "copies cb io cb' io'" and "cb_pos cb' = cb_pos cb" and "reads_left io' \<le> reads_left io"
    and "res = Ready (Inr ()) \<Longrightarrow> reads_left io' < reads_left io \<or> cb_read_done cb'"
    and "cb_need_flush cb' = cb_need_flush cb"
proof -
  obtain rd io1 where rd: "poll_read (length (cb_buf cb) - cb_cap cb) io = (rd, io1)"
    by (cases "poll_read (length (cb_buf cb) - cb_cap cb) io")
  note input = poll_read_input [OF rd]
  have "copies cb io cb' io' \<and> cb_pos cb' = cb_pos cb \<and> reads_left io' \<le> reads_left io
    \<and> (res = Ready (Inr ()) \<longrightarrow> reads_left io' < reads_left io \<or> cb_read_done cb')
    \<and> cb_need_flush cb' = cb_need_flush cb"
  proof (cases "\<exists>bs. rd = Ready (Inr bs)")
    case True
    then obtain bs where bs: "rd = Ready (Inr bs)" by blast
    with assms(1) rd have cb': "cb' = cb\<lparr>cb_buf := take (cb_cap cb) (cb_buf cb) @ bs
          @ drop (cb_cap cb + length bs) (cb_buf cb),
        cb_read_done := (bs = []), cb_cap := cb_cap cb + length bs\<rparr>" and io': "io' = io1"
      by (auto simp: poll_fill_buf_def Let_def)
    have len: "length bs \<le> length (cb_buf cb) - cb_cap cb" by (rule input(4) [OF bs])
    have ok': "cb_ok cb'" using assms(2) len by (simp add: cb_ok_def cb')
    moreover have "unwritten cb' = unwritten cb @ bs"
      using assms(2) by (simp add: unwritten_alt ok' unwritten_alt [OF assms(2)]) (simp add: cb' cb_ok_def)
    moreover have "length (cb_buf cb') = length (cb_buf cb)"
      using assms(2) len by (simp add: cb' cb_ok_def) arith
    ultimately have "copies cb io cb' io'"
      using input(1-3,7) by (simp add: copies_def in_flight_def bs io' cb')
    with input(5,6) bs show ?thesis by (auto simp: cb' io')
  next
    case False
    with assms(1) rd have "cb' = cb" "io' = io1" "res \<noteq> Ready (Inr ())"
      by (auto simp: poll_fill_buf_def split: poll.splits sum.splits)
    moreover from False have "input_left io1 = input_left io"
      using input(1) by (auto split: poll.splits sum.splits)
    ultimately show ?thesis
      using input(2,3,6,7) assms(2) by (simp add: copies_def in_flight_def)
  qed
  then show "copies cb io cb' io'" and "cb_pos cb' = cb_pos cb" and "reads_left io' \<le> reads_left io"
    and "res = Ready (Inr ()) \<Longrightarrow> reads_left io' < reads_left io \<or> cb_read_done cb'"
    and "cb_need_flush cb' = cb_need_flush cb"
    by blast+
qed

lemma copies_write_buf:
  assumes "poll_write_buf cb io = (res, cb', io')" and "cb_ok cb" and "\<forall>i. res \<noteq> Ready (Inr i)"
  shows "copies cb io cb' io'"
proof -
  obtain w io1 where w: "poll_write (unwritten cb) io = (w, io1)" by (cases "poll_write (unwritten cb) io")
  note out = poll_write_output [OF w]
  have not_ok: "w \<noteq> Ready (Inr i)" for i
    using assms(1,3) w by (auto simp: poll_write_buf_def)
  with out(3) have io1: "io_delivered io1 = io_delivered io"
    by (auto split: poll.splits sum.splits)
  have c1: "copies cb io cb io1" by (rule copies_same) (use assms(2) out io1 in simp_all)
  show "copies cb io cb' io'"
    using assms(1) w not_ok c1 copies_trans [OF c1 copies_fill(1) [OF _ assms(2)]]
    by (auto simp: poll_write_buf_def split: poll.splits sum.splits if_splits prod.splits)
qed

lemma copies_write_loop:
  assumes "write_loop cb io = (res, cb', io')" and "cb_ok cb"
  shows "copies cb io cb' io'
    \<and> (res = None \<longrightarrow> cb_pos cb' = cb_cap cb' \<and> cb_read_done cb' = cb_read_done cb
         \<and> io_reads io' = io_reads io)
    \<and> (\<forall>n. res \<noteq> Some (Ready (Inr n)))"
  using assms
proof (induction cb io rule: write_loop.induct)
  case (1 cb io)
  show ?case
  proof (cases "cb_pos cb < cb_cap cb")
    case False
    with 1(2,3) show ?thesis by (auto simp: write_loop.simps [of cb io] copies_refl cb_ok_def)
  next
    case True
    obtain w cb1 io1 where w: "poll_write_buf cb io = (w, cb1, io1)" by (cases "poll_write_buf cb io")
    show ?thesis
    proof (cases "\<exists>i. w = Ready (Inr i)")
      case False
      with True w 1(2) have "res = (case w of Ready (Inl e) \<Rightarrow> Some (Ready (Inl e)) | _ \<Rightarrow> Some Pending)"
        "cb' = cb1" "io' = io1"
        by (auto simp: write_loop.simps [of cb io] split: poll.splits sum.splits)
      moreover from False have "\<forall>i. w \<noteq> Ready (Inr i)" by blast
      ultimately show ?thesis
        using copies_write_buf [OF w 1(3)] by (auto split: poll.splits sum.splits)
    next
      case ok: True
      then obtain i where i: "w = Ready (Inr i)" by blast
      note ready = poll_write_buf_ready [OF w [unfolded i]]
      note out = poll_write_output [OF ready(3)]
      let ?cb = "cb\<lparr>cb_pos := cb_pos cb + i, cb_amt := cb_amt cb + of_nat i, cb_need_flush := True\<rparr>"
      let ?io = "io1\<lparr>io_progress := io_progress io1 @ [of_nat i]\<rparr>"
      have ok': "cb_ok ?cb" using 1(3) ready(2) True by (simp add: cb_ok_def)
      have len: "length (take i (unwritten cb)) = i" using out(4) by simp
      have "unwritten ?cb = drop i (unwritten cb)"
        by (simp add: unwritten_def drop_take add.commute)
      then have step: "copies cb io ?cb ?io"
        using ok' out(1-3,5) len
        by (auto simp: copies_def in_flight_def input_left_def
            intro!: exI [of _ "take i (unwritten cb)"] exI [of _ "[of_nat i]"])
      show ?thesis
      proof (cases "i = 0")
        case True
        have "copies cb io cb io1"
          by (rule copies_same) (use 1(3) out True in simp_all)
        with True \<open>cb_pos cb < cb_cap cb\<close> 1(2) w i ready(1) show ?thesis
          by (auto simp: write_loop.simps [of cb io])
      next
        case False
        with True 1(2) w i ready(1) have loop: "write_loop ?cb ?io = (res, cb', io')"
          by (simp add: write_loop.simps [of cb io])
        have "copies ?cb ?io cb' io'
          \<and> (res = None \<longrightarrow> cb_pos cb' = cb_cap cb' \<and> cb_read_done cb' = cb_read_done ?cb
               \<and> io_reads io' = io_reads ?io) \<and> (\<forall>n. res \<noteq> Some (Ready (Inr n)))"
          using 1(1) [OF True w [symmetric] i refl refl False] ready(1) loop ok' by simp
        with copies_trans [OF step] out(1) show ?thesis by simp
      qed
    qed
  qed
qed

lemma copies_fill_phase:
  assumes "fill_phase cb io = (res, cb', io')" and "cb_ok cb"
  shows "copies cb io cb' io'"
    and "res = None \<Longrightarrow> reads_left io' < reads_left io \<or> cb_read_done cb'"
    and "res = None \<Longrightarrow> reads_left io' \<le> reads_left io"
    and "res \<noteq> Some (Ready (Inr n))"
proof -
  obtain f cb1 io1 where f: "poll_fill_buf cb io = (f, cb1, io1)" by (cases "poll_fill_buf cb io")
  note fill = copies_fill [OF f assms(2)]
  have flushed: "copies cb io cb2 io2"
    if "poll_flush io1 = (fl, io2)" and "cb2 = cb1 \<or> cb2 = cb1\<lparr>cb_need_flush := False\<rparr>" for fl io2 cb2
  proof (rule copies_trans [OF fill(1)])
    from fill(1) have "cb_ok cb1" by (simp add: copies_def)
    with that show "copies cb1 io1 cb2 io2"
      by (intro copies_same) (auto simp: poll_flush_quiet [OF that(1)] cb_ok_def unwritten_def)
  qed
  show "copies cb io cb' io'"
    using assms(1) f fill(1) flushed
    by (auto simp: fill_phase_def split: poll.splits sum.splits if_splits prod.splits)
  show "res = None \<Longrightarrow> reads_left io' < reads_left io \<or> cb_read_done cb'"
    and "res = None \<Longrightarrow> reads_left io' \<le> reads_left io"
    and "res \<noteq> Some (Ready (Inr n))"
    using assms(1) f fill(3,4)
    by (auto simp: fill_phase_def split: poll.splits sum.splits if_splits prod.splits)
qed

lemma copies_start_fill: "cb_ok cb \<Longrightarrow> cb_pos cb = cb_cap cb \<Longrightarrow> copies cb io (cb\<lparr>cb_pos := 0, cb_cap := 0\<rparr>) io"
  by (rule copies_same) (auto simp: cb_ok_def unwritten_def)

text \<open>The parts of a pass: the buffer is refilled if it is empty, written, and flushed at the end.\<close>

definition refilled :: "CopyBuffer \<Rightarrow> Io \<Rightarrow> (io_error + u64) poll option \<times> CopyBuffer \<times> Io" where
  "refilled cb io =
     (if cb_pos cb = cb_cap cb \<and> \<not> cb_read_done cb
      then fill_phase (cb\<lparr>cb_pos := 0, cb_cap := 0\<rparr>) io else (None, cb, io))"

lemma copy_pass_parts:
  assumes "poll_finish io = (fin, io1)" and "refilled cb io1 = (r2, cb2, io2)"
    and "write_loop cb2 io2 = (r3, cb3, io3)" and "poll_flush io3 = (fl, io4)"
  shows "copy_pass cb io =
     (if fin then (Some (Ready (Inr (cb_amt cb))), cb, io1)
      else case r2 of Some x \<Rightarrow> (Some x, cb2, io2)
      | None \<Rightarrow> (case r3 of Some x \<Rightarrow> (Some x, cb3, io3)
          | None \<Rightarrow> if cb_pos cb3 = cb_cap cb3 \<and> cb_read_done cb3
                    then (case fl of
                            Pending \<Rightarrow> (Some Pending, cb3, io4)
                          | Ready (Inl e) \<Rightarrow> (Some (Ready (Inl e)), cb3, io4)
                          | Ready (Inr _) \<Rightarrow> (Some (Ready (Inr (cb_amt cb3))), cb3, io4))
                    else (None, cb3, io3)))"
  using assms(2)
  by (cases r2; cases r3)
    (simp_all add: copy_pass_def assms(1,3,4) refilled_def [symmetric])

lemma copies_refilled:
  assumes "refilled cb io = (res, cb', io')" and "cb_ok cb"
  shows "copies cb io cb' io'"
    and "res = None \<Longrightarrow> if cb_pos cb < cb_cap cb then reads_left io' \<le> reads_left io
      else reads_left io' < reads_left io \<or> cb_read_done cb'"
    and "res \<noteq> Some (Ready (Inr n))"
proof -
  have ok0: "cb_ok (cb\<lparr>cb_pos := 0, cb_cap := 0\<rparr>)" by (simp add: cb_ok_def)
  have "copies cb io cb' io' \<and> (res = None \<longrightarrow> (if cb_pos cb < cb_cap cb then reads_left io' \<le> reads_left io
      else reads_left io' < reads_left io \<or> cb_read_done cb')) \<and> res \<noteq> Some (Ready (Inr n))" for n
  proof (cases "cb_pos cb = cb_cap cb \<and> \<not> cb_read_done cb")
    case True
    with assms(1) have f: "fill_phase (cb\<lparr>cb_pos := 0, cb_cap := 0\<rparr>) io = (res, cb', io')"
      by (simp add: refilled_def)
    from copies_trans [OF copies_start_fill [OF assms(2)] copies_fill_phase(1) [OF f ok0]]
      copies_fill_phase(2,4) [OF f ok0] True
    show ?thesis by simp
  next
    case False
    with assms show ?thesis by (auto simp: refilled_def copies_refl cb_ok_def)
  qed
  then show "copies cb io cb' io'"
    and "res = None \<Longrightarrow> if cb_pos cb < cb_cap cb then reads_left io' \<le> reads_left io
      else reads_left io' < reads_left io \<or> cb_read_done cb'"
    and "res \<noteq> Some (Ready (Inr n))" by blast+
qed

lemma copy_pass_copies:
  assumes "copy_pass cb io = (res, cb', io')" and "cb_ok cb"
  shows "copies cb io cb' io'
    \<and> (res = None \<longrightarrow> cb_pos cb' = cb_cap cb' \<and> \<not> cb_read_done cb'
         \<and> (if cb_pos cb < cb_cap cb then reads_left io' \<le> reads_left io
            else reads_left io' < reads_left io))
    \<and> (\<forall>n. res = Some (Ready (Inr n)) \<longrightarrow>
         n = cb_amt cb' \<and> (True \<in> set (io_finishes io) \<or> cb_read_done cb' \<and> cb_pos cb' = cb_cap cb'))"
proof -
  obtain fin io1 where fin: "poll_finish io = (fin, io1)" by (cases "poll_finish io")
  note quiet = poll_finish_quiet [OF fin]
  have c1: "copies cb io cb io1" by (rule copies_same) (use assms(2) quiet in simp_all)
  have left1: "reads_left io1 = reads_left io" by (simp add: reads_left_def quiet)
  obtain r2 cb2 io2 where f: "refilled cb io1 = (r2, cb2, io2)" by (cases "refilled cb io1")
  note refill = copies_refilled [OF f assms(2)]
  have c2: "copies cb io cb2 io2" by (rule copies_trans [OF c1 refill(1)])
  then have ok2: "cb_ok cb2" by (simp add: copies_def)
  obtain r3 cb3 io3 where l: "write_loop cb2 io2 = (r3, cb3, io3)" by (cases "write_loop cb2 io2")
  note loop = copies_write_loop [OF l ok2]
  have c3: "copies cb io cb3 io3" using copies_trans [OF c2] loop by blast
  then have ok3: "cb_ok cb3" by (simp add: copies_def)
  obtain fl io4 where fl: "poll_flush io3 = (fl, io4)" by (cases "poll_flush io3")
  have c4: "copies cb io cb3 io4"
    by (rule copies_trans [OF c3 copies_same]) (simp_all add: ok3 poll_flush_quiet [OF fl])
  note pass = copy_pass_parts [OF fin f l fl]
  show ?thesis
  proof (cases "fin \<or> r2 \<noteq> None \<or> r3 \<noteq> None")
    case True
    with pass assms(1) c1 c2 c3 refill(3) loop quiet(5) show ?thesis
      by (auto split: option.splits if_splits)
  next
    case False
    have left3: "reads_left io3 = reads_left io2" using loop False by (simp add: reads_left_def)
    show ?thesis
    proof (cases "cb_read_done cb3")
      case True
      with False loop pass assms(1) c4 show ?thesis by (auto split: poll.splits sum.splits)
    next
      case not_done: False
      with False loop pass assms(1) c3 refill(2) left1 left3 show ?thesis by auto
    qed
  qed
qed

lemma poll_copy_spec:
  assumes "cb_ok cb"
  shows "\<exists>res cb' io'. poll_copy cb io = Some (res, cb', io') \<and> copies cb io cb' io'
    \<and> (\<forall>n. res = Ready (Inr n) \<longrightarrow> n = cb_amt cb'
         \<and> (True \<in> set (io_finishes io) \<or> cb_read_done cb' \<and> cb_pos cb' = cb_cap cb'))"
  using assms
proof (induction "2 * reads_left io + (if cb_pos cb < cb_cap cb then 1 else 0)"
    arbitrary: cb io rule: less_induct)
  case less
  obtain res cb1 io1 where pass: "copy_pass cb io = (res, cb1, io1)" by (cases "copy_pass cb io")
  note spec = copy_pass_copies [OF pass less.prems]
  show ?case
  proof (cases res)
    case (Some r)
    with pass spec show ?thesis by (auto simp: poll_copy.simps [of cb io])
  next
    case None
    with spec have "cb_ok cb1" and c: "copies cb io cb1 io1" and fin: "set (io_finishes io1) \<subseteq> set (io_finishes io)"
      by (auto simp: copies_def)
    moreover have "2 * reads_left io1 + (if cb_pos cb1 < cb_cap cb1 then 1 else 0)
        < 2 * reads_left io + (if cb_pos cb < cb_cap cb then 1 else 0)"
      using spec None by (simp split: if_splits)
    ultimately obtain r cb' io' where
      "poll_copy cb1 io1 = Some (r, cb', io')" "copies cb1 io1 cb' io'"
      "\<forall>n. r = Ready (Inr n) \<longrightarrow> n = cb_amt cb'
         \<and> (True \<in> set (io_finishes io1) \<or> cb_read_done cb' \<and> cb_pos cb' = cb_cap cb')"
      using less.hyps by blast
    with None pass copies_trans [OF c] fin show ?thesis
      by (auto simp: poll_copy.simps [of cb io])
  qed
qed

end
