(* ===== verification/Bidirectional.thy ===== *)
theory Bidirectional
  imports Copy_Buffer Session
begin

text \<open>
  Both directions of a connection: \<open>TransferState\<close>, \<open>transfer_one_direction\<close> and the future
  \<open>CopyBidirectional\<close> of \<open>src/aio.rs\<close>, and what \<open>copy_bidirectional\<close> does to the state. With
  the properties of the copy: order, the end of the loop, errors, the accounting.
\<close>

datatype TransferState = Running CopyBuffer | ShuttingDown u64 | Done u64

text \<open>
  The loop over the states ends after at most three turns; \<open>None\<close> is a copy that never returns.
\<close>

function transfer_one_direction ::
  "TransferState \<Rightarrow> Io \<Rightarrow> ((io_error + u64) poll \<times> TransferState \<times> Io) option" where
  "transfer_one_direction (Running cb) io =
     (case poll_copy cb io of
        None \<Rightarrow> None
      | Some (Pending, cb', io') \<Rightarrow> Some (Pending, Running cb', io')
      | Some (Ready (Inl e), cb', io') \<Rightarrow> Some (Ready (Inl e), Running cb', io')
      | Some (Ready (Inr count), cb', io') \<Rightarrow> transfer_one_direction (ShuttingDown count) io')"
| "transfer_one_direction (ShuttingDown count) io =
     (case poll_shutdown io of
        (Pending, io') \<Rightarrow> Some (Pending, ShuttingDown count, io')
      | (Ready (Inl e), io') \<Rightarrow> Some (Ready (Inl e), ShuttingDown count, io')
      | (Ready (Inr _), io') \<Rightarrow> transfer_one_direction (Done count) io')"
| "transfer_one_direction (Done count) io = Some (Ready (Inr count), Done count, io)"
  by pat_completeness auto
termination
  by (relation "measure (\<lambda>(s, io). case s of Running cb \<Rightarrow> 2 | ShuttingDown n \<Rightarrow> 1 | Done n \<Rightarrow> 0)") auto

record CopyBidirectional =
  bi_a_to_b :: TransferState
  bi_b_to_a :: TransferState

text \<open>
  One poll of the future, with the scripts of the two directions; an error of the first
  direction returns before the second is polled.
\<close>

definition poll_bidirectional ::
  "CopyBidirectional \<Rightarrow> Io \<times> Io
     \<Rightarrow> ((io_error + u64 \<times> u64) poll \<times> CopyBidirectional \<times> Io \<times> Io) option" where
  "poll_bidirectional bi ios =
     (case transfer_one_direction (bi_a_to_b bi) (fst ios) of
        None \<Rightarrow> None
      | Some (Ready (Inl e), s1, io1) \<Rightarrow>
          Some (Ready (Inl e), bi\<lparr>bi_a_to_b := s1\<rparr>, io1, snd ios)
      | Some (r1, s1, io1) \<Rightarrow>
          (case transfer_one_direction (bi_b_to_a bi) (snd ios) of
             None \<Rightarrow> None
           | Some (r2, s2, io2) \<Rightarrow>
               Some (case (r1, r2) of
                       (_, Ready (Inl e)) \<Rightarrow> Ready (Inl e)
                     | (Ready (Inr n1), Ready (Inr n2)) \<Rightarrow> Ready (Inr (n1, n2))
                     | _ \<Rightarrow> Pending,
                     \<lparr>bi_a_to_b = s1, bi_b_to_a = s2\<rparr>, io1, io2)))"

definition copy_bidirectional :: "State \<Rightarrow> CopyBidirectional" where
  "copy_bidirectional st =
     (let buf_size = unat (copy_buffer_size st)
      in \<lparr>bi_a_to_b = Running (new_CopyBuffer buf_size), bi_b_to_a = Running (new_CopyBuffer buf_size)\<rparr>)"

text \<open>The calls of \<open>update_progress\<close> of one direction, as the steps of the session they are.\<close>

definition progress_events :: "bool \<Rightarrow> Io \<Rightarrow> session_event list" where
  "progress_events sent io = map (Moved sent) (io_progress io)"

definition update_progress :: "SocketSpec \<Rightarrow> SocketSpec \<Rightarrow> bool \<Rightarrow> Io \<Rightarrow> State \<Rightarrow> State" where
  "update_progress l r sent io st = fold (update_transferred l r sent) (io_progress io) st"

subsection \<open>The bytes of one direction\<close>

text \<open>Polling until the copy is ready, at most \<open>n\<close> times.\<close>

fun copy_run :: "nat \<Rightarrow> CopyBuffer \<Rightarrow> Io \<Rightarrow> ((io_error + u64) poll \<times> CopyBuffer \<times> Io) option" where
  "copy_run 0 cb io = Some (Pending, cb, io)"
| "copy_run (Suc n) cb io =
     (case poll_copy cb io of
        Some (Pending, cb', io') \<Rightarrow> copy_run n cb' io'
      | r \<Rightarrow> r)"

definition fresh_io :: "Io \<Rightarrow> bool" where
  "fresh_io io \<longleftrightarrow> io_delivered io = [] \<and> io_progress io = []"

lemma cb_ok_new [simp]: "cb_ok (new_CopyBuffer bsize)"
  by (simp add: cb_ok_def new_CopyBuffer_def)

lemma copy_run_spec:
  assumes "cb_ok cb"
  shows "\<exists>res cb' io'. copy_run n cb io = Some (res, cb', io') \<and> copies cb io cb' io'
    \<and> (\<forall>k. res = Ready (Inr k) \<longrightarrow> k = cb_amt cb'
         \<and> (True \<in> set (io_finishes io) \<or> cb_read_done cb' \<and> cb_pos cb' = cb_cap cb'))"
  using assms
proof (induction n arbitrary: cb io)
  case 0
  then show ?case by (simp add: copies_refl)
next
  case (Suc n)
  obtain res cb1 io1 where p: "poll_copy cb io = Some (res, cb1, io1)" and c: "copies cb io cb1 io1"
    and r: "\<forall>k. res = Ready (Inr k) \<longrightarrow> k = cb_amt cb1
       \<and> (True \<in> set (io_finishes io) \<or> cb_read_done cb1 \<and> cb_pos cb1 = cb_cap cb1)"
    using poll_copy_spec [OF Suc.prems] by blast
  show ?case
  proof (cases res)
    case (Ready x)
    with p c r show ?thesis by simp
  next
    case Pending
    have "cb_ok cb1" and fin: "set (io_finishes io1) \<subseteq> set (io_finishes io)"
      using c by (auto simp: copies_def)
    from Suc.IH [OF this(1), of io1] obtain res' cb' io' where
      "copy_run n cb1 io1 = Some (res', cb', io')" "copies cb1 io1 cb' io'"
      "\<forall>k. res' = Ready (Inr k) \<longrightarrow> k = cb_amt cb'
         \<and> (True \<in> set (io_finishes io1) \<or> cb_read_done cb' \<and> cb_pos cb' = cb_cap cb')"
      by blast
    with p Pending copies_trans [OF c] fin show ?thesis by auto
  qed
qed

lemma copy_run_keeps:
  assumes "fresh_io io"
  shows "\<exists>res cb' io'. copy_run n (new_CopyBuffer bsize) io = Some (res, cb', io')
    \<and> io_delivered io' @ unwritten cb' @ input_left io' = input_left io
    \<and> cb_amt cb' = of_nat (length (io_delivered io'))
    \<and> sum_list (io_progress io') = of_nat (length (io_delivered io'))
    \<and> cb_pos cb' \<le> cb_cap cb' \<and> cb_cap cb' \<le> bsize"
proof -
  let ?cb = "new_CopyBuffer bsize"
  obtain res cb' io' where run: "copy_run n ?cb io = Some (res, cb', io')"
    and c: "copies ?cb io cb' io'"
    using copy_run_spec [OF cb_ok_new] by blast
  have "in_flight ?cb io = input_left io" "cb_amt ?cb = 0" "length (cb_buf ?cb) = bsize"
    using assms by (simp_all add: in_flight_def unwritten_def new_CopyBuffer_def fresh_io_def)
  with c assms have "in_flight cb' io' = input_left io"
    "cb_amt cb' = of_nat (length (io_delivered io'))"
    "sum_list (io_progress io') = of_nat (length (io_delivered io'))"
    "cb_pos cb' \<le> cb_cap cb'" "cb_cap cb' \<le> bsize"
    by (auto simp: copies_def fresh_io_def cb_ok_def)
  with run show ?thesis by (auto simp: in_flight_def)
qed

text \<open>
  C3: the copy keeps the byte stream intact. However the sockets behave and however often it
  is polled, each poll returns, and at any moment the bytes the writer took, then those in the
  buffer, then those still to come from the reader are exactly the input, in order; and the
  total and the reported progress are the number of bytes delivered.
\<close>

theorem copy_keeps_stream:
  assumes "fresh_io io"
  shows "\<exists>res cb' io'. copy_run n (new_CopyBuffer bsize) io = Some (res, cb', io')
    \<and> io_delivered io' @ unwritten cb' @ input_left io' = input_left io
    \<and> cb_amt cb' = of_nat (length (io_delivered io'))
    \<and> sum_list (io_progress io') = of_nat (length (io_delivered io'))
    \<and> cb_pos cb' \<le> cb_cap cb' \<and> cb_cap cb' \<le> bsize"
  by (rule copy_run_keeps [OF assms])

text \<open>
  When the copy reports its end without a close signal, nothing is left behind: the count
  it returns is the number of bytes delivered, and every byte it took from the reader has been
  delivered.
\<close>

lemma copy_end_is_complete:
  assumes "fresh_io io" and "copy_run n (new_CopyBuffer bsize) io = Some (Ready (Inr k), cb', io')"
    and "True \<notin> set (io_finishes io)"
  shows "k = of_nat (length (io_delivered io')) \<and> io_delivered io' @ input_left io' = input_left io"
proof -
  from copy_run_spec [OF cb_ok_new, of n bsize io] assms(2,3)
  have "k = cb_amt cb'" "cb_pos cb' = cb_cap cb'" by auto
  with copy_run_keeps [OF assms(1), of n bsize] assms(2)
  show ?thesis by (simp add: unwritten_def)
qed

subsection \<open>Signals and errors\<close>

text \<open>
  The close signal ends a copy at its next poll, whatever is buffered: nothing more is read
  or written and the count so far is the result.
\<close>

lemma finish_signal_ends_copy:
  assumes "io_finishes io = True # fs"
  shows "poll_copy cb io = Some (Ready (Inr (cb_amt cb)), cb, io\<lparr>io_finishes := fs\<rparr>)"
  using assms by (simp add: poll_copy.simps [of cb io] copy_pass_def poll_finish_def)

text \<open>
  A writer that takes no byte of a non-empty buffer is an error, not an endless loop; a
  write error and a read error into an empty buffer end the copy with that error.
\<close>

lemma copy_errors:
  assumes "io_finishes io = []"
  shows "(cb_pos cb < cb_cap cb \<and> cb_cap cb \<le> length (cb_buf cb) \<and> io_writes io = WriteAccept 0 # ws
      \<longrightarrow> (\<exists>io'. poll_copy cb io = Some (Ready (Inl WriteZero), cb, io') \<and> io_delivered io' = io_delivered io))
    \<and> (cb_pos cb < cb_cap cb \<and> io_writes io = WriteError e # ws
      \<longrightarrow> poll_copy cb io = Some (Ready (Inl e), cb, io\<lparr>io_writes := ws\<rparr>))
    \<and> (cb_pos cb = cb_cap cb \<and> \<not> cb_read_done cb \<and> io_reads io = ReadError e # rs
      \<longrightarrow> poll_copy cb io = Some (Ready (Inl e), cb\<lparr>cb_pos := 0, cb_cap := 0\<rparr>, io\<lparr>io_reads := rs\<rparr>))"
  using assms
  by (auto simp: poll_copy.simps [of cb io] copy_pass_def poll_finish_def write_loop.simps [of cb io]
      poll_write_buf_def poll_write_def fill_phase_def poll_fill_buf_def poll_read_def)

text \<open>
  With a buffer of size zero, which the command line accepts, a copy ends as soon as its
  reader has data, as if the stream had ended: no byte is read or delivered.
\<close>

lemma empty_buffer_copies_nothing:
  assumes "io_finishes io = []" and "io_reads io = ReadData bs # rs" and "io_flushes io = FlushDone # fs"
    and "bs \<noteq> []"
  shows "\<exists>cb' io'. poll_copy (new_CopyBuffer 0) io = Some (Ready (Inr 0), cb', io')
    \<and> io_delivered io' = io_delivered io \<and> input_left io' = input_left io"
  using assms
  by (subst poll_copy.simps) (simp add: copy_pass_def poll_finish_def
      write_loop.simps new_CopyBuffer_def fill_phase_def poll_fill_buf_def poll_read_def
      poll_flush_def input_left_def Let_def)

subsection \<open>Both directions\<close>

fun transfer_ok :: "TransferState \<Rightarrow> bool" where
  "transfer_ok (Running cb) = cb_ok cb"
| "transfer_ok _ = True"

lemma transfer_returns:
  assumes "transfer_ok s"
  shows "\<exists>res s' io'. transfer_one_direction s io = Some (res, s', io') \<and> transfer_ok s'
    \<and> (\<forall>n. res = Ready (Inr n) \<longleftrightarrow> s' = Done n)"
proof -
  have shut: "\<exists>res s' io'. transfer_one_direction (ShuttingDown c) io = Some (res, s', io') \<and> transfer_ok s'
    \<and> (\<forall>n. res = Ready (Inr n) \<longleftrightarrow> s' = Done n)" for c io
    by (auto split: prod.split poll.split sum.split)
  show ?thesis
  proof (cases s)
    case (Running cb)
    with assms obtain res cb' io' where p: "poll_copy cb io = Some (res, cb', io')" "cb_ok cb'"
      using poll_copy_spec [of cb io] by (auto simp: copies_def)
    show ?thesis
    proof (cases "\<exists>n. res = Ready (Inr n)")
      case True
      with Running p shut show ?thesis by auto
    next
      case False
      with Running p show ?thesis by (auto split: poll.split sum.split)
    qed
  qed (use shut in auto)
qed

text \<open>
  Polling a connection always returns. It reports success exactly when both directions are
  done, with their counts, and once it is done every further poll gives the same answer without
  touching a socket, so finishing one direction early loses nothing.
\<close>

lemma bidirectional_result:
  assumes "transfer_ok (bi_a_to_b bi)" and "transfer_ok (bi_b_to_a bi)"
  shows "\<exists>res bi' ios'. poll_bidirectional bi ios = Some (res, bi', ios')
    \<and> transfer_ok (bi_a_to_b bi') \<and> transfer_ok (bi_b_to_a bi')
    \<and> (\<forall>n1 n2. res = Ready (Inr (n1, n2)) \<longleftrightarrow> bi' = \<lparr>bi_a_to_b = Done n1, bi_b_to_a = Done n2\<rparr>)
    \<and> (\<forall>n1 n2. res = Ready (Inr (n1, n2)) \<longrightarrow> poll_bidirectional bi' ios' = Some (res, bi', ios'))"
proof -
  obtain r1 s1 io1 where t1: "transfer_one_direction (bi_a_to_b bi) (fst ios) = Some (r1, s1, io1)"
    and ok1: "transfer_ok s1" and d1: "\<forall>n. r1 = Ready (Inr n) \<longleftrightarrow> s1 = Done n"
    using transfer_returns [OF assms(1)] by blast
  obtain r2 s2 io2 where t2: "transfer_one_direction (bi_b_to_a bi) (snd ios) = Some (r2, s2, io2)"
    and ok2: "transfer_ok s2" and d2: "\<forall>n. r2 = Ready (Inr n) \<longleftrightarrow> s2 = Done n"
    using transfer_returns [OF assms(2)] by blast
  show ?thesis
    using t1 t2 ok1 ok2 d1 d2 assms(2)
    by (cases bi; cases r1; cases r2) (auto simp: poll_bidirectional_def split: sum.splits)
qed

subsection \<open>The accounting of a copy\<close>

text \<open>What the administrator sees of the traffic between a tunnel and one of its live remotes.\<close>

definition traffic :: "State \<Rightarrow> SocketSpec \<Rightarrow> SocketSpec \<Rightarrow> (u64 \<times> u64 \<times> u64 \<times> u64) option" where
  "traffic st l r =
     Option.bind (get_tunnel st l) (\<lambda>ti. map_option (\<lambda>ri.
       (ts_bytes_sent (ti_stats ti), ts_bytes_received (ti_stats ti),
        rs_bytes_sent (ri_stats ri), rs_bytes_received (ri_stats ri))) (im_get (ti_remotes ti) r))"

definition count_traffic :: "bool \<Rightarrow> u64 \<Rightarrow> u64 \<times> u64 \<times> u64 \<times> u64 \<Rightarrow> u64 \<times> u64 \<times> u64 \<times> u64" where
  "count_traffic sent n t =
     (case t of (ts, tr, rs, rr) \<Rightarrow>
        if sent then (ts + n, tr, rs + n, rr) else (ts, tr + n, rs, rr + n))"

lemma traffic_update_transferred:
  "traffic (update_transferred l r sent n st) l r = map_option (count_traffic sent n) (traffic st l r)"
proof (cases "get_tunnel st l")
  case None
  then show ?thesis by (simp add: update_transferred_def traffic_def)
next
  case (Some ti)
  then show ?thesis
    by (cases "im_get (ti_remotes ti) r")
      (auto simp: update_transferred_def traffic_def count_traffic_def ti_update_moved_bytes_def
        ri_update_moved_bytes_def Let_def)
qed

lemma traffic_fold:
  "traffic (fold (update_transferred l r sent) ns st) l r
     = map_option (count_traffic sent (sum_list ns)) (traffic st l r)"
proof (induction ns arbitrary: st)
  case Nil
  then show ?case by (cases "traffic st l r") (auto simp: count_traffic_def)
next
  case (Cons n ns)
  then show ?case
    by (cases "traffic st l r") (auto simp: traffic_update_transferred count_traffic_def add.assoc)
qed

text \<open>
  C30: the bytes reported for a tunnel and for its remote grow by exactly the number of bytes the
  copy delivered in that direction, and the other direction's do not change.
\<close>

theorem delivered_bytes_are_counted:
  assumes "fresh_io io" and "copy_run n (new_CopyBuffer bsize) io = Some (res, cb', io')"
  shows "traffic (update_progress l r sent io' st) l r
    = map_option (count_traffic sent (of_nat (length (io_delivered io')))) (traffic st l r)"
  using copy_run_keeps [OF assms(1), of n bsize] assms(2)
  by (simp add: update_progress_def traffic_fold)

subsection \<open>Concrete copies\<close>

text \<open>A reader with seven bytes in two chunks, a writer that takes two bytes at a time.\<close>

definition seven_bytes :: Io where
  "seven_bytes = \<lparr>io_reads = map ReadData ([[1, 2, 3], [4, 5, 6, 7]] @ [[]]),
     io_writes = map (\<lambda>k. WriteAccept (Suc k)) (replicate 7 1), io_flushes = [FlushDone],
     io_shutdowns = [FlushDone], io_finishes = [], io_delivered = [], io_progress = []\<rparr>"

lemma seven_bytes_run:
  "map_option (\<lambda>(res, cb, io). (res, io_delivered io, io_progress io))
     (copy_run 1 (new_CopyBuffer 3) seven_bytes)
   = Some (Ready (Inr 7), [1, 2, 3, 4, 5, 6, 7], [2, 1, 2, 1, 1])"
  by code_simp

lemma fresh_seven [simp]: "fresh_io seven_bytes" "io_finishes seven_bytes = []"
  by (simp_all add: fresh_io_def seven_bytes_def)

lemma seven_bytes_result:
  obtains cb io where "copy_run 1 (new_CopyBuffer 3) seven_bytes = Some (Ready (Inr 7), cb, io)"
    and "io_delivered io = [1, 2, 3, 4, 5, 6, 7]"
  using seven_bytes_run by auto

theorem copy_keeps_stream_witness:
  "\<exists>res cb' io'. copy_run 1 (new_CopyBuffer 3) seven_bytes = Some (res, cb', io')
    \<and> io_delivered io' @ unwritten cb' @ input_left io' = [1, 2, 3, 4, 5, 6, 7]"
proof -
  have "input_left seven_bytes = [1, 2, 3, 4, 5, 6, 7]" by code_simp
  with copy_keeps_stream [OF fresh_seven(1), of 1 3] show ?thesis by auto
qed

lemma copy_end_is_complete_witness:
  "\<exists>cb' io'. copy_run 1 (new_CopyBuffer 3) seven_bytes = Some (Ready (Inr 7), cb', io')
    \<and> io_delivered io' @ input_left io' = input_left seven_bytes"
proof -
  obtain cb io where run: "copy_run 1 (new_CopyBuffer 3) seven_bytes = Some (Ready (Inr 7), cb, io)"
    by (rule seven_bytes_result)
  from copy_end_is_complete [OF fresh_seven(1) run] run show ?thesis by simp
qed

lemma finish_signal_ends_copy_witness:
  "poll_copy (new_CopyBuffer 3) (seven_bytes\<lparr>io_finishes := [True]\<rparr>)
     = Some (Ready (Inr 0), new_CopyBuffer 3, seven_bytes)"
proof -
  have "io_finishes (seven_bytes\<lparr>io_finishes := [True]\<rparr>) = [True]" by simp
  from finish_signal_ends_copy [OF this, of "new_CopyBuffer 3"] show ?thesis
    by (simp add: new_CopyBuffer_def seven_bytes_def)
qed

lemma copy_errors_witness:
  "\<exists>io'. poll_copy ((new_CopyBuffer 3)\<lparr>cb_cap := 2\<rparr>) (seven_bytes\<lparr>io_writes := [WriteAccept 0]\<rparr>)
     = Some (Ready (Inl WriteZero), (new_CopyBuffer 3)\<lparr>cb_cap := 2\<rparr>, io')"
proof -
  have "io_finishes (seven_bytes\<lparr>io_writes := [WriteAccept 0]\<rparr>) = []" by simp
  from copy_errors [OF this, of "(new_CopyBuffer 3)\<lparr>cb_cap := 2\<rparr>" "[]"] show ?thesis
    by (auto simp: new_CopyBuffer_def)
qed

lemma empty_buffer_copies_nothing_witness:
  "\<exists>cb' io'. poll_copy (new_CopyBuffer 0) seven_bytes = Some (Ready (Inr 0), cb', io')
    \<and> io_delivered io' = []"
  using empty_buffer_copies_nothing [OF fresh_seven(2), of "[1, 2, 3]" "[ReadData [4, 5, 6, 7], ReadData []]" "[]"]
  by (simp add: seven_bytes_def) blast

lemma bidirectional_result_witness:
  "\<exists>res bi' ios'. poll_bidirectional (copy_bidirectional open_state) (seven_bytes, seven_bytes)
     = Some (res, bi', ios')"
proof -
  have "transfer_ok (bi_a_to_b (copy_bidirectional open_state))"
    "transfer_ok (bi_b_to_a (copy_bidirectional open_state))"
    by (simp_all add: copy_bidirectional_def Let_def)
  from bidirectional_result [OF this, of "(seven_bytes, seven_bytes)"] show ?thesis by blast
qed

theorem delivered_bytes_are_counted_witness:
  "\<exists>io. traffic (update_progress here near True io open_state) here near = Some (7, 0, 7, 0)"
proof -
  obtain cb io where run: "copy_run 1 (new_CopyBuffer 3) seven_bytes = Some (Ready (Inr 7), cb, io)"
    and "io_delivered io = [1, 2, 3, 4, 5, 6, 7]" by (rule seven_bytes_result)
  moreover have "traffic open_state here near = Some (0, 0, 0, 0)" by code_simp
  ultimately show ?thesis
    using delivered_bytes_are_counted [OF fresh_seven(1) run, of here near True open_state]
    by (auto simp: count_traffic_def)
qed

end
