(* ===== verification/Connect.thy ===== *)
theory Connect
  imports Bidirectional
begin

text \<open>
  The stream to a remote end (\<open>GenericStream\<close> and \<open>connect_remote\<close> of \<open>src/lib.rs\<close>): the TCP
  stream itself or a TLS stream over it. Each is a script of the answers of its polls, as in the
  byte copying, so the copy works on either. Connecting, the check of the server name (with its
  error already turned into an I/O error) and the handshake are parameters.
\<close>

datatype GenericStream = Open Io | Encrypted Io

fun inner_stream :: "GenericStream \<Rightarrow> Io" where
  "inner_stream (Open me) = me"
| "inner_stream (Encrypted me) = me"

fun rewrap :: "GenericStream \<Rightarrow> Io \<Rightarrow> GenericStream" where
  "rewrap (Open _) me = Open me"
| "rewrap (Encrypted _) me = Encrypted me"

fun gs_poll_read :: "nat \<Rightarrow> GenericStream \<Rightarrow> (io_error + u8 list) poll \<times> GenericStream" where
  "gs_poll_read room (Open me) = (case poll_read room me of (r, me') \<Rightarrow> (r, Open me'))"
| "gs_poll_read room (Encrypted me) = (case poll_read room me of (r, me') \<Rightarrow> (r, Encrypted me'))"

fun gs_poll_write :: "u8 list \<Rightarrow> GenericStream \<Rightarrow> (io_error + nat) poll \<times> GenericStream" where
  "gs_poll_write bs (Open me) = (case poll_write bs me of (r, me') \<Rightarrow> (r, Open me'))"
| "gs_poll_write bs (Encrypted me) = (case poll_write bs me of (r, me') \<Rightarrow> (r, Encrypted me'))"

fun gs_poll_flush :: "GenericStream \<Rightarrow> (io_error + unit) poll \<times> GenericStream" where
  "gs_poll_flush (Open me) = (case poll_flush me of (r, me') \<Rightarrow> (r, Open me'))"
| "gs_poll_flush (Encrypted me) = (case poll_flush me of (r, me') \<Rightarrow> (r, Encrypted me'))"

fun gs_poll_shutdown :: "GenericStream \<Rightarrow> (io_error + unit) poll \<times> GenericStream" where
  "gs_poll_shutdown (Open me) = (case poll_shutdown me of (r, me') \<Rightarrow> (r, Open me'))"
| "gs_poll_shutdown (Encrypted me) = (case poll_shutdown me of (r, me') \<Rightarrow> (r, Encrypted me'))"

text \<open>The wrapper adds and loses nothing: a poll of it is the poll of the stream in it.\<close>

lemma gs_polls:
  "gs_poll_read room gs = apsnd (rewrap gs) (poll_read room (inner_stream gs))"
  "gs_poll_write bs gs = apsnd (rewrap gs) (poll_write bs (inner_stream gs))"
  "gs_poll_flush gs = apsnd (rewrap gs) (poll_flush (inner_stream gs))"
  "gs_poll_shutdown gs = apsnd (rewrap gs) (poll_shutdown (inner_stream gs))"
  by (cases gs; simp split: prod.split)+

text \<open>\<open>None\<close> is the panic on a remote whose text is no address.\<close>

definition connect_remote ::
  "(string \<times> u16 \<Rightarrow> io_error + Io) \<Rightarrow> (string \<Rightarrow> io_error + string)
     \<Rightarrow> (ClientConfig \<Rightarrow> string \<Rightarrow> Io \<Rightarrow> io_error + Io)
     \<Rightarrow> SocketSpec \<Rightarrow> ClientConfig option \<Rightarrow> (io_error + GenericStream) option" where
  "connect_remote tcp_connect server_name tls_connect remote config =
     (case as_tuple remote of
        None \<Rightarrow> None
      | Some addr \<Rightarrow>
          Some (case tcp_connect addr of
                  Inl e \<Rightarrow> Inl e
                | Inr stream \<Rightarrow>
                    (case config of
                       None \<Rightarrow> Inr (Open stream)
                     | Some cfg \<Rightarrow>
                         (case server_name (fst addr) of
                            Inl e \<Rightarrow> Inl e
                          | Inr domain \<Rightarrow>
                              (case tls_connect cfg domain stream of
                                 Inl e \<Rightarrow> Inl e
                               | Inr tls_stream \<Rightarrow> Inr (Encrypted tls_stream))))))"

text \<open>
  A connection made under options with TLS is encrypted with the program's configuration, for
  the host name of the remote, and one made without is not; nothing falls back from one to the
  other. Starting it panics exactly if reading the address does.
\<close>

lemma connect_remote_encrypted:
  assumes "connect_remote tcp names tls r (tls_config opts st) = Some (Inr gs)"
  shows "if ro_tls opts
     then \<exists>h p domain s s'. as_tuple r = Some (h, p) \<and> tcp (h, p) = Inr s \<and> names h = Inr domain
            \<and> tls (st_client_ssl_config st) domain s = Inr s' \<and> gs = Encrypted s'
     else \<exists>a s. as_tuple r = Some a \<and> tcp a = Inr s \<and> gs = Open s"
  using assms by (auto simp: connect_remote_def tls_config_def split: option.splits sum.splits if_splits)

lemma connect_remote_panics:
  "connect_remote tcp names tls r config = None \<longleftrightarrow> as_tuple r = None"
  by (simp add: connect_remote_def split: option.split)

end
