(* ===== verification/Metrics_Endpoint.thy ===== *)
theory Metrics_Endpoint
  imports Text
begin

text \<open>
  The metrics endpoint (\<open>serve_req\<close> of \<open>src/metrics.rs\<close>): one request and its response. The
  registry with the text encoder (\<open>encode\<close>, an error is a panic) and the content type of its
  format are parameters. Before it, the setting up of the metrics (\<open>init_prometheus\<close>,
  \<open>init_meter\<close>), over the constructors of the metrics libraries.
\<close>

subsection \<open>Setting up\<close>

text \<open>
  The constructors, as the source calls them: a registry; a controller with the bounds of its
  histograms and cumulative aggregation; the exporter of a controller to a registry, whose \<open>init\<close>
  may change the global state of the library; and the meter of a given name under that state.
\<close>

record ('registry, 'controller, 'exporter, 'global, 'meter) metrics_lib =
  lib_registry :: 'registry
  lib_controller :: "nat list \<Rightarrow> 'controller"
  lib_init :: "'controller \<Rightarrow> 'registry \<Rightarrow> 'global \<Rightarrow> 'exporter \<times> 'global"
  lib_meter :: "string \<Rightarrow> 'global \<Rightarrow> 'meter"

definition init_prometheus ::
  "('registry, 'controller, 'exporter, 'global, 'meter) metrics_lib \<Rightarrow> 'global
     \<Rightarrow> ('exporter \<times> 'registry) \<times> 'global" where
  "init_prometheus M g =
     (let registry = lib_registry M;
          controller = lib_controller M [1, 2, 5, 10, 20, 50];
          (exporter, g') = lib_init M controller registry g
      in ((exporter, registry), g'))"

definition init_meter ::
  "('registry, 'controller, 'exporter, 'global, 'meter) metrics_lib \<Rightarrow> 'global \<Rightarrow> 'meter" where
  "init_meter M g = lib_meter M ''plexy'' g"

text \<open>How the program starts them: the exporter first, since the meter is the global one.\<close>

definition start_metrics ::
  "('registry, 'controller, 'exporter, 'global, 'meter) metrics_lib \<Rightarrow> 'global \<Rightarrow> 'meter \<times> 'registry" where
  "start_metrics M g =
     (case init_prometheus M g of ((_, registry), g') \<Rightarrow> (init_meter M g', registry))"

text \<open>
  The meter of the state is the one of the exporter that feeds the registry the endpoint serves,
  if \<open>init\<close> makes its exporter the global one, as it documents.
\<close>

lemma metrics_reach_the_endpoint:
  assumes "\<And>c r g'. snd (lib_init M c r g') = provider c r"
  shows "start_metrics M g
    = (lib_meter M ''plexy'' (provider (lib_controller M [1, 2, 5, 10, 20, 50]) (lib_registry M)), lib_registry M)"
  using assms [of "lib_controller M [1, 2, 5, 10, 20, 50]" "lib_registry M" g]
  by (auto simp: start_metrics_def init_prometheus_def init_meter_def Let_def split: prod.splits)

subsection \<open>One request\<close>

record HttpResponse =
  hr_status :: nat
  hr_headers :: "(string \<times> string) list"
  hr_body :: string

definition serve_req ::
  "('registry \<Rightarrow> string + string) \<Rightarrow> string \<Rightarrow> string \<Rightarrow> string \<Rightarrow> 'registry \<Rightarrow> HttpResponse option" where
  "serve_req encode format_type method_name path registry =
     (if method_name = ''GET'' \<and> path = ''/metrics''
      then (case encode registry of
              Inl _ \<Rightarrow> None
            | Inr buffer \<Rightarrow>
                Some \<lparr>hr_status = 200, hr_headers = [(''content-type'', format_type)], hr_body = buffer\<rparr>)
      else Some \<lparr>hr_status = 404, hr_headers = [], hr_body = ''Not Found''\<rparr>)"

text \<open>The metrics are handed out to nothing but a GET of their path.\<close>

lemma serve_req_status:
  assumes "serve_req encode fmt m p registry = Some resp"
  shows "hr_status resp \<in> {200, 404}"
    and "hr_status resp = 200 \<longleftrightarrow> m = ''GET'' \<and> p = ''/metrics''"
    and "hr_status resp = 200 \<Longrightarrow> encode registry = Inr (hr_body resp)"
  using assms by (auto simp: serve_req_def split: if_splits sum.splits)

end
