(* ===== verification/Servers.thy ===== *)
theory Servers
  imports Protocol Metrics_Endpoint
begin

text \<open>
  The servers the program starts beside its tunnels: the control interface (\<open>run_controller\<close> of
  \<open>src/controller.rs\<close>), the JSON-RPC interface (\<open>run_rpc_server\<close> of \<open>src/rpc.rs\<close>) and the metrics
  (\<open>run\<close> of \<open>src/metrics.rs\<close>). Each runs in a task of its own. What binding and accepting give
  is an argument; the JSON-RPC and HTTP servers themselves are libraries.
\<close>

subsection \<open>The control interface\<close>

text \<open>
  The loop over the outcomes of \<open>accept\<close>: a task for each connection, until the first error,
  which is the result. Without one the loop still waits.
\<close>

fun accept_loop :: "(string + 'socket) list \<Rightarrow> 'socket list \<times> string option" where
  "accept_loop [] = ([], None)"
| "accept_loop (Inl e # outcomes) = ([], Some e)"
| "accept_loop (Inr socket # outcomes) =
     (case accept_loop outcomes of (sockets, ended) \<Rightarrow> (socket # sockets, ended))"

definition run_controller ::
  "string + unit \<Rightarrow> (string + 'socket) list \<Rightarrow> 'socket list \<times> string option" where
  "run_controller bound outcomes =
     (case bound of Inl e \<Rightarrow> ([], Some e) | Inr _ \<Rightarrow> accept_loop outcomes)"

text \<open>
  The connections before the first error are served, all others never: one failed \<open>accept\<close> ends
  the control interface for good, while the listener of a tunnel reports it and goes on.
\<close>

lemma run_controller_ends:
  "run_controller (Inr ()) (map Inr sockets @ Inl e # outcomes) = (sockets, Some e)"
  by (induction sockets) (simp_all add: run_controller_def)

lemma run_controller_serves: "run_controller (Inr ()) (map Inr sockets) = (sockets, None)"
  by (induction sockets) (simp_all add: run_controller_def)

subsection \<open>The codec of a control connection\<close>

text \<open>
  The codec holds the line codec of the library, whose operations are parameters: a call returns
  what \<open>decode\<close> or \<open>encode\<close> of \<open>Protocol\<close> take, and the codec with the rest of the buffer.
\<close>

record 'codec lines_lib =
  ll_new_with_max_length :: "nat \<Rightarrow> 'codec"
  ll_decode :: "'codec \<Rightarrow> string \<Rightarrow> (string + string option) \<times> 'codec \<times> string"
  ll_encode :: "'codec \<Rightarrow> string \<Rightarrow> string \<Rightarrow> string + string"

record 'codec CommandCodec =
  cc_lines_codec :: 'codec

definition new_CommandCodec :: "'codec lines_lib \<Rightarrow> nat \<Rightarrow> 'codec CommandCodec" where
  "new_CommandCodec L max_length = \<lparr>cc_lines_codec = ll_new_with_max_length L max_length\<rparr>"

definition codec_decode ::
  "'codec lines_lib \<Rightarrow> nom \<Rightarrow> TunnelOptions \<Rightarrow> 'codec CommandCodec \<Rightarrow> string
     \<Rightarrow> CommandRequest option result \<times> 'codec CommandCodec \<times> string" where
  "codec_decode L N d c src =
     (case ll_decode L (cc_lines_codec c) src of
        (res, lc, src') \<Rightarrow> (decode N d res, c\<lparr>cc_lines_codec := lc\<rparr>, src'))"

definition codec_encode ::
  "'codec lines_lib \<Rightarrow> 'codec CommandCodec \<Rightarrow> CommandResponse \<Rightarrow> string \<Rightarrow> string result" where
  "codec_encode L c item dst = encode (\<lambda>s. ll_encode L (cc_lines_codec c) s dst) item"

text \<open>
  A line never makes the decoder fail: what is no request is decoded as an invalid one, and only
  an error of the line codec is an error.
\<close>

lemma codec_decode_error:
  "fst (codec_decode L N d c src) = Inl e \<longleftrightarrow>
     (\<exists>x. e = ControlProtocolLineError x \<and> fst (ll_decode L (cc_lines_codec c) src) = Inl x)"
  by (auto simp: codec_decode_def decode_def split: prod.split sum.splits option.splits)

subsection \<open>The JSON-RPC interface\<close>

text \<open>Building and starting the server; once started it serves until it is stopped (\<open>None\<close> until then).\<close>

definition run_rpc_server ::
  "string + 'server \<Rightarrow> ('server \<Rightarrow> string + 'handle) \<Rightarrow> ('handle \<Rightarrow> bool) \<Rightarrow> unit result option" where
  "run_rpc_server built start stopped =
     (case built of
        Inl e \<Rightarrow> Some (Inl (RPCError e))
      | Inr server \<Rightarrow>
          (case start server of
             Inl e \<Rightarrow> Some (Inl (RPCError e))
           | Inr handle \<Rightarrow> if stopped handle then Some (Inr ()) else None))"

subsection \<open>The metrics\<close>

text \<open>
  Every connection gets a service over the same registry. Binding the server is a panic of its
  task when it fails, as the library documents.
\<close>

definition make_svc ::
  "('registry \<Rightarrow> string + string) \<Rightarrow> string \<Rightarrow> 'registry \<Rightarrow> 'conn
     \<Rightarrow> string \<Rightarrow> string \<Rightarrow> HttpResponse option" where
  "make_svc encoder format_type registry conn =
     (\<lambda>method_name path. serve_req encoder format_type method_name path registry)"

datatype metrics_task = MetricsPanicked | MetricsServing | MetricsEnded "string + unit"

definition run_metrics :: "string + unit \<Rightarrow> (string + unit) option \<Rightarrow> metrics_task" where
  "run_metrics bound server =
     (case bound of
        Inl _ \<Rightarrow> MetricsPanicked
      | Inr _ \<Rightarrow> (case server of None \<Rightarrow> MetricsServing | Some res \<Rightarrow> MetricsEnded res))"

end
