(* ===== verification/Delivery.thy ===== *)
theory Delivery
  imports Bidirectional
begin

text \<open>
  That a connection is served to its end (\<open>src/aio.rs\<close>): between sockets that may answer
  \<open>Pending\<close> any number of times and cut the stream as they like, but report no error and go on in
  the end, both directions deliver everything, are shut down and are reported with their number of
  bytes, after at most one poll more than the sockets answered \<open>Pending\<close>.
\<close>

subsection \<open>Sockets that go on\<close>

definition no_flush_error :: "flush_answer \<Rightarrow> bool" where
  "no_flush_error f \<longleftrightarrow> (case f of FlushError e \<Rightarrow> False | _ \<Rightarrow> True)"

text \<open>What a reader answers before the end of its stream.\<close>

definition before_end :: "read_answer \<Rightarrow> bool" where
  "before_end a \<longleftrightarrow> (case a of ReadPending \<Rightarrow> True | ReadError e \<Rightarrow> False | ReadData bs \<Rightarrow> bs \<noteq> [])"

definition takes_some :: "write_answer \<Rightarrow> bool" where
  "takes_some w \<longleftrightarrow> (case w of WritePending \<Rightarrow> True | WriteError e \<Rightarrow> False | WriteAccept k \<Rightarrow> 0 < k)"

text \<open>How often a script answers \<open>Pending\<close>.\<close>

definition read_pendings :: "Io \<Rightarrow> nat" where
  "read_pendings io = count_list (io_reads io) ReadPending"

definition pendings :: "Io \<Rightarrow> nat" where
  "pendings io = read_pendings io + count_list (io_writes io) WritePending
     + count_list (io_flushes io) FlushPending + count_list (io_shutdowns io) FlushPending"

text \<open>
  A writer takes at least one byte whenever it takes any, and goes on doing so while there are
  bytes; it can be flushed once more than the reader answers \<open>Pending\<close>, since each such answer may
  cost a flush; and nobody closes the tunnel.
\<close>

definition fair_writer :: "nat \<Rightarrow> Io \<Rightarrow> bool" where
  "fair_writer n io \<longleftrightarrow> list_all takes_some (io_writes io)
     \<and> n \<le> length (filter (\<lambda>w. w \<noteq> WritePending) (io_writes io))
     \<and> list_all no_flush_error (io_flushes io)
     \<and> read_pendings io < count_list (io_flushes io) FlushDone
     \<and> True \<notin> set (io_finishes io)"

definition fair_shutdown :: "Io \<Rightarrow> bool" where
  "fair_shutdown io \<longleftrightarrow> list_all no_flush_error (io_shutdowns io) \<and> FlushDone \<in> set (io_shutdowns io)"

definition fair_reader :: "Io \<Rightarrow> bool" where
  "fair_reader io \<longleftrightarrow> (\<exists>as. io_reads io = as @ [ReadData []] \<and> list_all before_end as)"

definition fair_io :: "Io \<Rightarrow> bool" where
  "fair_io io \<longleftrightarrow> fair_reader io \<and> fair_writer (length (input_left io)) io \<and> fair_shutdown io"

definition fair :: "CopyBuffer \<Rightarrow> Io \<Rightarrow> bool" where
  "fair cb io \<longleftrightarrow> cb_ok cb \<and> cb_buf cb \<noteq> []
     \<and> (if cb_read_done cb then io_reads io = [] else fair_reader io)
     \<and> fair_writer (length (unwritten cb @ input_left io)) io \<and> fair_shutdown io"

lemmas fair_defs = fair_def fair_writer_def fair_reader_def fair_shutdown_def

lemma fair_cb_ok: "fair cb io \<Longrightarrow> cb_ok cb"
  by (simp add: fair_def)

text \<open>The next answer of a reader that has not ended its stream, and what remains of it.\<close>

lemma fair_reader_cases:
  assumes "fair_reader io"
  obtains (stream_end) "io_reads io = [ReadData []]"
  | (waits) rs where "io_reads io = ReadPending # rs" "fair_reader (io\<lparr>io_reads := rs\<rparr>)"
  | (chunk) bs rs where "io_reads io = ReadData bs # rs" "bs \<noteq> []"
      "\<And>bs'. bs' \<noteq> [] \<Longrightarrow> fair_reader (io\<lparr>io_reads := ReadData bs' # rs\<rparr>)" "fair_reader (io\<lparr>io_reads := rs\<rparr>)"
proof -
  from assms obtain as where as: "io_reads io = as @ [ReadData []]" "list_all before_end as"
    by (auto simp: fair_reader_def)
  show thesis
  proof (cases as)
    case Nil
    with as stream_end show thesis by simp
  next
    case (Cons a as')
    then have rest: "list_all before_end as'" and a: "before_end a" using as by simp_all
    show thesis
    proof (cases a)
      case ReadPending
      with as Cons rest waits [of "as' @ [ReadData []]"] show thesis by (auto simp: fair_reader_def)
    next
      case (ReadError e)
      with a show thesis by (simp add: before_end_def)
    next
      case (ReadData bs)
      have "fair_reader (io\<lparr>io_reads := ReadData bs' # as' @ [ReadData []]\<rparr>)" if "bs' \<noteq> []" for bs'
        using rest that by (auto simp: fair_reader_def before_end_def intro!: exI [of _ "ReadData bs' # as'"])
      with ReadData a as Cons rest chunk [of bs "as' @ [ReadData []]"] show thesis
        by (auto simp: fair_reader_def before_end_def)
    qed
  qed
qed

subsection \<open>One poll\<close>

text \<open>What a step of the copy leaves alone: what it did not poll, and the way to the end.\<close>

definition same_scripts :: "Io \<Rightarrow> Io \<Rightarrow> bool" where
  "same_scripts io' io \<longleftrightarrow> io_writes io' = io_writes io \<and> io_flushes io' = io_flushes io
     \<and> io_shutdowns io' = io_shutdowns io \<and> io_finishes io' = io_finishes io
     \<and> io_delivered io' = io_delivered io"

lemma fill_scripts:
  assumes "poll_fill_buf cb io = (res, cb', io')"
  shows "same_scripts io' io"
  using assms by (auto simp: poll_fill_buf_def poll_read_def same_scripts_def Let_def
      split: list.splits read_answer.splits if_splits)

lemma fair_fill:
  assumes "fair cb io" and "\<not> cb_read_done cb" and "cb_cap cb < length (cb_buf cb)"
    and "poll_fill_buf cb io = (res, cb', io')"
  shows "fair cb' io'"
    and "res = Ready (Inr ()) \<and> read_pendings io' = read_pendings io
       \<or> res = Pending \<and> cb' = cb \<and> read_pendings io = Suc (read_pendings io')"
proof -
  note scripts = fill_scripts [OF assms(4)]
  note copied = copies_fill(1) [OF assms(4) fair_cb_ok [OF assms(1)]]
  have left: "unwritten cb' @ input_left io' = unwritten cb @ input_left io"
    using copied scripts by (simp add: copies_def in_flight_def same_scripts_def)
  have reader: "fair_reader io" using assms(1,2) by (simp add: fair_def)
  have res: "res = Ready (Inr ()) \<and> read_pendings io' = read_pendings io
      \<and> (if cb_read_done cb' then io_reads io' = [] else fair_reader io')
    \<or> res = Pending \<and> cb' = cb \<and> read_pendings io = Suc (read_pendings io') \<and> fair_reader io'"
    using reader
  proof (cases rule: fair_reader_cases)
    case stream_end
    with assms(3,4) show ?thesis
      by (auto simp: poll_fill_buf_def poll_read_def read_pendings_def Let_def)
  next
    case (waits rs)
    with assms(4) show ?thesis by (auto simp: poll_fill_buf_def poll_read_def read_pendings_def)
  next
    case (chunk bs rs)
    let ?room = "length (cb_buf cb) - cb_cap cb"
    have "drop ?room bs \<noteq> []" if "\<not> length bs \<le> ?room" using that by simp
    with chunk assms(3,4) show ?thesis
      by (auto simp: poll_fill_buf_def poll_read_def read_pendings_def Let_def split: if_splits)
  qed
  then show "res = Ready (Inr ()) \<and> read_pendings io' = read_pendings io
       \<or> res = Pending \<and> cb' = cb \<and> read_pendings io = Suc (read_pendings io')" by blast
  have "read_pendings io' \<le> read_pendings io" using res by auto
  then have "fair_writer (length (unwritten cb' @ input_left io')) io'"
    using assms(1) scripts unfolding left by (simp add: fair_defs same_scripts_def)
  moreover have "fair_shutdown io'"
    using assms(1) scripts by (simp add: fair_defs same_scripts_def)
  moreover have "length (cb_buf cb') = length (cb_buf cb)" "cb_ok cb'"
    using copied by (simp_all add: copies_def)
  ultimately show "fair cb' io'"
    using assms(1,2) res by (auto simp: fair_def split: if_splits)
qed

lemma fill_pendings:
  assumes "fair cb io" and "\<not> cb_read_done cb" and "cb_cap cb < length (cb_buf cb)"
    and "poll_fill_buf cb io = (res, cb', io')"
  shows "res = Ready (Inr ()) \<and> pendings io' = pendings io
       \<or> res = Pending \<and> cb' = cb \<and> pendings io = Suc (pendings io')"
  using fair_fill(2) [OF assms] fill_scripts [OF assms(4)] by (auto simp: pendings_def same_scripts_def)

lemma fair_write_buf:
  assumes "fair cb io" and "cb_pos cb < cb_cap cb" and "poll_write_buf cb io = (res, cb', io')"
  shows "(\<exists>i. res = Ready (Inr i) \<and> 0 < i \<and> pendings io' = pendings io
      \<and> fair (cb\<lparr>cb_pos := cb_pos cb + i, cb_amt := cb_amt cb + of_nat i, cb_need_flush := True\<rparr>)
             (io'\<lparr>io_progress := io_progress io' @ [of_nat i]\<rparr>))
    \<or> res = Pending \<and> fair cb' io' \<and> pendings io' < pendings io"
proof -
  have un: "length (unwritten cb) = cb_cap cb - cb_pos cb"
    using assms(1) by (auto simp: fair_def cb_ok_def unwritten_def)
  then obtain w ws where ws: "io_writes io = w # ws" and w: "takes_some w"
    using assms(1,2) by (cases "io_writes io") (auto simp: fair_defs)
  show ?thesis
  proof (cases w)
    case WritePending
    let ?io = "io\<lparr>io_writes := ws\<rparr>"
    have fair1: "fair cb ?io" and less: "pendings io = Suc (pendings ?io)"
      using assms(1) ws WritePending
      by (auto simp: fair_defs pendings_def read_pendings_def input_left_def split: if_splits)
    show ?thesis
    proof (cases "\<not> cb_read_done cb \<and> cb_cap cb < length (cb_buf cb)")
      case True
      obtain f cb1 io1 where f: "poll_fill_buf cb ?io = (f, cb1, io1)" by (cases "poll_fill_buf cb ?io")
      from True have "\<not> cb_read_done cb" "cb_cap cb < length (cb_buf cb)" by simp_all
      note fill = fair_fill(1) [OF fair1 this f] fill_pendings [OF fair1 this f]
      with f assms(3) ws WritePending True less show ?thesis
        by (auto simp: poll_write_buf_def poll_write_def)
    next
      case False
      with assms(3) ws WritePending fair1 less show ?thesis
        by (auto simp: poll_write_buf_def poll_write_def)
    qed
  next
    case (WriteError e)
    with w show ?thesis by (simp add: takes_some_def)
  next
    case (WriteAccept k)
    let ?i = "min k (length (unwritten cb))"
    let ?cb = "cb\<lparr>cb_pos := cb_pos cb + ?i, cb_amt := cb_amt cb + of_nat ?i, cb_need_flush := True\<rparr>"
    have k: "0 < k" using w WriteAccept by (simp add: takes_some_def)
    have "unwritten ?cb = drop ?i (unwritten cb)"
      by (simp add: unwritten_def drop_take add.commute)
    moreover have "io' = io\<lparr>io_writes := ws, io_delivered := io_delivered io @ take k (unwritten cb)\<rparr>"
      and res: "res = Ready (Inr ?i)"
      using assms(3) ws WriteAccept by (auto simp: poll_write_buf_def poll_write_def)
    ultimately show ?thesis
      using assms(1,2) ws WriteAccept k un
      by (auto simp: fair_defs cb_ok_def pendings_def read_pendings_def input_left_def split: if_splits)
  qed
qed

lemma fair_write_loop:
  assumes "fair cb io" and "write_loop cb io = (res, cb', io')"
  shows "fair cb' io' \<and> (res = None \<and> pendings io' = pendings io \<or> res = Some Pending \<and> pendings io' < pendings io)"
  using assms
proof (induction cb io rule: write_loop.induct)
  case (1 cb io)
  show ?case
  proof (cases "cb_pos cb < cb_cap cb")
    case False
    with 1(2,3) show ?thesis by (simp add: write_loop.simps [of cb io])
  next
    case True
    obtain w cb1 io1 where w: "poll_write_buf cb io = (w, cb1, io1)" by (cases "poll_write_buf cb io")
    from fair_write_buf [OF 1(2) True w] show ?thesis
    proof (elim disjE exE conjE)
      fix i
      let ?cb = "cb\<lparr>cb_pos := cb_pos cb + i, cb_amt := cb_amt cb + of_nat i, cb_need_flush := True\<rparr>"
      let ?io = "io1\<lparr>io_progress := io_progress io1 @ [of_nat i]\<rparr>"
      assume i: "w = Ready (Inr i)" "0 < i" and same: "pendings io1 = pendings io" and fair: "fair ?cb ?io"
      have cb1: "cb1 = cb" by (rule poll_write_buf_ready(1) [OF w [unfolded i(1)]])
      have loop: "write_loop ?cb ?io = (res, cb', io')"
        using 1(3) True w i cb1 by (simp add: write_loop.simps [of cb io])
      have "pendings ?io = pendings io" using same by (simp add: pendings_def read_pendings_def)
      with 1(1) [OF True w [symmetric] i(1) refl refl] i(2) fair loop show ?thesis
        unfolding cb1 by simp
    next
      assume "w = Pending" "fair cb1 io1" "pendings io1 < pendings io"
      with 1(3) True w show ?thesis by (simp add: write_loop.simps [of cb io])
    qed
  qed
qed

text \<open>A flush while the reader waits, and the one at the end of the stream.\<close>

lemma fair_flush_waiting:
  assumes "fair cb io" and "Suc (read_pendings io) < count_list (io_flushes io) FlushDone"
    and "poll_flush io = (res, io')"
  shows "fair (cb\<lparr>cb_need_flush := b\<rparr>) io' \<and> fair cb io' \<and> (res = Pending \<or> res = Ready (Inr ()))
    \<and> pendings io' \<le> pendings io"
proof -
  obtain f fs where f: "io_flushes io = f # fs" using assms(2) by (cases "io_flushes io") auto
  then have io': "io' = io\<lparr>io_flushes := fs\<rparr>" "res = flush_result f" and ok: "no_flush_error f"
    using assms(1,3) by (auto simp: poll_flush_def fair_defs)
  have "fair cb io'"
    using assms(1,2) f unfolding io'(1)
    by (auto simp: fair_defs read_pendings_def input_left_def split: if_splits)
  then have "fair (cb\<lparr>cb_need_flush := b\<rparr>) io' \<and> fair cb io'"
    by (simp add: fair_def cb_ok_def unwritten_def)
  with f io' ok show ?thesis
    by (cases f) (auto simp: pendings_def read_pendings_def no_flush_error_def)
qed

lemma fair_flush_end:
  assumes "fair cb io" and "cb_read_done cb" and "poll_flush io = (res, io')"
  shows "res = Pending \<and> fair cb io' \<and> pendings io' < pendings io
    \<or> res = Ready (Inr ()) \<and> fair_shutdown io' \<and> pendings io' = pendings io \<and> io_reads io' = []"
proof -
  have reads: "io_reads io = []" "0 < count_list (io_flushes io) FlushDone"
    using assms(1,2) by (simp_all add: fair_defs)
  then obtain f fs where f: "io_flushes io = f # fs" by (cases "io_flushes io") auto
  have "io' = io\<lparr>io_flushes := fs\<rparr>" "res = flush_result f" "no_flush_error f"
    using assms(1,3) f by (auto simp: poll_flush_def fair_defs)
  with f reads assms(1,2) show ?thesis
    by (cases f) (auto simp: fair_defs pendings_def read_pendings_def input_left_def no_flush_error_def)
qed

lemma fair_fill_phase:
  assumes "fair cb io" and "cb_pos cb = cb_cap cb" and "\<not> cb_read_done cb"
    and "fill_phase (cb\<lparr>cb_pos := 0, cb_cap := 0\<rparr>) io = (res, cb', io')"
  shows "fair cb' io' \<and> (res = None \<and> pendings io' = pendings io \<or> res = Some Pending \<and> pendings io' < pendings io)"
proof -
  let ?cb = "cb\<lparr>cb_pos := 0, cb_cap := 0\<rparr>"
  have fair: "fair ?cb io" and room: "cb_cap ?cb < length (cb_buf ?cb)" and not_done: "\<not> cb_read_done ?cb"
    using assms(1-3) by (auto simp: fair_def cb_ok_def unwritten_def)
  obtain f cb1 io1 where f: "poll_fill_buf ?cb io = (f, cb1, io1)" by (cases "poll_fill_buf ?cb io")
  note fill = fair_fill [OF fair not_done room f] fill_pendings [OF fair not_done room f]
  have dones: "read_pendings io < count_list (io_flushes io1) FlushDone"
    using assms(1) fill_scripts [OF f] by (simp add: fair_defs same_scripts_def)
  obtain fl io2 where fl: "poll_flush io1 = (fl, io2)" by (cases "poll_flush io1")
  from fill(3) show ?thesis
  proof (elim disjE conjE)
    assume "f = Ready (Inr ())" and "pendings io1 = pendings io"
    with f fill(1) assms(4) show ?thesis by (simp add: fill_phase_def)
  next
    assume "f = Pending" and less: "pendings io = Suc (pendings io1)"
    with fill(2) have waits: "Suc (read_pendings io1) < count_list (io_flushes io1) FlushDone"
      using dones by simp
    from fair_flush_waiting [OF fill(1) waits fl, of False] \<open>f = Pending\<close> f fl fill(1) assms(4) less
    show ?thesis
      by (auto simp: fill_phase_def split: if_splits)
  qed
qed

lemma fair_finish:
  assumes "fair cb io"
  obtains io1 where "poll_finish io = (False, io1)" "fair cb io1" "pendings io1 = pendings io"
proof (cases "io_finishes io")
  case Nil
  with assms that [of io] show thesis by (simp add: poll_finish_def)
next
  case (Cons f fs)
  with assms have "\<not> f" and "fair cb (io\<lparr>io_finishes := fs\<rparr>)"
    by (auto simp: fair_defs read_pendings_def input_left_def split: if_splits)
  with Cons that [of "io\<lparr>io_finishes := fs\<rparr>"] show thesis
    by (simp add: poll_finish_def pendings_def read_pendings_def)
qed

lemma fair_pass:
  assumes "fair cb io" and "copy_pass cb io = (res, cb', io')"
  shows "res = None \<and> fair cb' io' \<and> pendings io' = pendings io
    \<or> res = Some Pending \<and> fair cb' io' \<and> pendings io' < pendings io
    \<or> (\<exists>n. res = Some (Ready (Inr n))) \<and> fair_shutdown io' \<and> pendings io' = pendings io \<and> io_reads io' = []"
proof -
  obtain io1 where fin: "poll_finish io = (False, io1)" and fair1: "fair cb io1"
    and p1: "pendings io1 = pendings io" by (rule fair_finish [OF assms(1)])
  obtain r2 cb2 io2 where f: "refilled cb io1 = (r2, cb2, io2)" by (cases "refilled cb io1")
  have fair2: "fair cb2 io2
      \<and> (r2 = None \<and> pendings io2 = pendings io \<or> r2 = Some Pending \<and> pendings io2 < pendings io)"
  proof (cases "cb_pos cb = cb_cap cb \<and> \<not> cb_read_done cb")
    case True
    with f have "fill_phase (cb\<lparr>cb_pos := 0, cb_cap := 0\<rparr>) io1 = (r2, cb2, io2)" by (simp add: refilled_def)
    from fair_fill_phase [OF fair1 _ _ this] True p1 show ?thesis by simp
  next
    case False
    with f fair1 p1 show ?thesis by (auto simp: refilled_def)
  qed
  obtain r3 cb3 io3 where l: "write_loop cb2 io2 = (r3, cb3, io3)" by (cases "write_loop cb2 io2")
  have fair3: "fair cb3 io3
      \<and> (r3 = None \<and> pendings io3 = pendings io2 \<or> r3 = Some Pending \<and> pendings io3 < pendings io2)"
    using fair_write_loop [OF _ l] fair2 by blast
  obtain fl io4 where fl: "poll_flush io3 = (fl, io4)" by (cases "poll_flush io3")
  note pass = copy_pass_parts [OF fin f l fl]
  from fair2 fair3 consider (filling) "r2 = Some Pending" "fair cb2 io2" "pendings io2 < pendings io"
    | (writing) "r2 = None" "r3 = Some Pending" "fair cb3 io3" "pendings io3 < pendings io"
    | (written) "r2 = None" "r3 = None" "fair cb3 io3" "pendings io3 = pendings io" by fastforce
  then show ?thesis
  proof cases
    case written
    show ?thesis
    proof (cases "cb_pos cb3 = cb_cap cb3 \<and> cb_read_done cb3")
      case True
      from fair_flush_end [OF written(3) _ fl] True show ?thesis
        using written assms(2) by (auto simp: pass True)
    next
      case False
      with written assms(2) show ?thesis by (simp add: pass)
    qed
  qed (use assms(2) in \<open>simp_all add: pass\<close>)
qed

lemma fair_copy:
  assumes "fair cb io"
  shows "\<exists>res cb' io'. poll_copy cb io = Some (res, cb', io')
    \<and> (res = Pending \<and> fair cb' io' \<and> pendings io' < pendings io
       \<or> (\<exists>n. res = Ready (Inr n)) \<and> fair_shutdown io' \<and> pendings io' \<le> pendings io \<and> io_reads io' = [])"
  using assms
proof (induction "2 * reads_left io + (if cb_pos cb < cb_cap cb then 1 else 0)"
    arbitrary: cb io rule: less_induct)
  case less
  obtain res cb1 io1 where pass: "copy_pass cb io = (res, cb1, io1)" by (cases "copy_pass cb io")
  note poll = poll_copy.simps [of cb io]
  from fair_pass [OF less.prems pass] consider
      (again) "res = None" "fair cb1 io1" "pendings io1 = pendings io"
    | (waits) "res = Some Pending" "fair cb1 io1" "pendings io1 < pendings io"
    | (ends) n where "res = Some (Ready (Inr n))" "fair_shutdown io1" "pendings io1 = pendings io" "io_reads io1 = []"
    by blast
  then show ?case
  proof cases
    case again
    from copy_pass_copies [OF pass fair_cb_ok [OF less.prems]] again(1)
    have "2 * reads_left io1 + (if cb_pos cb1 < cb_cap cb1 then 1 else 0)
        < 2 * reads_left io + (if cb_pos cb < cb_cap cb then 1 else 0)"
      by (simp split: if_splits)
    from less.hyps [OF this again(2)] again(1,3) pass show ?thesis by (simp add: poll)
  next
    case waits
    with pass show ?thesis by (simp add: poll)
  next
    case ends
    with pass show ?thesis by (simp add: poll)
  qed
qed

subsection \<open>One direction\<close>

text \<open>The direction carries the bytes \<open>bs\<close>: what was delivered, what is buffered and what is still to come.\<close>

fun carries :: "u8 list \<Rightarrow> TransferState \<Rightarrow> Io \<Rightarrow> bool" where
  "carries bs (Running cb) io \<longleftrightarrow> fair cb io \<and> in_flight cb io = bs
     \<and> cb_amt cb = of_nat (length (io_delivered io)) \<and> sum_list (io_progress io) = of_nat (length (io_delivered io))"
| "carries bs (ShuttingDown n) io \<longleftrightarrow> fair_shutdown io \<and> io_delivered io = bs \<and> n = of_nat (length bs)
     \<and> sum_list (io_progress io) = n"
| "carries bs (Done n) io \<longleftrightarrow> io_delivered io = bs \<and> n = of_nat (length bs) \<and> sum_list (io_progress io) = n"

text \<open>One poll brings the direction to its end, or the sockets have one \<open>Pending\<close> less to give.\<close>

definition advances :: "u8 list \<Rightarrow> (io_error + u64) poll \<Rightarrow> TransferState \<Rightarrow> Io \<Rightarrow> Io \<Rightarrow> bool" where
  "advances bs res s' io' io \<longleftrightarrow> carries bs s' io'
     \<and> (res = Pending \<and> pendings io' < pendings io
        \<or> res = Ready (Inr (of_nat (length bs))) \<and> s' = Done (of_nat (length bs)) \<and> pendings io' \<le> pendings io)"

lemma shutdown_advances:
  assumes "carries bs (ShuttingDown n) io"
  shows "\<exists>res s' io'. transfer_one_direction (ShuttingDown n) io = Some (res, s', io') \<and> advances bs res s' io' io"
proof -
  from assms obtain f fs where f: "io_shutdowns io = f # fs" and "no_flush_error f"
    by (cases "io_shutdowns io") (auto simp: fair_shutdown_def)
  with assms show ?thesis
    by (cases f)
      (auto simp: poll_shutdown_def advances_def fair_shutdown_def pendings_def read_pendings_def no_flush_error_def)
qed

lemma advances_mono: "advances bs res s' io' io \<Longrightarrow> pendings io \<le> pendings io0 \<Longrightarrow> advances bs res s' io' io0"
  by (auto simp: advances_def)

lemma transfer_advances:
  assumes "carries bs s io"
  shows "\<exists>res s' io'. transfer_one_direction s io = Some (res, s', io') \<and> advances bs res s' io' io"
proof (cases s)
  case (Running cb)
  with assms have fair: "fair cb io" and bs: "in_flight cb io = bs"
    and amt: "cb_amt cb = of_nat (length (io_delivered io))"
    and moved: "sum_list (io_progress io) = of_nat (length (io_delivered io))" by simp_all
  from fair_copy [OF fair] obtain res cb' io' where p: "poll_copy cb io = Some (res, cb', io')"
    and r: "res = Pending \<and> fair cb' io' \<and> pendings io' < pendings io
       \<or> (\<exists>n. res = Ready (Inr n)) \<and> fair_shutdown io' \<and> pendings io' \<le> pendings io \<and> io_reads io' = []" by blast
  from poll_copy_spec [OF fair_cb_ok [OF fair], of io] p have copied: "copies cb io cb' io'"
    and ended: "\<And>n. res = Ready (Inr n) \<Longrightarrow> n = cb_amt cb' \<and> (True \<in> set (io_finishes io) \<or> cb_pos cb' = cb_cap cb')"
    by auto
  from copied bs amt moved have bs': "in_flight cb' io' = bs"
    and amt': "cb_amt cb' = of_nat (length (io_delivered io'))"
    and moved': "sum_list (io_progress io') = of_nat (length (io_delivered io'))"
    by (auto simp: copies_def)
  show ?thesis
  proof (cases res)
    case Pending
    with r p Running bs' amt' moved' show ?thesis by (auto simp: advances_def)
  next
    case (Ready x)
    with r obtain n where n: "res = Ready (Inr n)" and rest: "fair_shutdown io'" "pendings io' \<le> pendings io"
      "io_reads io' = []" by auto
    with ended fair have "n = cb_amt cb'" and "unwritten cb' = []"
      by (auto simp: fair_def fair_writer_def unwritten_def)
    with bs' amt' moved' rest have "carries bs (ShuttingDown n) io'"
      by (auto simp: in_flight_def input_left_def)
    from shutdown_advances [OF this] p n Running show ?thesis
      by (auto intro: advances_mono [OF _ rest(2)])
  qed
next
  case (ShuttingDown n)
  with assms shutdown_advances show ?thesis by blast
next
  case (Done n)
  with assms show ?thesis by (simp add: advances_def)
qed

subsection \<open>Both directions\<close>

text \<open>Polling the future until it is ready, at most \<open>n\<close> times.\<close>

fun bi_run :: "nat \<Rightarrow> CopyBidirectional \<Rightarrow> Io \<times> Io
    \<Rightarrow> ((io_error + u64 \<times> u64) poll \<times> CopyBidirectional \<times> Io \<times> Io) option" where
  "bi_run 0 bi ios = Some (Pending, bi, ios)"
| "bi_run (Suc n) bi ios =
     (case poll_bidirectional bi ios of
        Some (Pending, bi', ios') \<Rightarrow> bi_run n bi' ios'
      | r \<Rightarrow> r)"

lemma bidirectional_advances:
  assumes "carries bs1 (bi_a_to_b bi) io1" and "carries bs2 (bi_b_to_a bi) io2"
  shows "\<exists>res bi' io1' io2'. poll_bidirectional bi (io1, io2) = Some (res, bi', io1', io2')
    \<and> carries bs1 (bi_a_to_b bi') io1' \<and> carries bs2 (bi_b_to_a bi') io2'
    \<and> (res = Pending \<and> pendings io1' + pendings io2' < pendings io1 + pendings io2
       \<or> res = Ready (Inr (of_nat (length bs1), of_nat (length bs2)))
         \<and> bi' = \<lparr>bi_a_to_b = Done (of_nat (length bs1)), bi_b_to_a = Done (of_nat (length bs2))\<rparr>)"
proof -
  obtain r1 s1 io1' where t1: "transfer_one_direction (bi_a_to_b bi) io1 = Some (r1, s1, io1')"
    and a1: "advances bs1 r1 s1 io1' io1"
    using transfer_advances [OF assms(1)] by blast
  obtain r2 s2 io2' where t2: "transfer_one_direction (bi_b_to_a bi) io2 = Some (r2, s2, io2')"
    and a2: "advances bs2 r2 s2 io2' io2"
    using transfer_advances [OF assms(2)] by blast
  from a1 a2 show ?thesis
    by (auto simp: poll_bidirectional_def t1 t2 advances_def)
qed

lemma bi_run_delivers:
  assumes "carries bs1 (bi_a_to_b bi) io1" and "carries bs2 (bi_b_to_a bi) io2"
    and "pendings io1 + pendings io2 < n"
  shows "\<exists>io1' io2'. bi_run n bi (io1, io2) = Some (Ready (Inr (of_nat (length bs1), of_nat (length bs2))),
      \<lparr>bi_a_to_b = Done (of_nat (length bs1)), bi_b_to_a = Done (of_nat (length bs2))\<rparr>, io1', io2')
    \<and> io_delivered io1' = bs1 \<and> io_delivered io2' = bs2
    \<and> sum_list (io_progress io1') = of_nat (length bs1) \<and> sum_list (io_progress io2') = of_nat (length bs2)"
  using assms
proof (induction n arbitrary: bi io1 io2)
  case (Suc n)
  from bidirectional_advances [OF Suc.prems(1,2)] obtain res bi' io1' io2' where
    p: "poll_bidirectional bi (io1, io2) = Some (res, bi', io1', io2')"
    and c: "carries bs1 (bi_a_to_b bi') io1'" "carries bs2 (bi_b_to_a bi') io2'"
    and "res = Pending \<and> pendings io1' + pendings io2' < pendings io1 + pendings io2
       \<or> res = Ready (Inr (of_nat (length bs1), of_nat (length bs2)))
         \<and> bi' = \<lparr>bi_a_to_b = Done (of_nat (length bs1)), bi_b_to_a = Done (of_nat (length bs2))\<rparr>" by blast
  then show ?case
  proof (elim disjE conjE)
    assume "res = Pending" and "pendings io1' + pendings io2' < pendings io1 + pendings io2"
    with Suc.IH [OF c] Suc.prems(3) p show ?thesis by simp
  qed (use p c in simp)
qed simp

lemma fair_start:
  assumes "0 < bsize" and "fresh_io io" and "fair_io io"
  shows "carries (input_left io) (Running (new_CopyBuffer bsize)) io"
proof -
  have "unwritten (new_CopyBuffer bsize) = []" by (simp add: unwritten_def new_CopyBuffer_def)
  with assms show ?thesis
    by (simp add: fair_def fair_io_def fresh_io_def in_flight_def) (simp add: new_CopyBuffer_def)
qed

lemma connection_delivers:
  assumes "copy_buffer_size st \<noteq> 0" and "fresh_io io1" and "fresh_io io2" and "fair_io io1" and "fair_io io2"
  shows "\<exists>io1' io2'. bi_run (Suc (pendings io1 + pendings io2)) (copy_bidirectional st) (io1, io2)
      = Some (Ready (Inr (of_nat (length (input_left io1)), of_nat (length (input_left io2)))),
          \<lparr>bi_a_to_b = Done (of_nat (length (input_left io1))), bi_b_to_a = Done (of_nat (length (input_left io2)))\<rparr>,
          io1', io2')
    \<and> io_delivered io1' = input_left io1 \<and> io_delivered io2' = input_left io2
    \<and> sum_list (io_progress io1') = of_nat (length (input_left io1))
    \<and> sum_list (io_progress io2') = of_nat (length (input_left io2))"
proof (rule bi_run_delivers)
  have size: "0 < unat (copy_buffer_size st)" using assms(1) by (simp add: unat_gt_0)
  show "carries (input_left io1) (bi_a_to_b (copy_bidirectional st)) io1"
    using fair_start [OF size assms(2,4)] by (simp add: copy_bidirectional_def Let_def)
  show "carries (input_left io2) (bi_b_to_a (copy_bidirectional st)) io2"
    using fair_start [OF size assms(3,5)] by (simp add: copy_bidirectional_def Let_def)
qed simp

text \<open>
  C16: with a buffer that is not empty, a connection between sockets that report no error and go
  on in the end is served: however the streams are cut and however often the sockets answer
  \<open>Pending\<close>, both directions deliver every byte in order and the result is their numbers, after
  at most one poll more than there were such answers.
\<close>

theorem connection_copies_everything:
  assumes "copy_buffer_size st \<noteq> 0" and "fresh_io io1" and "fresh_io io2" and "fair_io io1" and "fair_io io2"
  shows "\<exists>bi' io1' io2'. bi_run (Suc (pendings io1 + pendings io2)) (copy_bidirectional st) (io1, io2)
      = Some (Ready (Inr (of_nat (length (input_left io1)), of_nat (length (input_left io2)))), bi', io1', io2')
    \<and> io_delivered io1' = input_left io1 \<and> io_delivered io2' = input_left io2"
  using connection_delivers [OF assms] by blast

text \<open>Between sockets that never answer \<open>Pending\<close> one poll is enough.\<close>

lemma copy_delivers_everything:
  assumes "0 < bsize" and "fresh_io io" and "fair_io io" and "pendings io = 0"
  shows "\<exists>s io'. transfer_one_direction (Running (new_CopyBuffer bsize)) io
      = Some (Ready (Inr (of_nat (length (input_left io)))), s, io') \<and> io_delivered io' = input_left io"
  using transfer_advances [OF fair_start [OF assms(1-3)]] assms(4) by (auto simp: advances_def)

text \<open>
  Closing the tunnel ends a connection at its next poll, whatever is still buffered or to come:
  nothing more is read or written, both writers are shut down, and the result is what was moved.
\<close>

lemma close_ends_connection:
  assumes "io_finishes io1 = True # fs1" and "io_finishes io2 = True # fs2"
    and "io_shutdowns io1 = FlushDone # ss1" and "io_shutdowns io2 = FlushDone # ss2"
  shows "poll_bidirectional \<lparr>bi_a_to_b = Running cb1, bi_b_to_a = Running cb2\<rparr> (io1, io2)
    = Some (Ready (Inr (cb_amt cb1, cb_amt cb2)),
        \<lparr>bi_a_to_b = Done (cb_amt cb1), bi_b_to_a = Done (cb_amt cb2)\<rparr>,
        io1\<lparr>io_finishes := fs1, io_shutdowns := ss1\<rparr>, io2\<lparr>io_finishes := fs2, io_shutdowns := ss2\<rparr>)"
  using assms finish_signal_ends_copy [OF assms(1), of cb1] finish_signal_ends_copy [OF assms(2), of cb2]
  by (simp add: poll_bidirectional_def poll_shutdown_def)

subsection \<open>Concrete connections\<close>

text \<open>A client that sends seven bytes in two chunks, with pauses, and a remote that answers two.\<close>

definition upstream :: Io where
  "upstream = \<lparr>io_reads = [ReadPending, ReadData [1, 2, 3], ReadPending, ReadData [4, 5, 6, 7], ReadData []],
     io_writes = [WritePending, WriteAccept 2, WriteAccept 1, WritePending] @ replicate 5 (WriteAccept 2),
     io_flushes = [FlushDone, FlushPending, FlushDone, FlushDone], io_shutdowns = [FlushPending, FlushDone],
     io_finishes = [False, False], io_delivered = [], io_progress = []\<rparr>"

definition downstream :: Io where
  "downstream = \<lparr>io_reads = [ReadData [8, 9], ReadPending, ReadData []],
     io_writes = replicate 2 (WriteAccept 9), io_flushes = [FlushDone, FlushDone],
     io_shutdowns = [FlushDone], io_finishes = [], io_delivered = [], io_progress = []\<rparr>"

lemma streams_fresh [simp]: "fresh_io upstream" "fresh_io downstream"
  by (simp_all add: fresh_io_def upstream_def downstream_def)

lemma streams_bytes [simp]: "input_left upstream = [1, 2, 3, 4, 5, 6, 7]" "input_left downstream = [8, 9]"
  by (simp_all add: input_left_def upstream_def downstream_def)

lemma streams_fair [simp]: "fair_io upstream" "fair_io downstream"
proof -
  have "io_reads upstream = [ReadPending, ReadData [1, 2, 3], ReadPending, ReadData [4, 5, 6, 7]] @ [ReadData []]"
    "io_reads downstream = [ReadData [8, 9], ReadPending] @ [ReadData []]"
    by (simp_all add: upstream_def downstream_def)
  then have "fair_reader upstream" "fair_reader downstream"
    unfolding fair_reader_def by (fastforce simp: before_end_def)+
  moreover have "fair_writer (length (input_left upstream)) upstream" "fair_shutdown upstream" by code_simp+
  moreover have "fair_writer (length (input_left downstream)) downstream" "fair_shutdown downstream" by code_simp+
  ultimately show "fair_io upstream" "fair_io downstream" unfolding fair_io_def by blast+
qed

lemma streams_pendings [simp]: "pendings upstream = 6" "pendings downstream = 1"
  by code_simp+

theorem connection_copies_everything_witness:
  "\<exists>bi' io1' io2'. bi_run 8 (copy_bidirectional open_state) (upstream, downstream)
     = Some (Ready (Inr (7, 2)), bi', io1', io2')
   \<and> io_delivered io1' = [1, 2, 3, 4, 5, 6, 7] \<and> io_delivered io2' = [8, 9]"
proof -
  have "copy_buffer_size open_state \<noteq> 0" by code_simp
  from connection_copies_everything [OF this streams_fresh streams_fair] show ?thesis
    by (simp add: eval_nat_numeral)
qed

end
