(* ===== verification/Client.thy ===== *)
theory Client
  imports Delivery
begin

text \<open>
  One served client from its arrival to its end: the session (\<open>process_socket\<close>), the copy
  (\<open>copy_bidirectional\<close>) and the shared state together. All the client leaves in the statistics
  is one more connection and its bytes.
\<close>

subsection \<open>Statistics of a remote and its tunnel\<close>

definition stats_of :: "State \<Rightarrow> SocketSpec \<Rightarrow> SocketSpec \<Rightarrow> (TunnelStats \<times> RemoteStats) option" where
  "stats_of st l r =
     Option.bind (get_tunnel st l) (\<lambda>ti. map_option (\<lambda>ri. (ti_stats ti, ri_stats ri)) (im_get (ti_remotes ti) r))"

text \<open>An operation about remote \<open>r\<close> of tunnel \<open>l\<close>, as what it does to the statistics.\<close>

definition accounts ::
  "SocketSpec \<Rightarrow> SocketSpec \<Rightarrow> (TunnelStats \<Rightarrow> TunnelStats) \<Rightarrow> (RemoteStats \<Rightarrow> RemoteStats) \<Rightarrow> State \<Rightarrow> State \<Rightarrow> bool" where
  "accounts l r f g st st' \<longleftrightarrow>
     (\<forall>l'. l' \<noteq> l \<longrightarrow> get_tunnel st' l' = get_tunnel st l')
     \<and> (\<forall>r'. stats_of st' l r' = map_option (\<lambda>(t, s). (f t, if r' = r then g s else s)) (stats_of st l r'))
     \<and> copy_buffer_size st' = copy_buffer_size st"

lemma accounts_trans:
  "accounts l r f g st st1 \<Longrightarrow> accounts l r f' g' st1 st2 \<Longrightarrow> accounts l r (f' \<circ> f) (g' \<circ> g) st st2"
  by (auto simp: accounts_def option.map_comp comp_def case_prod_beta intro!: option.map_cong)

lemma accounts_refl: "accounts l r id id st st"
proof -
  have "map_option (\<lambda>(t, s). (id t, if r' = r then id s else s)) x = x" for r' and x :: "(TunnelStats \<times> RemoteStats) option"
    by (cases x) auto
  then show ?thesis by (simp add: accounts_def)
qed

lemma accounts_none: "get_tunnel st l = None \<Longrightarrow> accounts l r f g st st"
  by (simp add: accounts_def stats_of_def)

lemma copy_buffer_size_put [simp]: "copy_buffer_size (put_tunnel l res st) = copy_buffer_size st"
  by (simp add: copy_buffer_size_def put_tunnel_def)

lemma accounts_put:
  assumes "get_tunnel st l = Some ti" and "ti_stats (fst res) = f (ti_stats ti)"
    and "\<And>r'. map_option ri_stats (im_get (ti_remotes (fst res)) r')
      = map_option (\<lambda>ri. if r' = r then g (ri_stats ri) else ri_stats ri) (im_get (ti_remotes ti) r')"
  shows "accounts l r f g st (put_tunnel l res st)"
proof -
  have "stats_of (put_tunnel l res st) l r'
      = map_option (\<lambda>(t, s). (f t, if r' = r then g s else s)) (stats_of st l r')" for r'
    using assms(1,2) assms(3) [of r']
    by (cases "im_get (ti_remotes ti) r'") (auto simp: stats_of_def)
  then show ?thesis by (simp add: accounts_def)
qed

lemma accounts_on_remote:
  assumes "get_tunnel st l = Some ti" and "ti_stats (fst res) = f (ti_stats ti)"
    and "ti_remotes (fst res) = ti_remotes ti" and "\<And>ri. ri_stats (fst (h ri)) = g (ri_stats ri)"
  shows "accounts l r f g st (put_tunnel l (on_remote r h res) st)"
  using assms by (intro accounts_put) (auto simp: option.map_comp comp_def split: option.split)

definition joined :: "TunnelStats \<Rightarrow> TunnelStats" where
  "joined t = t\<lparr>ts_total_connections := ts_total_connections t + 1, ts_streams_open := ts_streams_open t + 1\<rparr>"

definition left_tunnel :: "TunnelStats \<Rightarrow> TunnelStats" where
  "left_tunnel t = t\<lparr>ts_streams_open := ts_streams_open t - 1\<rparr>"

definition selected :: "RemoteStats \<Rightarrow> RemoteStats" where
  "selected s = s\<lparr>rs_streams_pending := rs_streams_pending s + 1\<rparr>"

definition connected :: "RemoteStats \<Rightarrow> RemoteStats" where
  "connected s = s\<lparr>rs_streams_open := rs_streams_open s + 1, rs_total_connections := rs_total_connections s + 1,
     rs_streams_pending := rs_streams_pending s - 1, rs_num_errors := 0\<rparr>"

definition left_remote :: "RemoteStats \<Rightarrow> RemoteStats" where
  "left_remote s = s\<lparr>rs_streams_open := rs_streams_open s - 1\<rparr>"

definition moved_tunnel :: "bool \<Rightarrow> u64 \<Rightarrow> TunnelStats \<Rightarrow> TunnelStats" where
  "moved_tunnel sent n t = (if sent then t\<lparr>ts_bytes_sent := ts_bytes_sent t + n\<rparr>
     else t\<lparr>ts_bytes_received := ts_bytes_received t + n\<rparr>)"

definition moved_remote :: "bool \<Rightarrow> u64 \<Rightarrow> RemoteStats \<Rightarrow> RemoteStats" where
  "moved_remote sent n s = (if sent then s\<lparr>rs_bytes_sent := rs_bytes_sent s + n\<rparr>
     else s\<lparr>rs_bytes_received := rs_bytes_received s + n\<rparr>)"

lemmas account_defs = joined_def left_tunnel_def selected_def connected_def left_remote_def
  moved_tunnel_def moved_remote_def

lemma client_accounts:
  "accounts l r joined id st (client_connected l st)"
  "accounts l r id connected st (remote_connected l r st)"
  "accounts l r (moved_tunnel sent n) (moved_remote sent n) st (update_transferred l r sent n st)"
  "accounts l r left_tunnel left_remote st (client_disconnected l (Some r) st)"
proof -
  have "map_option (\<lambda>ri. if r' = r then id (ri_stats ri) else ri_stats ri) x = map_option ri_stats x"
    for r' and x :: "RemoteInfo option" by (cases x) auto
  then show "accounts l r joined id st (client_connected l st)"
    by (cases "get_tunnel st l")
      (auto simp: client_connected_def ti_defs account_defs Let_def simp del: id_apply
        intro: accounts_none intro!: accounts_put)
  show "accounts l r id connected st (remote_connected l r st)"
    by (cases "get_tunnel st l")
      (auto simp: remote_connected_def ri_defs account_defs Let_def intro: accounts_none accounts_on_remote)
  show "accounts l r (moved_tunnel sent n) (moved_remote sent n) st (update_transferred l r sent n st)"
    by (cases "get_tunnel st l")
      (auto simp: update_transferred_def ti_defs ri_defs account_defs Let_def intro: accounts_none intro!: accounts_on_remote)
  show "accounts l r left_tunnel left_remote st (client_disconnected l (Some r) st)"
    by (cases "get_tunnel st l")
      (auto simp: client_disconnected_def ti_defs ri_defs account_defs Let_def intro: accounts_none accounts_on_remote)
qed

lemma select_accounts:
  assumes "select_remote rnd l st = Some (Inr (r, opts), st')"
  shows "accounts l r id selected st st'"
proof (cases "get_tunnel st l")
  case None
  with assms show ?thesis by (simp add: select_remote_def)
next
  case (Some ti)
  with assms show ?thesis
    by (cases rule: ti_select_remote_cases [of ti rnd])
      (auto simp: select_remote_def im_contains_key_def ri_defs account_defs intro!: accounts_on_remote [OF Some])
qed

subsection \<open>A session by itself\<close>

text \<open>The steps of one session, with nothing in between that concerns it.\<close>

fun session_exec :: "session_event list \<Rightarrow> Session \<Rightarrow> State \<Rightarrow> (Session \<times> State) option" where
  "session_exec [] se st = Some (se, st)"
| "session_exec (ev # evs) se st =
     (case session_step ev se st of None \<Rightarrow> None | Some (se', st') \<Rightarrow> session_exec evs se' st')"

lemma session_exec_append:
  "session_exec evs se st = Some (se1, st1)
     \<Longrightarrow> session_exec (evs @ evs') se st = session_exec evs' se1 st1"
  by (induction evs arbitrary: se st) (auto split: option.splits)

text \<open>The bytes a list of events reports for one direction.\<close>

fun moved_by :: "bool \<Rightarrow> session_event \<Rightarrow> u64" where
  "moved_by sent (Moved b n) = (if b = sent then n else 0)"
| "moved_by sent _ = 0"

definition carried_tunnel :: "u64 \<Rightarrow> u64 \<Rightarrow> TunnelStats \<Rightarrow> TunnelStats" where
  "carried_tunnel m n t = t\<lparr>ts_bytes_sent := ts_bytes_sent t + m, ts_bytes_received := ts_bytes_received t + n\<rparr>"

definition carried_remote :: "u64 \<Rightarrow> u64 \<Rightarrow> RemoteStats \<Rightarrow> RemoteStats" where
  "carried_remote m n s = s\<lparr>rs_bytes_sent := rs_bytes_sent s + m, rs_bytes_received := rs_bytes_received s + n\<rparr>"

lemma carried_moved:
  "carried_tunnel 0 0 = id" "carried_remote 0 0 = id"
  "carried_tunnel m n \<circ> moved_tunnel b k = carried_tunnel (moved_by True (Moved b k) + m) (moved_by False (Moved b k) + n)"
  "carried_remote m n \<circ> moved_remote b k = carried_remote (moved_by True (Moved b k) + m) (moved_by False (Moved b k) + n)"
  by (auto simp: fun_eq_iff carried_tunnel_def carried_remote_def account_defs)

lemma session_moves:
  assumes "se_pc se = Copying r" and "list_all is_move evs"
  shows "\<exists>st'. session_exec evs se st = Some (se, st')
    \<and> accounts (se_tunnel se) r (carried_tunnel (sum_list (map (moved_by True) evs)) (sum_list (map (moved_by False) evs)))
        (carried_remote (sum_list (map (moved_by True) evs)) (sum_list (map (moved_by False) evs))) st st'"
  using assms(2)
proof (induction evs arbitrary: st)
  case Nil
  show ?case using accounts_refl by (simp add: carried_moved id_def)
next
  case (Cons ev evs)
  then obtain b k where ev: "ev = Moved b k" by (cases ev) auto
  let ?st = "update_transferred (se_tunnel se) r b k st"
  have step: "session_step ev se st = Some (se, ?st)" using assms(1) by (simp add: ev session_step_def)
  from Cons obtain st' where "session_exec evs se ?st = Some (se, st')"
    and "accounts (se_tunnel se) r (carried_tunnel (sum_list (map (moved_by True) evs)) (sum_list (map (moved_by False) evs)))
        (carried_remote (sum_list (map (moved_by True) evs)) (sum_list (map (moved_by False) evs))) ?st st'"
    by auto
  with accounts_trans [OF client_accounts(3) this(2)] step ev show ?case
    by (simp add: carried_moved del: moved_by.simps)
qed

lemma moved_shuffle:
  "zs \<in> shuffles xs ys \<Longrightarrow> sum_list (map f zs) = sum_list (map f xs) + (sum_list (map f ys) :: u64)"
  by (induction xs ys arbitrary: zs rule: shuffles.induct) auto

lemma progress_moves:
  assumes "ms \<in> shuffles (progress_events True io1) (progress_events False io2)"
  shows "list_all is_move ms"
    and "sum_list (map (moved_by True) ms) = sum_list (io_progress io1)"
    and "sum_list (map (moved_by False) ms) = sum_list (io_progress io2)"
proof -
  have "set ms = set (progress_events True io1) \<union> set (progress_events False io2)"
    by (rule set_shuffles [OF assms])
  then show "list_all is_move ms" by (auto simp: list_all_iff progress_events_def)
  show "sum_list (map (moved_by True) ms) = sum_list (io_progress io1)"
    and "sum_list (map (moved_by False) ms) = sum_list (io_progress io2)"
    by (simp_all add: moved_shuffle [OF assms] progress_events_def comp_def)
qed

subsection \<open>The client\<close>

definition served_tunnel :: "u64 \<Rightarrow> u64 \<Rightarrow> TunnelStats \<Rightarrow> TunnelStats" where
  "served_tunnel m n t = t\<lparr>ts_total_connections := ts_total_connections t + 1,
     ts_bytes_sent := ts_bytes_sent t + m, ts_bytes_received := ts_bytes_received t + n\<rparr>"

definition served_remote :: "u64 \<Rightarrow> u64 \<Rightarrow> RemoteStats \<Rightarrow> RemoteStats" where
  "served_remote m n s = s\<lparr>rs_total_connections := rs_total_connections s + 1, rs_num_errors := 0,
     rs_bytes_sent := rs_bytes_sent s + m, rs_bytes_received := rs_bytes_received s + n\<rparr>"

lemma remote_retries_joined: "remote_retries l (client_connected l st) = remote_retries l st"
  by (auto simp: remote_retries_def client_connected_def ti_defs Let_def split: option.split)

text \<open>Arrival: counted, admitted, a remote selected and connected to.\<close>

lemma client_arrives:
  assumes "select_remote rnd l (client_connected l st) = Some (Inr (r, opts), st1)"
    and "connect_remote_starts r opts" and "remote_retries l st = Inr n" and "n \<noteq> 0"
  shows "\<exists>se. session_exec [Proceed, Proceed, Draw rnd, ConnectOk] (new_session l c ch) st
        = Some (se, remote_connected l r st1)
      \<and> se_pc se = Copying r \<and> se_tunnel se = l \<and> se_last_remote se = Some r"
    and "accounts l r joined (connected \<circ> selected) st (remote_connected l r st1)"
proof -
  show "\<exists>se. session_exec [Proceed, Proceed, Draw rnd, ConnectOk] (new_session l c ch) st
        = Some (se, remote_connected l r st1)
      \<and> se_pc se = Copying r \<and> se_tunnel se = l \<and> se_last_remote se = Some r"
    using assms by (simp add: session_step_def new_session_def remote_retries_joined)
  from accounts_trans [OF accounts_trans [OF client_accounts(1) select_accounts [OF assms(1)]] client_accounts(2)]
  show "accounts l r joined (connected \<circ> selected) st (remote_connected l r st1)" by (simp add: comp_def)
qed

text \<open>The copy and the end.\<close>

lemma client_leaves:
  assumes "se_pc se = Copying r" and "se_tunnel se = l" and "se_last_remote se = Some r"
    and "ms \<in> shuffles (progress_events True io1) (progress_events False io2)"
    and "sum_list (io_progress io1) = m" and "sum_list (io_progress io2) = n"
  shows "\<exists>se' st'. session_exec (ms @ [CopyEnd, Proceed]) se st = Some (se', st') \<and> se_pc se' = Ended
    \<and> accounts l r (left_tunnel \<circ> carried_tunnel m n) (left_remote \<circ> carried_remote m n) st st'"
proof -
  from session_moves [OF assms(1) progress_moves(1) [OF assms(4)], of st] obtain st1
    where "session_exec ms se st = Some (se, st1)"
      and "accounts l r (carried_tunnel m n) (carried_remote m n) st st1"
    using assms(2,5,6) progress_moves(2,3) [OF assms(4)] by auto
  with accounts_trans [OF this(2) client_accounts(4)] assms(1-3) show ?thesis
    by (simp add: session_exec_append session_step_def)
qed

lemma served_stats:
  "left_tunnel \<circ> carried_tunnel m n \<circ> joined = served_tunnel m n"
  "left_remote \<circ> carried_remote m n \<circ> (connected \<circ> selected) = served_remote m n"
  by (auto simp: fun_eq_iff account_defs carried_tunnel_def carried_remote_def served_tunnel_def served_remote_def)

text \<open>
  C2: with a copy buffer that is not empty, a client whose first attempt succeeds, whose sockets report
  no error and go on in the end and whose tunnel is not closed or changed meanwhile, is served: every byte it sent is delivered to the
  remote and every byte of the remote to it, whatever the order in which the two directions
  progress; and all it leaves in the statistics is one more connection for the tunnel and the
  remote, these bytes, and no recent errors of the remote. Its open and pending streams are gone,
  and no other tunnel or remote has changed.
\<close>

theorem client_is_served:
  assumes "select_remote rnd l (client_connected l st) = Some (Inr (r, opts), st1)"
    and "connect_remote_starts r opts" and "remote_retries l st = Inr k" and "k \<noteq> 0"
    and "copy_buffer_size st \<noteq> 0" and "fresh_io io1" and "fresh_io io2" and "fair_io io1" and "fair_io io2"
  shows "\<exists>se st2 bi' io1' io2'.
      session_exec [Proceed, Proceed, Draw rnd, ConnectOk] (new_session l c ch) st = Some (se, st2)
    \<and> bi_run (Suc (pendings io1 + pendings io2)) (copy_bidirectional st2) (io1, io2)
        = Some (Ready (Inr (of_nat (length (input_left io1)), of_nat (length (input_left io2)))), bi', io1', io2')
    \<and> io_delivered io1' = input_left io1 \<and> io_delivered io2' = input_left io2
    \<and> (\<forall>ms \<in> shuffles (progress_events True io1') (progress_events False io2').
        \<exists>se' st3. session_exec (ms @ [CopyEnd, Proceed]) se st2 = Some (se', st3) \<and> se_pc se' = Ended
          \<and> accounts l r (served_tunnel (of_nat (length (input_left io1))) (of_nat (length (input_left io2))))
              (served_remote (of_nat (length (input_left io1))) (of_nat (length (input_left io2)))) st st3)"
proof -
  obtain se where se: "session_exec [Proceed, Proceed, Draw rnd, ConnectOk] (new_session l c ch) st
      = Some (se, remote_connected l r st1)"
    and pc: "se_pc se = Copying r" "se_tunnel se = l" "se_last_remote se = Some r"
    using client_arrives(1) [OF assms(1-4)] by blast
  note arrived = client_arrives(2) [OF assms(1-4)]
  then have size: "copy_buffer_size (remote_connected l r st1) \<noteq> 0" using assms(5) by (simp add: accounts_def)
  obtain io1' io2' where run: "bi_run (Suc (pendings io1 + pendings io2)) (copy_bidirectional (remote_connected l r st1)) (io1, io2)
      = Some (Ready (Inr (of_nat (length (input_left io1)), of_nat (length (input_left io2)))),
          \<lparr>bi_a_to_b = Done (of_nat (length (input_left io1))), bi_b_to_a = Done (of_nat (length (input_left io2)))\<rparr>,
          io1', io2')"
    and del: "io_delivered io1' = input_left io1" "io_delivered io2' = input_left io2"
    and moved: "sum_list (io_progress io1') = of_nat (length (input_left io1))"
      "sum_list (io_progress io2') = of_nat (length (input_left io2))"
    using connection_delivers [OF size assms(6-9)] by blast
  have "\<exists>se' st3. session_exec (ms @ [CopyEnd, Proceed]) se (remote_connected l r st1) = Some (se', st3)
      \<and> se_pc se' = Ended
      \<and> accounts l r (served_tunnel (of_nat (length (input_left io1))) (of_nat (length (input_left io2))))
          (served_remote (of_nat (length (input_left io1))) (of_nat (length (input_left io2)))) st st3"
    if "ms \<in> shuffles (progress_events True io1') (progress_events False io2')" for ms
    using client_leaves [OF pc that moved, of "remote_connected l r st1"] accounts_trans [OF arrived] served_stats
    by metis
  with se run del show ?thesis by blast
qed

text \<open>The client of \<open>upstream\<close> and \<open>downstream\<close> at the example tunnel.\<close>

theorem client_is_served_witness:
  "\<exists>se st2 bi' io1' io2'.
      session_exec [Proceed, Proceed, Draw 0, ConnectOk] (new_session here ''client:9'' 7) open_state = Some (se, st2)
    \<and> bi_run 8 (copy_bidirectional st2) (upstream, downstream) = Some (Ready (Inr (7, 2)), bi', io1', io2')
    \<and> io_delivered io1' = [1, 2, 3, 4, 5, 6, 7] \<and> io_delivered io2' = [8, 9]"
proof -
  have "map_option (\<lambda>(res, st). case res of Inl e \<Rightarrow> False | Inr (r, opts) \<Rightarrow> connect_remote_starts r opts)
      (select_remote 0 here (client_connected here open_state)) = Some True"
    by code_simp
  then obtain r opts st1 where sel: "select_remote 0 here (client_connected here open_state) = Some (Inr (r, opts), st1)"
    and starts: "connect_remote_starts r opts"
    by (cases "select_remote 0 here (client_connected here open_state)") (auto split: sum.split_asm)
  have retries: "remote_retries here open_state = Inr 3" by code_simp
  have size: "copy_buffer_size open_state \<noteq> 0" by code_simp
  have "(3::u16) \<noteq> 0" by simp
  from client_is_served [OF sel starts retries this size streams_fresh streams_fair, of "''client:9''" 7]
  show ?thesis by (simp add: eval_nat_numeral) blast
qed

end
