(* ===== verification/Responder.thy ===== *)
theory Responder
  imports Parser
begin

text \<open>
  The responder used for load tests (\<open>src/examples/responder.rs\<close>, module \<open>simple_http\<close> included):
  it answers each line with an echo, or each HTTP request with its address. The line codec, the
  HTTP parser and types, the TLS acceptor and the text of a date are parameters; bytes are
  characters.
\<close>

subsection \<open>Lines\<close>

definition echo_response :: "SocketSpec \<Rightarrow> string + string \<Rightarrow> string" where
  "echo_response my_addr req =
     (case req of
        Inr msg \<Rightarrow> ''['' @ spec_to_string my_addr @ ''] ECHO: '' @ msg
      | Inl e \<Rightarrow> ''['' @ spec_to_string my_addr @ ''] ERROR: '' @ e)"

text \<open>Forwarding a stream of responses to a sink ends with the first error of the sink.\<close>

fun forward :: "(string \<Rightarrow> 's \<Rightarrow> string + 's) \<Rightarrow> string list \<Rightarrow> 's \<Rightarrow> (string + unit) \<times> 's" where
  "forward send [] sink = (Inr (), sink)"
| "forward send (r # rs) sink =
     (case send r sink of Inl e \<Rightarrow> (Inl e, sink) | Inr sink' \<Rightarrow> forward send rs sink')"

definition respond_lines ::
  "(string \<Rightarrow> 's \<Rightarrow> string + 's) \<Rightarrow> SocketSpec \<Rightarrow> (string + string) list \<Rightarrow> 's \<Rightarrow> (string + unit) \<times> 's" where
  "respond_lines send my_addr reqs sink = forward send (map (echo_response my_addr) reqs) sink"

subsection \<open>HTTP responses\<close>

record HttpReply =
  rp_status :: string
  rp_headers :: "(string \<times> string) list"
  rp_body :: string

definition CRLF :: string where
  "CRLF = [CHR 13, CHR 10]"

definition http_reply :: "SocketSpec \<Rightarrow> HttpReply" where
  "http_reply my_addr =
     \<lparr>rp_status = ''200 OK'', rp_headers = [(''content-type'', ''text/plain'')],
      rp_body = ''From '' @ spec_to_string my_addr\<rparr>"

definition encode_reply :: "string \<Rightarrow> HttpReply \<Rightarrow> string \<Rightarrow> string" where
  "encode_reply date item dst =
     dst @ ''HTTP/1.1 '' @ rp_status item @ CRLF
     @ ''Server: Example'' @ CRLF
     @ ''Content-Length: '' @ show_nat (length (rp_body item)) @ CRLF
     @ ''Date: '' @ date @ CRLF
     @ concat (map (\<lambda>(k, v). k @ '': '' @ v @ CRLF) (rp_headers item))
     @ CRLF @ rp_body item"

text \<open>
  The loop over the requests: a response to each, until the first that cannot be read; errors
  of sending are reported and the loop goes on.
\<close>

fun respond_http :: "SocketSpec \<Rightarrow> (string + 'req) list \<Rightarrow> HttpReply list" where
  "respond_http my_addr [] = []"
| "respond_http my_addr (Inr _ # reqs) = http_reply my_addr # respond_http my_addr reqs"
| "respond_http my_addr (Inl e # reqs) = []"

subsection \<open>HTTP requests\<close>

text \<open>
  What the HTTP parser returns for a complete request: its length, and where in the buffer its
  parts are (start and length).
\<close>

type_synonym slice = "nat \<times> nat"

record parsed_request =
  pq_amt :: nat
  pq_method :: string
  pq_path :: slice
  pq_version :: nat
  pq_headers :: "(slice \<times> slice) list"

record 'req http_lib =
  hl_parse :: "string \<Rightarrow> string + parsed_request option"
  hl_method :: "string \<Rightarrow> string + string"
  hl_header_value :: "string \<Rightarrow> string + string"
  hl_request :: "string \<Rightarrow> string \<Rightarrow> (string \<times> string) list \<Rightarrow> string + 'req"

text \<open>\<open>None\<close> is a panic: of the assertion, or of a slice out of range.\<close>

definition toslice :: "string \<Rightarrow> slice \<Rightarrow> slice option" where
  "toslice src a = (if fst a < length src then Some (fst a, fst a + snd a) else None)"

fun toslices :: "string \<Rightarrow> (slice \<times> slice) list \<Rightarrow> (slice \<times> slice) list option" where
  "toslices src [] = Some []"
| "toslices src ((k, v) # hs) =
     (case (toslice src k, toslice src v, toslices src hs) of
        (Some k', Some v', Some hs') \<Rightarrow> Some ((k', v') # hs')
      | _ \<Rightarrow> None)"

definition slice_of :: "string \<Rightarrow> slice \<Rightarrow> string option" where
  "slice_of data r =
     (if fst r \<le> snd r \<and> snd r \<le> length data then Some (take (snd r - fst r) (drop (fst r) data)) else None)"

fun header_values ::
  "'req http_lib \<Rightarrow> string \<Rightarrow> (slice \<times> slice) list \<Rightarrow> (string + (string \<times> string) list) option" where
  "header_values H data [] = Some (Inr [])"
| "header_values H data ((k, v) # hs) =
     (case slice_of data v of
        None \<Rightarrow> None
      | Some vt \<Rightarrow>
          (case hl_header_value H vt of
             Inl _ \<Rightarrow> Some (Inl ''header decode error'')
           | Inr value \<Rightarrow>
               (case slice_of data k of
                  None \<Rightarrow> None
                | Some kt \<Rightarrow>
                    (case header_values H data hs of
                       Some (Inr hs') \<Rightarrow> Some (Inr ((kt, value) # hs'))
                     | res \<Rightarrow> res))))"

text \<open>One call of the decoder: its result (a panic, an error, nothing yet, a request) and the buffer.\<close>

definition decode_request ::
  "'req http_lib \<Rightarrow> string \<Rightarrow> (string + 'req option) option \<times> string" where
  "decode_request H src =
     (case hl_parse H src of
        Inl e \<Rightarrow> (Some (Inl (''failed to parse http request: '' @ e)), src)
      | Inr None \<Rightarrow> (Some (Inr None), src)
      | Inr (Some r) \<Rightarrow>
          (case toslices src (pq_headers r) of
             None \<Rightarrow> (None, src)
           | Some headers \<Rightarrow>
               (case hl_method H (pq_method r) of
                  Inl e \<Rightarrow> (Some (Inl e), src)
                | Inr m \<Rightarrow>
                    (case toslice src (pq_path r) of
                       None \<Rightarrow> (None, src)
                     | Some path \<Rightarrow>
                         if pq_version r \<noteq> 1 then (Some (Inl ''only HTTP/1.1 accepted''), src)
                         else if length src < pq_amt r then (None, src)
                         else let data = take (pq_amt r) src; src' = drop (pq_amt r) src
                              in (case slice_of data path of
                                    None \<Rightarrow> (None, src')
                                  | Some uri \<Rightarrow>
                                      (case header_values H data headers of
                                         None \<Rightarrow> (None, src')
                                       | Some (Inl e) \<Rightarrow> (Some (Inl e), src')
                                       | Some (Inr hs) \<Rightarrow>
                                           (case hl_request H m uri hs of
                                              Inl e \<Rightarrow> (Some (Inl e), src')
                                            | Inr req \<Rightarrow> (Some (Inr (Some req)), src'))))))))"

subsection \<open>The date\<close>

text \<open>
  A date is rendered once per second into a buffer of 128 bytes. The formatter writes it in
  pieces; one that does not fit is a panic.
\<close>

record LastRenderedNow =
  ln_bytes :: string
  ln_amt :: nat
  ln_unix_date :: nat

definition no_date :: LastRenderedNow where
  "no_date = \<lparr>ln_bytes = replicate 128 (CHR 0x00), ln_amt = 0, ln_unix_date = 0\<rparr>"

definition ln_buffer :: "LastRenderedNow \<Rightarrow> string" where
  "ln_buffer c = take (ln_amt c) (ln_bytes c)"

definition ln_write_str :: "string \<Rightarrow> LastRenderedNow \<Rightarrow> LastRenderedNow option" where
  "ln_write_str s c =
     (let start = ln_amt c; finish = start + length s
      in if finish \<le> length (ln_bytes c)
         then Some (c\<lparr>ln_bytes := take start (ln_bytes c) @ s @ drop finish (ln_bytes c),
                      ln_amt := ln_amt c + length s\<rparr>)
         else None)"

fun ln_write :: "string list \<Rightarrow> LastRenderedNow \<Rightarrow> LastRenderedNow option" where
  "ln_write [] c = Some c"
| "ln_write (s # ss) c = (case ln_write_str s c of None \<Rightarrow> None | Some c' \<Rightarrow> ln_write ss c')"

definition ln_update :: "(nat \<Rightarrow> string list) \<Rightarrow> nat \<Rightarrow> LastRenderedNow \<Rightarrow> LastRenderedNow option" where
  "ln_update http_date now_unix c =
     ln_write (http_date now_unix) (c\<lparr>ln_amt := 0, ln_unix_date := now_unix\<rparr>)"

text \<open>
  Displaying the time: the text and the cache. The date of a time depends on its second only; a
  time before the epoch is taken for the epoch.
\<close>

definition show_now :: "(nat \<Rightarrow> string list) \<Rightarrow> int \<Rightarrow> LastRenderedNow \<Rightarrow> (string \<times> LastRenderedNow) option" where
  "show_now http_date now c =
     (let now_unix = nat (now div 1000000000)
      in if ln_unix_date c \<noteq> now_unix
         then map_option (\<lambda>c'. (ln_buffer c', c')) (ln_update http_date now_unix c)
         else Some (ln_buffer c, c))"

subsection \<open>Connections\<close>

text \<open>How a connection is served, after the outcome of the TLS handshake if there is an acceptor.\<close>

datatype served = HttpOverTls | HttpPlain | EchoPlain | HandshakeFailed string | TodoPanic

definition serve_connection :: "bool \<Rightarrow> (string + unit) option \<Rightarrow> served" where
  "serve_connection http tls =
     (case tls of
        Some (Inl e) \<Rightarrow> HandshakeFailed e
      | Some (Inr _) \<Rightarrow> if http then HttpOverTls else TodoPanic
      | None \<Rightarrow> if http then HttpPlain else EchoPlain)"

text \<open>
  The program: for every address an acceptor, if there are a key and a certificate, and a task
  that listens on it. The files, the PEM format and the TLS library are the parameter \<open>P\<close>. The
  first error, or a key file in which no key is found (\<open>None\<close>), ends the program; the listeners
  started before go down with it.
\<close>

record ResponderArgs =
  ra_addr :: "SocketSpec list"
  ra_http :: bool
  ra_tls_key :: "string option"
  ra_tls_cert :: "string option"

record 'acceptor pem_lib =
  pl_open :: "string \<Rightarrow> string + string"
  pl_certs :: "string \<Rightarrow> string + string list"
  pl_pkcs8_private_keys :: "string \<Rightarrow> string + string list"
  pl_acceptor :: "string list \<Rightarrow> string \<Rightarrow> string + 'acceptor"

definition load_certs :: "'acceptor pem_lib \<Rightarrow> string \<Rightarrow> string + string list" where
  "load_certs P path =
     (case pl_open P path of
        Inl e \<Rightarrow> Inl e
      | Inr file \<Rightarrow> (case pl_certs P file of Inl _ \<Rightarrow> Inl ''invalid cert'' | Inr certs \<Rightarrow> Inr certs))"

definition load_keys :: "'acceptor pem_lib \<Rightarrow> string \<Rightarrow> string + string list" where
  "load_keys P path =
     (case pl_open P path of
        Inl e \<Rightarrow> Inl e
      | Inr file \<Rightarrow>
          (case pl_pkcs8_private_keys P file of Inl _ \<Rightarrow> Inl ''invalid key'' | Inr keys \<Rightarrow> Inr keys))"

definition tls_acceptor ::
  "'acceptor pem_lib \<Rightarrow> ResponderArgs \<Rightarrow> (string + 'acceptor option) option" where
  "tls_acceptor P a =
     (case (ra_tls_key a, ra_tls_cert a) of
        (Some key_path, Some cert_path) \<Rightarrow>
          (case load_certs P cert_path of
             Inl e \<Rightarrow> Some (Inl e)
           | Inr certs \<Rightarrow>
               (case load_keys P key_path of
                  Inl e \<Rightarrow> Some (Inl e)
                | Inr [] \<Rightarrow> None
                | Inr (key # _) \<Rightarrow>
                    (case pl_acceptor P certs key of
                       Inl e \<Rightarrow> Some (Inl e)
                     | Inr acceptor \<Rightarrow> Some (Inr (Some acceptor)))))
      | _ \<Rightarrow> Some (Inr None))"

text \<open>The outcome of the loop over the addresses, and the listeners that were started.\<close>

datatype responder_end = Waiting | MainError string | MainPanic

fun start_listeners ::
  "'acceptor pem_lib \<Rightarrow> ResponderArgs \<Rightarrow> SocketSpec list
     \<Rightarrow> (SocketSpec \<times> 'acceptor option) list \<times> responder_end" where
  "start_listeners P a [] = ([], Waiting)"
| "start_listeners P a (addr # addrs) =
     (case tls_acceptor P a of
        None \<Rightarrow> ([], MainPanic)
      | Some (Inl e) \<Rightarrow> ([], MainError e)
      | Some (Inr acceptor) \<Rightarrow>
          (case start_listeners P a addrs of
             (started, ended) \<Rightarrow> ((addr, acceptor) # started, ended)))"

definition responder_main ::
  "'acceptor pem_lib \<Rightarrow> ResponderArgs \<Rightarrow> (SocketSpec \<times> 'acceptor option) list \<times> responder_end" where
  "responder_main P a = start_listeners P a (ra_addr a)"

text \<open>
  A listener: \<open>None\<close> if its address is no address (a panic), the error of binding, or what is
  served until \<open>accept\<close> first fails, each connection after the outcome of its handshake.
\<close>

fun accept_while :: "(string + 'socket) list \<Rightarrow> 'socket list" where
  "accept_while (Inr socket # outcomes) = socket # accept_while outcomes"
| "accept_while _ = []"

definition run_listener ::
  "bool \<Rightarrow> ('acceptor \<Rightarrow> 'socket \<Rightarrow> string + unit) \<Rightarrow> SocketSpec \<Rightarrow> 'acceptor option
     \<Rightarrow> string + unit \<Rightarrow> (string + 'socket) list \<Rightarrow> (string + served list) option" where
  "run_listener http handshake addr acceptor bound outcomes =
     (if as_tuple addr = None then None
      else case bound of
             Inl e \<Rightarrow> Some (Inl e)
           | Inr _ \<Rightarrow>
               Some (Inr (map (\<lambda>socket. serve_connection http
                  (map_option (\<lambda>acc. handshake acc socket) acceptor)) (accept_while outcomes))))"

end
