(* ===== verification/Responder_Spec.thy ===== *)
theory Responder_Spec
  imports Responder
begin

text \<open>
  What the responder promises: an answer to each line in order, responses whose announced length
  is that of their body, requests that are consumed exactly or not at all, and dates that are the
  same with the cache as without it.
\<close>

subsection \<open>Answers\<close>

lemma respond_lines_all:
  "(\<And>r sink. send r sink = Inr (sink @ [r])) \<Longrightarrow>
     respond_lines send my_addr reqs sink = (Inr (), sink @ map (echo_response my_addr) reqs)"
  unfolding respond_lines_def by (induction reqs arbitrary: sink) simp_all

lemma respond_http_one_each:
  "respond_http my_addr reqs = replicate (length (takeWhile (\<lambda>r. \<not> isl r) reqs)) (http_reply my_addr)"
  by (induction my_addr reqs rule: respond_http.induct) auto

text \<open>
  A reader of HTTP: the lines up to the first empty one, at most \<open>n\<close>, and what follows it.
\<close>

fun crlf_line :: "string \<Rightarrow> (string \<times> string) option" where
  "crlf_line [] = None"
| "crlf_line [c] = None"
| "crlf_line (c # d # cs) =
     (if c = CHR 13 \<and> d = CHR 10 then Some ([], cs) else map_option (apfst (Cons c)) (crlf_line (d # cs)))"

fun read_head :: "nat \<Rightarrow> string \<Rightarrow> (string list \<times> string) option" where
  "read_head 0 s = None"
| "read_head (Suc n) s =
     (case crlf_line s of
        None \<Rightarrow> None
      | Some (l, r) \<Rightarrow> if l = [] then Some ([], r) else map_option (apfst (Cons l)) (read_head n r))"

lemma crlf_line_append: "CHR 13 \<notin> set a \<Longrightarrow> crlf_line (a @ CRLF @ r) = Some (a, r)"
proof (induction a)
  case (Cons c a)
  then have "crlf_line (a @ CRLF @ r) = Some (a, r)" and c: "c \<noteq> CHR 13" by auto
  moreover obtain d s where "a @ CRLF @ r = d # s" by (cases "a @ CRLF @ r") (auto simp: CRLF_def)
  ultimately show ?case by simp
qed (simp add: CRLF_def)

lemma read_head_lines:
  "list_all (\<lambda>l. l \<noteq> [] \<and> CHR 13 \<notin> set l) ls \<Longrightarrow> length ls < n
     \<Longrightarrow> read_head n (concat (map (\<lambda>l. l @ CRLF) ls) @ CRLF @ body) = Some (ls, body)"
proof (induction ls arbitrary: n)
  case Nil
  then obtain m where "n = Suc m" by (cases n) auto
  with crlf_line_append [of "[]" body] show ?case by simp
next
  case (Cons l ls)
  then obtain m where n: "n = Suc m" by (cases n) auto
  have "crlf_line ((l @ CRLF @ concat (map (\<lambda>l. l @ CRLF) ls)) @ CRLF @ body)
      = Some (l, concat (map (\<lambda>l. l @ CRLF) ls) @ CRLF @ body)"
    using crlf_line_append [of l] Cons.prems by simp
  with Cons n show ?case by simp
qed

definition head_lines :: "string \<Rightarrow> HttpReply \<Rightarrow> string list" where
  "head_lines date item =
     [''HTTP/1.1 '' @ rp_status item, ''Server: Example'',
      ''Content-Length: '' @ show_nat (length (rp_body item)), ''Date: '' @ date]
     @ map (\<lambda>(k, v). k @ '': '' @ v) (rp_headers item)"

lemma encode_reply_lines:
  "encode_reply date item dst
     = dst @ concat (map (\<lambda>l. l @ CRLF) (head_lines date item)) @ CRLF @ rp_body item"
  by (simp add: encode_reply_def head_lines_def comp_def split_def)

lemma show_nat_no_return: "CHR 13 \<notin> set (show_nat n)"
  using show_int_digits [of "int n"] by (auto simp: show_nat_def list_all_iff is_digit_def)

text \<open>
  A reader of what was sent gets the head of the response, whose announced length is that of the
  body, and the body, with what was sent after it still to be read.
\<close>

lemma reply_is_read:
  assumes "CHR 13 \<notin> set (rp_status item)" and "CHR 13 \<notin> set date"
    and "\<forall>(k, v) \<in> set (rp_headers item). CHR 13 \<notin> set k \<and> CHR 13 \<notin> set v"
    and "length (rp_headers item) + 4 < n"
  shows "read_head n (encode_reply date item [] @ rest) = Some (head_lines date item, rp_body item @ rest)"
    and "''Content-Length: '' @ show_nat (length (rp_body item)) \<in> set (head_lines date item)"
proof -
  have "list_all (\<lambda>l. l \<noteq> [] \<and> CHR 13 \<notin> set l) (head_lines date item)"
    using assms(1-3) show_nat_no_return by (auto simp: head_lines_def list_all_iff)
  moreover have "length (head_lines date item) < n" using assms(4) by (simp add: head_lines_def)
  ultimately show "read_head n (encode_reply date item [] @ rest)
      = Some (head_lines date item, rp_body item @ rest)"
    using read_head_lines [of "head_lines date item" n "rp_body item @ rest"]
    by (simp only: encode_reply_lines append_assoc append.left_neutral)
qed (simp add: head_lines_def)

subsection \<open>Requests\<close>

lemma decode_request_consumes:
  assumes "decode_request H src = (Some res, src')"
  shows "src' = src \<or> (\<exists>r. hl_parse H src = Inr (Some r) \<and> pq_version r = 1
      \<and> src = take (pq_amt r) src @ src' \<and> length src = pq_amt r + length src')"
    and "res = Inr None \<longleftrightarrow> hl_parse H src = Inr None"
  using assms
  by (auto simp: decode_request_def Let_def split: sum.splits option.splits if_splits)

subsection \<open>Dates\<close>

lemma ln_write_str_buffer:
  assumes "ln_amt c \<le> length (ln_bytes c)" and "ln_write_str s c = Some c'"
  shows "ln_buffer c' = ln_buffer c @ s" and "length (ln_bytes c') = length (ln_bytes c)"
    and "ln_unix_date c' = ln_unix_date c" and "ln_amt c' = ln_amt c + length s"
    and "ln_amt c' \<le> length (ln_bytes c')"
  using assms by (auto simp: ln_write_str_def ln_buffer_def Let_def split: if_splits)

lemma ln_write_buffer:
  assumes "ln_amt c + length (concat ss) \<le> length (ln_bytes c)"
  shows "\<exists>c'. ln_write ss c = Some c' \<and> ln_buffer c' = ln_buffer c @ concat ss
    \<and> length (ln_bytes c') = length (ln_bytes c) \<and> ln_unix_date c' = ln_unix_date c
    \<and> ln_amt c' = ln_amt c + length (concat ss)"
  using assms
proof (induction ss arbitrary: c)
  case (Cons s ss)
  then obtain c1 where c1: "ln_write_str s c = Some c1" by (auto simp: ln_write_str_def Let_def)
  have "ln_amt c \<le> length (ln_bytes c)" using Cons.prems by simp
  note step = ln_write_str_buffer [OF this c1]
  from Cons.IH [of c1] Cons.prems step c1 show ?case by auto
qed simp

text \<open>The cache holds the date of its second, unless nothing has been rendered yet.\<close>

definition cache_ok :: "(nat \<Rightarrow> string list) \<Rightarrow> LastRenderedNow \<Rightarrow> bool" where
  "cache_ok http_date c \<longleftrightarrow>
     length (ln_bytes c) = 128
     \<and> (ln_unix_date c \<noteq> 0 \<longrightarrow> ln_buffer c = concat (http_date (ln_unix_date c)))"

lemma cache_ok_no_date: "cache_ok http_date no_date"
  by (simp add: cache_ok_def no_date_def)

text \<open>
  The cached rendering is the direct one: after any number of displays at any times, a display
  shows the date of the current second, for every second but the first of the epoch, and never
  overruns the buffer.
\<close>

lemma show_now_correct:
  assumes "cache_ok http_date c" and "\<And>s. length (concat (http_date s)) \<le> 128"
    and "nat (now div 1000000000) \<noteq> 0"
  shows "\<exists>c'. show_now http_date now c = Some (concat (http_date (nat (now div 1000000000))), c')
    \<and> cache_ok http_date c'"
proof (cases "ln_unix_date c = nat (now div 1000000000)")
  case True
  with assms show ?thesis by (simp add: show_now_def cache_ok_def)
next
  case False
  let ?u = "nat (now div 1000000000)"
  from ln_write_buffer [of "c\<lparr>ln_amt := 0, ln_unix_date := ?u\<rparr>" "http_date ?u"] assms
  obtain c' where "ln_update http_date ?u c = Some c'" and "ln_buffer c' = concat (http_date ?u)"
    and "length (ln_bytes c') = 128" and "ln_unix_date c' = ?u"
    by (auto simp: ln_update_def cache_ok_def ln_buffer_def)
  with False show ?thesis by (simp add: show_now_def cache_ok_def)
qed

subsection \<open>The program\<close>

text \<open>With the same files for all addresses, either every address gets a listener or none.\<close>

lemma responder_all_or_nothing:
  "responder_main P a =
     (case tls_acceptor P a of
        Some (Inr acceptor) \<Rightarrow> (map (\<lambda>addr. (addr, acceptor)) (ra_addr a), Waiting)
      | Some (Inl e) \<Rightarrow> ([], if ra_addr a = [] then Waiting else MainError e)
      | None \<Rightarrow> ([], if ra_addr a = [] then Waiting else MainPanic))"
proof -
  have "start_listeners P a addrs = (map (\<lambda>addr. (addr, acceptor)) addrs, Waiting)"
    if "tls_acceptor P a = Some (Inr acceptor)" for acceptor addrs
    using that by (induction addrs) simp_all
  then show ?thesis
    by (cases "ra_addr a") (auto simp: responder_main_def split: option.split sum.split)
qed

text \<open>
  A key file that can be read but holds no PKCS8 key, such as one with a key in the traditional
  RSA format, is not reported: the first key is taken without a check, which panics.
\<close>

lemma responder_without_key_panics:
  assumes "ra_tls_key a = Some k" and "ra_tls_cert a = Some c" and "ra_addr a \<noteq> []"
    and "load_certs P c = Inr certs" and "load_keys P k = Inr []"
  shows "responder_main P a = ([], MainPanic)"
  using assms by (simp add: responder_all_or_nothing tls_acceptor_def)

text \<open>With TLS but without HTTP every connection whose handshake succeeds ends in a panic.\<close>

lemma responder_echo_over_tls_panics:
  assumes "as_tuple addr \<noteq> None"
  shows "run_listener False (\<lambda>_ _. Inr ()) addr (Some acc) (Inr ()) (map Inr sockets)
    = Some (Inr (map (\<lambda>_. TodoPanic) sockets))"
proof -
  have "accept_while (map Inr sockets) = sockets" by (induction sockets) simp_all
  with assms show ?thesis by (simp add: run_listener_def serve_connection_def)
qed

end
