(* ===== verification/Churn.thy ===== *)
theory Churn
  imports Counters
begin

text \<open>
  The counting properties at work in concrete runs of the whole system, and what their conditions
  exclude, for any state: a remote found dead under a pending connection, a tunnel closed and
  opened again under its connections, a timeout that is no duration.
\<close>

definition lonely_tunnel :: "f32 \<Rightarrow> Tunnel" where
  "lonely_tunnel timeout = \<lparr>tun_local = here, tun_remote = [near],
     tun_options = Some \<lparr>to_lb_strategy = RoundRobin, to_remote_connect_retries = 3,
       to_options = strict_options\<lparr>ro_connect_timeout := timeout\<rparr>\<rparr>\<rparr>"

definition tunnel_opens :: "f32 \<Rightarrow> sys_event list" where
  "tunnel_opens timeout = [StartTunnel (lonely_tunnel timeout), Bound 0 (Inr ())]"

text \<open>The steps of connection \<open>i\<close> up to its first attempt, and from the end of the copy.\<close>

definition arrives :: "nat \<Rightarrow> sys_event list" where
  "arrives i = [Accepted 0 ''client:9'', SessionStep i Proceed, SessionStep i Proceed,
     SessionStep i (Draw 0)]"

definition departs :: "nat \<Rightarrow> sys_event list" where
  "departs i = [SessionStep i CopyEnd, SessionStep i Proceed]"

text \<open>What the administrator sees of the tunnel and of its remote.\<close>

definition seen :: "Sys \<Rightarrow> u64 option \<times> (u64 \<times> u64) option" where
  "seen s = (tunnel_open (sys_state s) here, live_counts (sys_state s) here near)"

definition all_over :: "Sys \<Rightarrow> bool" where
  "all_over s \<longleftrightarrow> list_all (\<lambda>se. session_over (se_pc se)) (sys_sessions s)"

subsection \<open>Runs in which the tunnel and its remote stay\<close>

text \<open>
  Two clients, one of which waits and one of which streams, while another remote comes and goes
  and another tunnel is opened and closed.
\<close>

definition two_clients :: "sys_event list" where
  "two_clients = tunnel_opens f32_ten @ [AddRemoteTo here far] @ arrives 0
     @ [RemoveRemoteFrom here far, StartTunnel ((lonely_tunnel f32_ten)\<lparr>tun_local := far\<rparr>), Bound 0 (Inr ())]
     @ arrives 1 @ [StopTunnel far, SessionStep 1 ConnectOk]"

definition two_clients_state :: Sys where
  "two_clients_state = the (sys_run (keeps_remote here near) two_clients (new_Sys boot))"

lemma two_clients_seen:
  "map_option seen (sys_run (keeps_remote here near) two_clients (new_Sys boot)) = Some (Some 2, Some (1, 1))"
  by code_simp

lemma two_clients_reachable: "reachable (keeps_remote here near) (new_Sys boot) (length two_clients) two_clients_state"
proof -
  obtain s where "sys_run (keeps_remote here near) two_clients (new_Sys boot) = Some s"
    using two_clients_seen by auto
  with sys_run_reachable [OF this initial] show ?thesis by (simp add: two_clients_state_def)
qed

definition two_clients_tunnel :: TunnelInfo where
  "two_clients_tunnel = the (get_tunnel (sys_state two_clients_state) here)"

lemma two_clients_lookups:
  "get_tunnel (sys_state two_clients_state) here = Some two_clients_tunnel"
  "\<exists>ri. im_get (ti_remotes two_clients_tunnel) near = Some ri"
proof -
  have "seen two_clients_state = (Some 2, Some (1, 1))"
    using two_clients_seen by (auto simp: two_clients_state_def)
  then show "get_tunnel (sys_state two_clients_state) here = Some two_clients_tunnel"
    "\<exists>ri. im_get (ti_remotes two_clients_tunnel) near = Some ri"
    by (auto simp: seen_def tunnel_open_apply live_counts_def two_clients_tunnel_def
        split: bind_splits)
qed

lemma two_clients_sane: "always_sane here boot two_clients_state"
proof -
  have "sys_run (\<lambda>ev s'. sane_tunnel here (sys_state s')) two_clients (new_Sys boot) \<noteq> None" by code_simp
  then obtain s where s: "sys_run (\<lambda>ev s'. sane_tunnel here (sys_state s')) two_clients (new_Sys boot) = Some s"
    by auto
  with two_clients_seen have "s = two_clients_state"
    by (auto simp: two_clients_state_def dest: sys_run_same)
  with sys_run_reachable [OF s initial] show ?thesis by (auto simp: always_sane_def)
qed

text \<open>Both are in progress, and nobody has panicked.\<close>

theorem open_streams_exact_witness:
  "ts_streams_open (ti_stats two_clients_tunnel)
     = of_nat (count_sessions (in_progress here) two_clients_state)"
proof -
  have "reachable (keeps_tunnel here) (new_Sys boot) (length two_clients) two_clients_state"
    by (rule reachable_mono [OF two_clients_reachable])
      (auto simp: keeps_remote_def keeps_tunnel_def split: sys_event.splits)
  from open_streams_exact [OF new_boot this two_clients_lookups(1)] two_clients_sane show ?thesis by blast
qed

theorem remote_streams_exact_witness:
  "\<exists>ri. im_get (ti_remotes two_clients_tunnel) near = Some ri
     \<and> rs_streams_pending (ri_stats ri) = of_nat (count_sessions (waits_for here near) two_clients_state)"
  using two_clients_lookups(2) two_clients_sane
    remote_streams_exact [OF new_boot two_clients_reachable two_clients_lookups(1)] by blast

subsection \<open>Churn\<close>

definition no_admin :: "sys_event \<Rightarrow> Sys \<Rightarrow> bool" where
  "no_admin ev s' \<longleftrightarrow>
     (case ev of StopTunnel l \<Rightarrow> False | RemoveRemoteFrom l r \<Rightarrow> False | AddRemoteTo l r \<Rightarrow> False
      | _ \<Rightarrow> True)"

text \<open>One step of connection \<open>i\<close>, as the system does it.\<close>

lemma sys_session_step:
  assumes "i < length (sys_sessions s)" and "session_step ev (sys_sessions s ! i) (sys_state s) = Some (se', st')"
  shows "sys_exec (SessionStep i ev) s = Some (s\<lparr>sys_state := st', sys_sessions := (sys_sessions s)[i := se']\<rparr>)"
  using assms by simp

text \<open>
  A remote that dies and recovers, in the state: a success in between leaves everything alone, and
  the counters come back as they were when the remote died.
\<close>

lemma death_and_recovery:
  assumes wf: "wf_state st" and counts: "live_counts st l r = Some (p, q)"
    and ti: "get_tunnel st l = Some ti" and ri: "im_get (ti_remotes ti) r = Some ri"
    and dies: "ro_errors_till_dead opts \<le> rs_num_errors (ri_stats ri) + 1"
    and timeout: "duration_from_secs_f32 (ro_connect_timeout opts) \<noteq> None"
  shows "\<exists>st1. remote_error now l r c opts st = Done st1
    \<and> live_counts (dead_check_done later True (st_next_task st) (remote_connected l r st1)) l r = Some (p - 1, q)"
proof -
  from timeout obtain d where d: "duration_from_secs_f32 (ro_connect_timeout opts) = Some d" by blast
  let ?dc = "\<lparr>dc_local = l, dc_remote = r, dc_timeout = d, dc_after = 10000000000, dc_tls_config = tls_config opts st\<rparr>"
  let ?ri = "ri\<lparr>ri_stats := failed_stats now (ri_stats ri)\<rparr>"
  from failed_attempt [OF wf ti ri d, of now c] dies obtain st1 ti1 where
    err: "remote_error now l r c opts st = Done st1" and ti1: "get_tunnel st1 l = Some ti1"
    and live: "im_get (ti_remotes ti1) r = None"
    and dead: "im_get (ti_dead_remotes ti1) r = Some \<lparr>dr_remote = ?ri, dr_join_handle = Some (st_next_task st)\<rparr>"
    and task: "im_get (st_tasks st1) (st_next_task st) = Some ?dc"
    by (auto simp: Let_def)
  let ?st2 = "remote_connected l r st1"
  have "wf_state st1" using wf_remote_error [OF wf, of now l r c opts] err by simp
  then have wf2: "wf_state ?st2" by (rule wf_remote_connected)
  have same: "st_tasks ?st2 = st_tasks st1" "\<exists>ti2. get_tunnel ?st2 l = Some ti2
      \<and> im_get (ti_dead_remotes ti2) r = im_get (ti_dead_remotes ti1) r"
    by (simp_all add: remote_connected_def ti1)
  then obtain ti2 where ti2: "get_tunnel ?st2 l = Some ti2"
    and dead2: "im_get (ti_dead_remotes ti2) r = Some \<lparr>dr_remote = ?ri, dr_join_handle = Some (st_next_task st)\<rparr>"
    using dead by auto
  have task2: "im_get (st_tasks ?st2) (st_next_task st) = Some ?dc" using task same(1) by simp
  have "\<exists>ti3. get_tunnel (dead_check_done later True (st_next_task st) ?st2) l = Some ti3
      \<and> im_get (ti_remotes ti3) r = Some (?ri\<lparr>ri_stats := (ri_stats ?ri)\<lparr>rs_num_errors := 0\<rparr>\<rparr>)"
    using dead_check_recovers [OF wf2 task2, of ti2 _ later] ti2 dead2 by auto
  then obtain ti3 where "get_tunnel (dead_check_done later True (st_next_task st) ?st2) l = Some ti3"
    and "im_get (ti_remotes ti3) r = Some (?ri\<lparr>ri_stats := (ri_stats ?ri)\<lparr>rs_num_errors := 0\<rparr>\<rparr>)"
    by blast
  with counts ti ri err show ?thesis
    by (auto simp: live_counts_def stream_counts_def failed_stats_def)
qed

text \<open>
  C36: when a remote dies while another connection still waits for it, its counters are wrong from
  then on, without any administration. Of two connections that wait for the same remote the attempt
  of the first fails, and its error is the one that moves the remote to the dead ones; the second
  attempt succeeds, which is not recorded. When the remote has recovered and the second connection
  has ended, the remote is reported with one pending stream more and one open stream fewer than it
  has: with no other connection streaming to it with \<open>2 ^ 64 - 1\<close> open ones (in a development build
  an arithmetic overflow panic), so that the strategy of minimum open connections avoids it.
\<close>

theorem streams_wrap_after_recovery:
  assumes wf: "wf_state (sys_state s)"
    and exact: "live_counts (sys_state s) l r
      = Some (of_nat (count_sessions (waits_for l r) s), of_nat (count_sessions (streams_to l r) s))"
    and ij: "i < length (sys_sessions s)" "j < length (sys_sessions s)" "i \<noteq> j"
    and first: "se_tunnel (sys_sessions s ! i) = l" "se_pc (sys_sessions s ! i) = Connecting r opts"
    and second: "se_tunnel (sys_sessions s ! j) = l" "se_pc (sys_sessions s ! j) = Connecting r opts'"
    and ti: "get_tunnel (sys_state s) l = Some ti" and ri: "im_get (ti_remotes ti) r = Some ri"
    and dies: "ro_errors_till_dead opts \<le> rs_num_errors (ri_stats ri) + 1"
    and timeout: "duration_from_secs_f32 (ro_connect_timeout opts) \<noteq> None"
  shows "\<exists>s'. sys_run no_admin
      [SessionStep i (ConnectFailed now), SessionStep j ConnectOk,
       CheckEnded later True (st_next_task (sys_state s)), SessionStep j CopyEnd, SessionStep j Proceed] s = Some s'
    \<and> live_counts (sys_state s') l r
      = Some (of_nat (count_sessions (waits_for l r) s') + 1, of_nat (count_sessions (streams_to l r) s') - 1)"
proof -
  let ?st = "sys_state s" and ?a = "sys_sessions s ! i" and ?b = "sys_sessions s ! j"
  let ?a' = "?a\<lparr>se_pc := Looping, se_retries := se_retries ?a - 1\<rparr>"
    and ?b' = "?b\<lparr>se_pc := Ended, se_last_remote := Some r\<rparr>"
  from death_and_recovery [OF wf exact ti ri dies timeout, of now "se_client ?a" later]
  obtain st1 where err: "remote_error now l r (se_client ?a) opts ?st = Done st1"
    and counts: "live_counts (dead_check_done later True (st_next_task ?st) (remote_connected l r st1)) l r
      = Some (of_nat (count_sessions (waits_for l r) s) - 1, of_nat (count_sessions (streams_to l r) s))"
    by blast
  let ?st3 = "dead_check_done later True (st_next_task ?st) (remote_connected l r st1)"
  define s' where "s' = s\<lparr>sys_state := client_disconnected l (Some r) ?st3,
      sys_sessions := (sys_sessions s)[i := ?a', j := ?b']\<rparr>"
  have run: "sys_run no_admin
      [SessionStep i (ConnectFailed now), SessionStep j ConnectOk,
       CheckEnded later True (st_next_task ?st), SessionStep j CopyEnd, SessionStep j Proceed] s = Some s'"
    using ij first second err
    by (simp add: s'_def session_step_def no_admin_def) (cases "sys_sessions s ! j", simp)
  have all: "of_nat (count_sessions P s') = (of_nat (count_sessions P s) :: u64)
      - of_bool (P ?a) - of_bool (P ?b) + of_bool (P ?a') + of_bool (P ?b')" for P
    using ij by (simp add: s'_def count_sessions_def of_nat_filter_update algebra_simps)
  have "live_counts (sys_state s') l r
      = Some (of_nat (count_sessions (waits_for l r) s) - 1, of_nat (count_sessions (streams_to l r) s) - 1)"
    using counts by (simp add: s'_def live_counts_ops on_counts_def)
  moreover have "waits_for l r ?a" "waits_for l r ?b" "\<not> waits_for l r ?a'" "\<not> waits_for l r ?b'"
    and "\<not> streams_to l r ?a" "\<not> streams_to l r ?b" "\<not> streams_to l r ?a'" "\<not> streams_to l r ?b'"
    using first second by (simp_all add: waits_for_def streams_to_def)
  ultimately show ?thesis using run all [of "waits_for l r"] all [of "streams_to l r"] by auto
qed

text \<open>Two clients of the only remote, which dies with the first error: in the end it has no open stream.\<close>

definition waiting_pair :: "sys_event list" where
  "waiting_pair = tunnel_opens f32_ten @ arrives 0 @ arrives 1"

definition waiting_state :: Sys where
  "waiting_state = the (sys_run no_admin waiting_pair (new_Sys boot))"

lemma waiting_state:
  "wf_state (sys_state waiting_state)" "live_counts (sys_state waiting_state) here near = Some (2, 0)"
  "count_sessions (waits_for here near) waiting_state = 2" "count_sessions (streams_to here near) waiting_state = 0"
  "map (\<lambda>se. (se_tunnel se, se_pc se)) (sys_sessions waiting_state) = replicate 2 (here, Connecting near strict_options)"
  "\<exists>ti ri. get_tunnel (sys_state waiting_state) here = Some ti \<and> im_get (ti_remotes ti) near = Some ri
     \<and> ro_errors_till_dead strict_options \<le> rs_num_errors (ri_stats ri) + 1"
proof -
  have "map_option (\<lambda>s. (live_counts (sys_state s) here near, count_sessions (waits_for here near) s,
        count_sessions (streams_to here near) s, map (\<lambda>se. (se_tunnel se, se_pc se)) (sys_sessions s),
        Option.bind (get_tunnel (sys_state s) here) (\<lambda>ti. map_option (\<lambda>ri. rs_num_errors (ri_stats ri))
          (im_get (ti_remotes ti) near))))
      (sys_run no_admin waiting_pair (new_Sys boot))
    = Some (Some (2, 0), 2, 0, replicate 2 (here, Connecting near strict_options), Some 0)"
    by code_simp
  then obtain s where run: "sys_run no_admin waiting_pair (new_Sys boot) = Some s" and s: "waiting_state = s"
    and facts: "live_counts (sys_state s) here near = Some (2, 0)" "count_sessions (waits_for here near) s = 2"
      "count_sessions (streams_to here near) s = 0"
      "map (\<lambda>se. (se_tunnel se, se_pc se)) (sys_sessions s) = replicate 2 (here, Connecting near strict_options)"
      "Option.bind (get_tunnel (sys_state s) here) (\<lambda>ti. map_option (\<lambda>ri. rs_num_errors (ri_stats ri))
          (im_get (ti_remotes ti) near)) = Some 0"
    by (auto simp: waiting_state_def)
  show "wf_state (sys_state waiting_state)"
    unfolding s by (rule wf_reachable [OF sys_run_reachable [OF run initial] wf_new_Sys [OF new_boot]])
  have "ro_errors_till_dead strict_options \<le> 1" by code_simp
  with facts(5) show "\<exists>ti ri. get_tunnel (sys_state waiting_state) here = Some ti \<and> im_get (ti_remotes ti) near = Some ri
     \<and> ro_errors_till_dead strict_options \<le> rs_num_errors (ri_stats ri) + 1"
    unfolding s by (auto simp: bind_eq_Some_conv)
  show "live_counts (sys_state waiting_state) here near = Some (2, 0)"
    "count_sessions (waits_for here near) waiting_state = 2" "count_sessions (streams_to here near) waiting_state = 0"
    "map (\<lambda>se. (se_tunnel se, se_pc se)) (sys_sessions waiting_state) = replicate 2 (here, Connecting near strict_options)"
    unfolding s by (rule facts)+
qed

theorem streams_wrap_after_recovery_witness:
  "\<exists>s'. live_counts (sys_state s') here near
      = Some (of_nat (count_sessions (waits_for here near) s') + 1,
          of_nat (count_sessions (streams_to here near) s') - 1)
    \<and> sys_run no_admin [SessionStep 0 (ConnectFailed 1), SessionStep 1 ConnectOk,
       CheckEnded 2 True (st_next_task (sys_state waiting_state)), SessionStep 1 CopyEnd, SessionStep 1 Proceed]
       waiting_state = Some s'"
proof -
  have len: "0 < length (sys_sessions waiting_state)" "1 < length (sys_sessions waiting_state)"
    using arg_cong [OF waiting_state(5), of length] by simp_all
  have pcs: "se_tunnel (sys_sessions waiting_state ! 0) = here" "se_tunnel (sys_sessions waiting_state ! 1) = here"
    "se_pc (sys_sessions waiting_state ! 0) = Connecting near strict_options"
    "se_pc (sys_sessions waiting_state ! 1) = Connecting near strict_options"
    using arg_cong [OF waiting_state(5), of "\<lambda>xs. xs ! 0"] arg_cong [OF waiting_state(5), of "\<lambda>xs. xs ! 1"] len
    by simp_all
  from waiting_state(6) obtain ti ri where ti: "get_tunnel (sys_state waiting_state) here = Some ti"
    and ri: "im_get (ti_remotes ti) near = Some ri"
    and dies: "ro_errors_till_dead strict_options \<le> rs_num_errors (ri_stats ri) + 1" by blast
  have timeout: "duration_from_secs_f32 (ro_connect_timeout strict_options) \<noteq> None" by code_simp
  have exact: "live_counts (sys_state waiting_state) here near
      = Some (of_nat (count_sessions (waits_for here near) waiting_state),
          of_nat (count_sessions (streams_to here near) waiting_state))"
    by (simp add: waiting_state(2-4))
  from streams_wrap_after_recovery [OF waiting_state(1) exact len _ pcs(1,3,2,4) ti ri dies timeout, of 1 2]
  show ?thesis by auto
qed

text \<open>The whole run, the first connection having connected after the recovery and ended too.\<close>

lemma wrapped_run:
  "map_option (\<lambda>s. (seen s, all_over s))
     (sys_run no_admin
       (waiting_pair @ [SessionStep 0 (ConnectFailed 1), SessionStep 1 ConnectOk, CheckEnded 2 True 0,
           SessionStep 0 (Draw 0), SessionStep 0 ConnectOk]
        @ departs 0 @ departs 1)
       (new_Sys boot))
   = Some ((Some 0, Some (1, - 1)), True)"
  by code_simp

text \<open>
  Closing a tunnel and opening it again while clients are connected.
\<close>

lemma departs_leave:
  assumes "distinct is" and "tunnel_open (sys_state s) l = Some n"
    and "\<forall>i \<in> set is. i < length (sys_sessions s) \<and> se_tunnel (sys_sessions s ! i) = l
      \<and> (\<exists>r. se_pc (sys_sessions s ! i) = Copying r)"
  shows "\<exists>s'. sys_run (\<lambda>_ _. True) (concat (map departs is)) s = Some s'
    \<and> tunnel_open (sys_state s') l = Some (n - of_nat (length is))"
  using assms
proof (induction "is" arbitrary: s n)
  case (Cons i js)
  let ?se = "sys_sessions s ! i"
  let ?s' = "s\<lparr>sys_state := client_disconnected l (se_last_remote ?se) (sys_state s),
      sys_sessions := (sys_sessions s)[i := ?se\<lparr>se_pc := Ended\<rparr>]\<rparr>"
  have run: "sys_run (\<lambda>_ _. True) (departs i @ evs) s = sys_run (\<lambda>_ _. True) evs ?s'" for evs
    using Cons.prems(3) by (auto simp: departs_def session_step_def)
  have open1: "tunnel_open (sys_state ?s') l = Some (n - 1)" using Cons.prems(2) by (simp add: tunnel_open_client)
  have "\<forall>j \<in> set js. j < length (sys_sessions ?s') \<and> se_tunnel (sys_sessions ?s' ! j) = l
      \<and> (\<exists>r. se_pc (sys_sessions ?s' ! j) = Copying r)"
    using Cons.prems(1,3) by (auto simp: nth_list_update)
  from Cons.IH [OF _ open1 this] Cons.prems(1) obtain s2
    where s2: "sys_run (\<lambda>_ _. True) (concat (map departs js)) ?s' = Some s2"
    and n: "tunnel_open (sys_state s2) l = Some (n - 1 - of_nat (length js))" by auto
  have "sys_run (\<lambda>_ _. True) (concat (map departs (i # js))) s = Some s2" using s2 by (simp add: run)
  with n show ?case by (intro exI [of _ s2]) (simp add: diff_diff_eq)
qed simp

text \<open>
  C37: when a tunnel is closed and opened again under the same address while connections of the old
  one are still copying, each of them takes one from the open streams of the new tunnel when it
  ends, which started at zero, so after \<open>n > 0\<close> of them the new tunnel is reported with
  \<open>2 ^ 64 - n\<close> open streams.
\<close>

theorem reopened_tunnel_wraps:
  assumes wf: "wf_state (sys_state s)" and ti: "get_tunnel (sys_state s) (tun_local t) = Some ti"
    and addr: "as_tuple (tun_local t) \<noteq> None" and "distinct is"
    and old: "\<forall>i \<in> set is. i < length (sys_sessions s) \<and> se_tunnel (sys_sessions s ! i) = tun_local t
      \<and> (\<exists>r. se_pc (sys_sessions s ! i) = Copying r)"
  shows "\<exists>s'. sys_run (\<lambda>_ _. True)
      ([StopTunnel (tun_local t), StartTunnel t, Bound (length (sys_starting s)) (Inr ())] @ concat (map departs is)) s
        = Some s'
    \<and> tunnel_open (sys_state s') (tun_local t) = Some (- of_nat (length is))
    \<and> (is \<noteq> [] \<and> length is < 2 ^ 64
        \<longrightarrow> uint (the (tunnel_open (sys_state s') (tun_local t))) = 2 ^ 64 - int (length is))"
proof -
  let ?l = "tun_local t" and ?st1 = "snd (remove_tunnel (tun_local t) (sys_state s))"
  have gone: "get_tunnel ?st1 ?l = None" by (simp add: remove_tunnel_lookup [OF wf])
  define s1 where "s1 = s\<lparr>sys_closed := ti_close_channel ti # sys_closed s,
      sys_state := snd (add_tunnel t (sys_next_channel s) ?st1), sys_next_channel := Suc (sys_next_channel s),
      sys_handlers := sys_handlers s @ [\<lparr>th_tunnel_key = ?l, th_close_channel = sys_next_channel s\<rparr>]\<rparr>"
  obtain ti' where rem: "remove_tunnel ?l (sys_state s) = (Inr ti', ?st1)" "ti_close_channel ti' = ti_close_channel ti"
    by (simp add: remove_tunnel_def ti Let_def)
  have new: "add_tunnel t ch ?st1 = (Inr (), snd (add_tunnel t ch ?st1))" for ch
    using gone by (simp add: add_tunnel_def im_contains_key_def Let_def)
  have run: "sys_run (\<lambda>_ _. True)
      ([StopTunnel ?l, StartTunnel t, Bound (length (sys_starting s)) (Inr ())] @ evs) s
    = sys_run (\<lambda>_ _. True) evs s1" for evs
    using rem addr gone new [of "sys_next_channel s"]
    by (auto simp: s1_def stop_tunnel_def create_tunnel_start_def tunnel_exists_def im_contains_key_def
        create_tunnel_bound_def remove_nth_def split: prod.split)
  have zero: "tunnel_open (sys_state s1) ?l = Some 0"
    using gone by (simp add: s1_def tunnel_open_add_tunnel)
  obtain s' where s': "sys_run (\<lambda>_ _. True) (concat (map departs is)) s1 = Some s'"
    and n: "tunnel_open (sys_state s') ?l = Some (0 - of_nat (length is))"
    using departs_leave [OF assms(4) zero] old by (auto simp: s1_def)
  have "uint (- (of_nat (length is) :: u64)) = 2 ^ 64 - int (length is)" if "is \<noteq> []" "length is < 2 ^ 64"
  proof -
    have "uint (- (of_nat (length is) :: u64)) = (- int (length is)) mod 2 ^ 64"
      using that(2) by (simp add: uint_word_ariths unsigned_of_nat take_bit_eq_mod)
    also have "\<dots> = (2 ^ 64 - int (length is)) mod 2 ^ 64"
      by (metis add.commute mod_add_self2 diff_conv_add_uminus)
    also have "\<dots> = 2 ^ 64 - int (length is)"
      using that by (intro mod_pos_pos_trivial) (auto simp: neq_Nil_conv)
    finally show ?thesis .
  qed
  with s' n show ?thesis unfolding run by (intro exI [of _ s']) simp
qed

text \<open>One client that is connected when the tunnel is closed.\<close>

definition connected_run :: "sys_event list" where
  "connected_run = tunnel_opens f32_ten @ arrives 0 @ [SessionStep 0 ConnectOk]"

theorem reopened_tunnel_wraps_witness:
  "\<exists>s s'. sys_run (\<lambda>_ _. True) connected_run (new_Sys boot) = Some s
    \<and> sys_run (\<lambda>_ _. True) ([StopTunnel here, StartTunnel (lonely_tunnel f32_ten),
        Bound (length (sys_starting s)) (Inr ())] @ departs 0) s = Some s'
    \<and> tunnel_open (sys_state s') here = Some (- 1)
    \<and> uint (the (tunnel_open (sys_state s') here)) = 2 ^ 64 - 1"
proof -
  have "map_option (\<lambda>s. (get_tunnel (sys_state s) here \<noteq> None,
        map (\<lambda>se. (se_tunnel se, se_pc se)) (sys_sessions s)))
      (sys_run (\<lambda>_ _. True) connected_run (new_Sys boot)) = Some (True, [(here, Copying near)])"
    by code_simp
  then obtain s ti where run: "sys_run (\<lambda>_ _. True) connected_run (new_Sys boot) = Some s"
    and ti: "get_tunnel (sys_state s) here = Some ti"
    and ses: "map (\<lambda>se. (se_tunnel se, se_pc se)) (sys_sessions s) = [(here, Copying near)]"
    by auto
  have l: "tun_local (lonely_tunnel f32_ten) = here" by (simp add: lonely_tunnel_def)
  have wf: "wf_state (sys_state s)"
    by (rule wf_reachable [OF sys_run_reachable [OF run initial] wf_new_Sys [OF new_boot]])
  have "as_tuple here \<noteq> None" by code_simp
  moreover have "\<forall>i \<in> set [0]. i < length (sys_sessions s) \<and> se_tunnel (sys_sessions s ! i) = here
      \<and> (\<exists>r. se_pc (sys_sessions s ! i) = Copying r)"
    using ses by (auto simp: map_eq_Cons_conv)
  ultimately obtain s' where "sys_run (\<lambda>_ _. True) ([StopTunnel here, StartTunnel (lonely_tunnel f32_ten),
        Bound (length (sys_starting s)) (Inr ())] @ concat (map departs [0])) s = Some s'"
    and "tunnel_open (sys_state s') here = Some (- of_nat (length [0 :: nat]))"
    and "[0 :: nat] \<noteq> [] \<and> length [0 :: nat] < 2 ^ 64
        \<longrightarrow> uint (the (tunnel_open (sys_state s') here)) = 2 ^ 64 - int (length [0 :: nat])"
    using reopened_tunnel_wraps [OF wf, of "lonely_tunnel f32_ten" ti "[0]", unfolded l, OF ti _ _]
    by (elim meta_impE exE conjE) auto
  with run show ?thesis by (intro exI [of _ s] exI [of _ s']) (simp del: sys_run.simps)
qed

subsection \<open>A timeout that is no duration\<close>

text \<open>The option parser takes any number for the connection timeout, also those that are no duration.\<close>

lemma parsed_timeouts:
  "list_all (\<lambda>text. case parse_f32 text of None \<Rightarrow> False | Some f \<Rightarrow> duration_from_secs_f32 f = None)
     [''-1'', ''inf'', ''NaN'', ''1e30'']"
  by code_simp

lemma select_remote_some:
  assumes "get_tunnel st l = Some ti" and "ti_remotes ti \<noteq> []"
  shows "\<exists>r st'. select_remote rnd l st = Some (Inr (r, to_options (ti_options ti)), st')"
  using assms
  by (cases rule: ti_select_remote_cases [of ti rnd])
    (auto simp: select_remote_def im_contains_key_def)

text \<open>
  C38: whatever remote a client selects in a tunnel whose connection timeout is negative, infinite,
  too large or no number, its task panics at the first attempt, after the selection was counted;
  and since a panicked task never does anything again, its pending stream is never taken back.
\<close>

theorem invalid_timeout_panics:
  assumes "get_tunnel st (se_tunnel se) = Some ti" and "ti_remotes ti \<noteq> []"
    and "duration_from_secs_f32 (ro_connect_timeout (to_options (ti_options ti))) = None"
    and "se_pc se = Looping" and "se_retries se \<noteq> 0"
  shows "\<exists>r p q st'. live_counts st (se_tunnel se) r = Some (p, q)
    \<and> session_step (Draw rnd) se st = Some (se\<lparr>se_pc := Panicking (Some r)\<rparr>, st')
    \<and> live_counts st' (se_tunnel se) r = Some (p + 1, q)
    \<and> (\<forall>ev st''. session_step ev (se\<lparr>se_pc := Panicking (Some r)\<rparr>) st'' = None)"
proof -
  let ?l = "se_tunnel se"
  obtain r st' where sel: "select_remote rnd ?l st = Some (Inr (r, to_options (ti_options ti)), st')"
    using select_remote_some [OF assms(1,2)] by blast
  with live_counts_select obtain c where c: "live_counts st ?l r = Some c"
    and c': "live_counts st' = on_counts st ?l r (1, 0)"
    by fastforce
  have "session_step (Draw rnd) se st = Some (se\<lparr>se_pc := Panicking (Some r)\<rparr>, st')"
    using assms(3-5) sel by (simp add: session_step_def connect_remote_starts_def)
  moreover have "live_counts st' ?l r = Some (fst c + 1, snd c)"
    using c by (simp add: c' on_counts_def case_prod_beta)
  moreover have "\<forall>ev st''. session_step ev (se\<lparr>se_pc := Panicking (Some r)\<rparr>) st'' = None"
    by (simp add: session_step_def)
  ultimately show ?thesis using c by (metis prod.collapse)
qed

text \<open>With the timeout \<open>-1\<close>, in the system: the first client's stream stays open and pending.\<close>

lemma negative_timeout_panics:
  "parse_f32 ''-1'' = Some (Finite True 8388608 (-23))
   \<and> map_option (\<lambda>s. (seen s, map se_pc (sys_sessions s)))
       (sys_run no_admin (tunnel_opens (Finite True 8388608 (-23)) @ arrives 0) (new_Sys boot))
     = Some ((Some 1, Some (1, 0)), [Panicking (Some near)])"
  by (rule conjI; code_simp)

definition negative_state :: State where
  "negative_state = snd (add_tunnel (lonely_tunnel (Finite True 8388608 (-23))) 7 boot)"

definition arrived_session :: Session where
  "arrived_session = (new_session here ''client:9'' 7)\<lparr>se_pc := Looping, se_retries := 3\<rparr>"

theorem invalid_timeout_panics_witness:
  "\<exists>r st'. session_step (Draw 0) arrived_session negative_state
     = Some (arrived_session\<lparr>se_pc := Panicking (Some r)\<rparr>, st')"
proof -
  have "map_option (\<lambda>ti. (ti_remotes ti \<noteq> [], ro_connect_timeout (to_options (ti_options ti))))
      (get_tunnel negative_state here) = Some (True, Finite True 8388608 (-23))"
    by code_simp
  then obtain ti where "get_tunnel negative_state here = Some ti" and "ti_remotes ti \<noteq> []"
    and "ro_connect_timeout (to_options (ti_options ti)) = Finite True 8388608 (-23)" by auto
  moreover have "duration_from_secs_f32 (Finite True 8388608 (-23)) = None" by code_simp
  moreover have "se_tunnel arrived_session = here" "se_pc arrived_session = Looping" "se_retries arrived_session \<noteq> 0"
    by (simp_all add: arrived_session_def new_session_def)
  ultimately show ?thesis using invalid_timeout_panics [of negative_state arrived_session ti 0] by fastforce
qed

end
