(* ===== verification/Lifecycle.thy ===== *)
theory Lifecycle
  imports Views
begin

text \<open>
  Tunnels and their listeners: every open tunnel has exactly one task that accepts its clients,
  every such task belongs to an open tunnel or has been told to stop, and closing a tunnel
  tells its own task.
\<close>

abbreviation channel :: "State \<Rightarrow> SocketSpec \<Rightarrow> channel_id option" where
  "channel \<equiv> view ti_close_channel"

definition listening :: "Sys \<Rightarrow> SocketSpec \<Rightarrow> channel_id \<Rightarrow> bool" where
  "listening s l ch \<longleftrightarrow>
     \<lparr>th_tunnel_key = l, th_close_channel = ch\<rparr> \<in> set (sys_handlers s) \<and> ch \<notin> set (sys_closed s)"

definition listeners_inv :: "Sys \<Rightarrow> bool" where
  "listeners_inv s \<longleftrightarrow>
     distinct (map th_close_channel (sys_handlers s))
     \<and> (\<forall>h \<in> set (sys_handlers s). th_close_channel h < sys_next_channel s)
     \<and> (\<forall>ch \<in> set (sys_closed s). ch < sys_next_channel s)
     \<and> (\<forall>l ch. channel (sys_state s) l = Some ch \<longleftrightarrow> listening s l ch)"

lemma listeners_invD: "listeners_inv s \<Longrightarrow> listening s l ch \<longleftrightarrow> channel (sys_state s) l = Some ch"
  by (simp add: listeners_inv_def)

lemma channel_client:
  "channel (client_connected l st) = channel st" "channel (client_disconnected l r st) = channel st"
  by (auto simp: client_connected_def client_disconnected_def ti_defs Let_def
      close_channel.on_remote_view intro!: close_channel.put_keep split: option.split)

lemma channel_session: "session_trans ev se st se' st' \<Longrightarrow> channel st' = channel st"
proof (induction rule: session_trans.induct)
  case (attempt_fails se r opts now st st')
  then show ?case
    using close_channel.remote_error [of now "se_tunnel se" r "se_client se" opts st] by simp
next
  case (error_panics se r opts now st st')
  then show ?case
    using close_channel.remote_error [of now "se_tunnel se" r "se_client se" opts st] by simp
qed (auto simp: channel_client close_channel.quiet close_channel.select)

lemma listeners_same:
  assumes "listeners_inv s" and "channel (sys_state s') = channel (sys_state s)"
    and "sys_handlers s' = sys_handlers s" and "sys_closed s' = sys_closed s"
    and "sys_next_channel s \<le> sys_next_channel s'"
  shows "listeners_inv s'"
  using assms by (auto simp: listeners_inv_def listening_def intro: less_le_trans)

lemma handler_eq: "h = \<lparr>th_tunnel_key = l, th_close_channel = ch\<rparr> \<longleftrightarrow> th_tunnel_key h = l \<and> th_close_channel h = ch"
  by (cases h) auto

lemma listeners_bound:
  assumes "listeners_inv s" and "sys_exec (Bound i b) s = Some s'"
  shows "listeners_inv s'"
proof -
  let ?t = "sys_starting s ! i" and ?st = "sys_state s" and ?ch = "sys_next_channel s"
  from assms(2) consider (same) "channel (sys_state s') = channel ?st"
      "sys_handlers s' = sys_handlers s" "sys_closed s' = sys_closed s" "sys_next_channel s' = Suc ?ch"
    | (new) "channel ?st (tun_local ?t) = None"
      "channel (sys_state s') = (channel ?st)(tun_local ?t \<mapsto> ?ch)"
      "sys_handlers s' = sys_handlers s @ [\<lparr>th_tunnel_key = tun_local ?t, th_close_channel = ?ch\<rparr>]"
      "sys_closed s' = sys_closed s" "sys_next_channel s' = Suc ?ch"
    using view_add_tunnel [of ti_close_channel ?t ?ch ?st]
    by (auto simp: create_tunnel_bound_def add_tunnel_def im_contains_key_def Let_def view_def
        new_TunnelInfo_def split: if_splits sum.splits prod.splits)
  then show ?thesis
  proof cases
    case same
    with assms(1) show ?thesis by (auto intro: listeners_same)
  next
    case new
    have fresh: "?ch \<notin> set (sys_closed s)" "?ch \<notin> th_close_channel ` set (sys_handlers s)"
      using assms(1) by (auto simp: listeners_inv_def)
    have "\<not> listening s (tun_local ?t) ch" for ch
      using new(1) by (simp add: listeners_invD [OF assms(1)])
    with assms(1) new fresh show ?thesis
      by (auto simp: listeners_inv_def listening_def less_Suc_eq)
  qed
qed

lemma listeners_stop:
  assumes "wf_state (sys_state s)" and "listeners_inv s" and "sys_exec (StopTunnel l) s = Some s'"
  shows "listeners_inv s'"
proof (cases "get_tunnel (sys_state s) l")
  case None
  with assms(3) have "s' = s" by (auto simp: stop_tunnel_def remove_tunnel_def)
  with assms(2) show ?thesis by simp
next
  case (Some ti)
  let ?ch = "ti_close_channel ti"
  have "channel (snd (remove_tunnel l (sys_state s))) = (channel (sys_state s))(l := None)"
    by (rule view_remove_tunnel [OF assms(1)])
  with Some assms(3) have s': "channel (sys_state s') = (channel (sys_state s))(l := None)"
    "sys_handlers s' = sys_handlers s" "sys_closed s' = ?ch # sys_closed s"
    "sys_next_channel s' = sys_next_channel s"
    by (auto simp: stop_tunnel_def remove_tunnel_def Let_def)
  have "listening s l ?ch" using Some by (simp add: listeners_invD [OF assms(2)] view_def)
  then have own: "listening s l' ?ch \<Longrightarrow> l' = l" for l'
    using assms(2) unfolding listeners_inv_def listening_def distinct_map inj_on_def
    by (metis TunnelHandler.select_convs)
  have only: "listening s l ch \<Longrightarrow> ch = ?ch" for ch
    using Some by (simp add: listeners_invD [OF assms(2)] view_def)
  have "?ch < sys_next_channel s"
    using assms(2) \<open>listening s l ?ch\<close> by (auto simp: listeners_inv_def listening_def)
  moreover have "channel (sys_state s') l' = Some ch \<longleftrightarrow> listening s' l' ch" for l' ch
  proof -
    have stays: "listening s' l' ch \<longleftrightarrow> listening s l' ch \<and> ch \<noteq> ?ch"
      by (auto simp: listening_def s')
    show ?thesis
    proof (cases "l' = l")
      case True
      then show ?thesis using only [of ch] stays by (auto simp: s'(1))
    next
      case False
      then have "channel (sys_state s') l' = Some ch \<longleftrightarrow> listening s l' ch"
        by (simp add: s'(1) listeners_invD [OF assms(2)])
      with False own [of l'] stays show ?thesis by blast
    qed
  qed
  ultimately show ?thesis
    using assms(2) by (simp add: listeners_inv_def s'(2-4))
qed

lemma listeners_exec:
  assumes "wf_state (sys_state s)" and "listeners_inv s" and "sys_exec ev s = Some s'"
  shows "listeners_inv s'"
proof (cases ev)
  case (Bound i b)
  with assms listeners_bound show ?thesis by blast
next
  case (StopTunnel l)
  with assms listeners_stop show ?thesis by blast
next
  case (SessionStep i e)
  with assms(2,3) show ?thesis
    by (auto split: if_splits option.splits intro!: listeners_same [OF assms(2)]
        dest!: session_step_trans channel_session)
next
  case (TunnelFinished i)
  with assms(3) have i: "i < length (sys_handlers s)"
    and told: "th_close_channel (sys_handlers s ! i) \<in> set (sys_closed s)"
    and s': "s' = s\<lparr>sys_handlers := remove_nth i (sys_handlers s)\<rparr>"
    by (auto simp: run_tunnel_finishes_def split: if_splits)
  have split: "sys_handlers s = take i (sys_handlers s) @ sys_handlers s ! i # drop (Suc i) (sys_handlers s)"
    by (rule id_take_nth_drop [OF i])
  then have "distinct (map th_close_channel (take i (sys_handlers s) @ sys_handlers s ! i # drop (Suc i) (sys_handlers s)))"
    using assms(2) by (simp add: listeners_inv_def)
  moreover have "set (sys_handlers s) = set (sys_handlers s') \<union> {sys_handlers s ! i}"
    by (subst split) (auto simp: s' remove_nth_def)
  moreover from this told have "listening s' l ch \<longleftrightarrow> listening s l ch" for l ch
    by (auto simp: listening_def s' dest: sym [of "\<lparr>th_tunnel_key = l, th_close_channel = ch\<rparr>"])
  ultimately show ?thesis
    using assms(2) by (auto simp: listeners_inv_def s' remove_nth_def)
qed (use assms(2,3) in \<open>auto split: option.splits sum.splits if_splits intro!: listeners_same [OF assms(2)]
       simp: close_channel.quiet close_channel.dead_check\<close>)

interpretation listeners: sys_invariant "\<lambda>_ _. True" listeners_inv
  by unfold_locales (rule listeners_exec)

text \<open>
  C17: in every reachable state, whatever was opened, closed, bound or refused in between, the
  tasks that accept clients are exactly those of the open tunnels and those already told to
  stop: an open tunnel has one task that listens on it and no other channel, and no task that
  was not told to stop listens for a tunnel that is gone.
\<close>

theorem listeners_are_tunnels:
  assumes "new_State args opts c = Inr st0" and "reachable (\<lambda>_ _. True) (new_Sys st0) n s"
  shows "distinct (map th_close_channel (sys_handlers s))
    \<and> (\<forall>l ch. (\<exists>ti. get_tunnel (sys_state s) l = Some ti \<and> ti_close_channel ti = ch)
         \<longleftrightarrow> listening s l ch)"
proof -
  have "listeners_inv (new_Sys st0)"
    using assms(1)
    by (auto simp: listeners_inv_def new_Sys_def listening_def view_def new_State_def split: sum.splits)
  with listeners.always [OF assms(2) wf_new_Sys [OF assms(1)]] have "listeners_inv s" by blast
  then show ?thesis by (auto simp: listeners_inv_def view_def)
qed

text \<open>A tunnel that was opened, closed and opened again: the first listener was told to stop.\<close>

definition reopened_run :: "sys_event list" where
  "reopened_run = [StartTunnel example_tunnel, Bound 0 (Inr ()), StopTunnel here,
     StartTunnel example_tunnel, Bound 0 (Inr ())]"

theorem listeners_are_tunnels_witness:
  "\<exists>s. sys_run (\<lambda>_ _. True) reopened_run (new_Sys boot) = Some s
     \<and> \<not> listening s here 0 \<and> listening s here 1"
proof -
  have "map_option (\<lambda>s. map_option ti_close_channel (get_tunnel (sys_state s) here))
      (sys_run (\<lambda>_ _. True) reopened_run (new_Sys boot)) = Some (Some 1)"
    by code_simp
  then obtain s ti where run: "sys_run (\<lambda>_ _. True) reopened_run (new_Sys boot) = Some s"
    and ti: "get_tunnel (sys_state s) here = Some ti" "ti_close_channel ti = 1" by auto
  from sys_run_reachable [OF run initial]
  have "reachable (\<lambda>_ _. True) (new_Sys boot) (length reopened_run) s" by simp
  from listeners_are_tunnels [OF new_boot this] run ti show ?thesis
    by (metis One_nat_def option.inject zero_neq_one)
qed

end
