(* ===== verification/Telemetry.thy ===== *)
theory Telemetry
  imports State_Examples
begin

text \<open>
  What the metrics say against what the statistics say, over every sequence of operations of the
  state (\<open>src/state.rs\<close>, \<open>src/state/info.rs\<close>, \<open>src/state/stats.rs\<close>). A time series is an
  instrument with attributes; its value is the sum of what was added to it, and a query for some
  attributes sums over all the others.
\<close>

fun metric_about :: "instrument \<Rightarrow> (string \<times> SocketSpec) list \<Rightarrow> metric_event list \<Rightarrow> int" where
  "metric_about m A [] = 0"
| "metric_about m A (Add m' v attrs # es) =
     (if m = m' \<and> set A \<subseteq> set attrs then v else 0) + metric_about m A es"

lemma metric_about_append [simp]:
  "metric_about m A (es @ fs) = metric_about m A es + metric_about m A fs"
  by (induction m A es rule: metric_about.induct) auto

abbreviation of_tunnel :: "SocketSpec \<Rightarrow> (string \<times> SocketSpec) list" where
  "of_tunnel l \<equiv> [(''tunnel'', l)]"

abbreviation of_remote :: "SocketSpec \<Rightarrow> SocketSpec \<Rightarrow> (string \<times> SocketSpec) list" where
  "of_remote l r \<equiv> [(''tunnel'', l), (''remote'', r)]"

text \<open>The instruments of a remote and of a tunnel with the values they should show.\<close>

definition remote_readings :: "RemoteStats \<Rightarrow> (instrument \<times> u64) list" where
  "remote_readings s =
     [(Counter ''remote_bytes_sent'', rs_bytes_sent s),
      (UpDownCounter ''remote_streams_open'', rs_streams_open s),
      (UpDownCounter ''remote_streams_pending'', rs_streams_pending s),
      (Counter ''remote_bytes_received'', rs_bytes_received s),
      (Counter ''remote_total_connections'', rs_total_connections s),
      (UpDownCounter ''remote_errors'', rs_num_errors s),
      (Counter ''retote_total_error'', rs_total_errors s)]"

definition tunnel_readings :: "TunnelStats \<Rightarrow> (instrument \<times> u64) list" where
  "tunnel_readings s =
     [(Counter ''tunnel_bytes_sent'', ts_bytes_sent s + ts_bytes_received s),
      (UpDownCounter ''tunnel_streams_open'', ts_streams_open s),
      (Counter ''tunnel_bytes_received'', 0),
      (Counter ''tunnel_total_connections'', ts_total_connections s),
      (Counter ''tunnel_errors'', ts_errors s)]"

definition displays :: "(instrument \<times> u64) list \<Rightarrow> (string \<times> SocketSpec) list \<Rightarrow> metric_event list \<Rightarrow> bool" where
  "displays readings A es \<longleftrightarrow> (\<forall>(m, v) \<in> set readings. of_int (metric_about m A es) = v)"

text \<open>The statistics of a remote, live or dead; of one that is not there, those it would start with.\<close>

definition stats_in :: "TunnelInfo \<Rightarrow> SocketSpec \<Rightarrow> RemoteStats" where
  "stats_in ti r =
     (case im_get (ti_remotes ti) r of
        Some ri \<Rightarrow> ri_stats ri
      | None \<Rightarrow>
          (case im_get (ti_dead_remotes ti) r of
             Some d \<Rightarrow> ri_stats (dr_remote d)
           | None \<Rightarrow> default_RemoteStats))"

definition remote_stats_of :: "State \<Rightarrow> SocketSpec \<Rightarrow> SocketSpec \<Rightarrow> RemoteStats" where
  "remote_stats_of st l r =
     (case get_tunnel st l of None \<Rightarrow> default_RemoteStats | Some ti \<Rightarrow> stats_in ti r)"

definition tunnel_stats_of :: "State \<Rightarrow> SocketSpec \<Rightarrow> TunnelStats" where
  "tunnel_stats_of st l =
     (case get_tunnel st l of None \<Rightarrow> default_TunnelStats | Some ti \<Rightarrow> ti_stats ti)"

lemma stats_of_put:
  "remote_stats_of (put_tunnel l res st) l' r =
     (if l' = l then stats_in (fst res) r else remote_stats_of st l' r)"
  "tunnel_stats_of (put_tunnel l res st) l' =
     (if l' = l then ti_stats (fst res) else tunnel_stats_of st l')"
  by (simp_all add: remote_stats_of_def tunnel_stats_of_def)

subsection \<open>Every instrument keeps its name\<close>

definition named_tunnel :: "TunnelInfo \<Rightarrow> bool" where
  "named_tunnel ti \<longleftrightarrow>
     ti_metrics ti = new_TunnelMetrics
     \<and> (\<forall>r ri. im_get (ti_remotes ti) r = Some ri \<longrightarrow> ri_metrics ri = new_RemoteMetrics)
     \<and> (\<forall>r d. im_get (ti_dead_remotes ti) r = Some d \<longrightarrow> ri_metrics (dr_remote d) = new_RemoteMetrics)"

definition named :: "State \<Rightarrow> bool" where
  "named st \<longleftrightarrow>
     st_tunnels_counter st = UpDownCounter ''number_of_tunnels''
     \<and> (\<forall>l ti. get_tunnel st l = Some ti \<longrightarrow> named_tunnel ti)"

lemma ri_metrics_kept [simp]:
  "ri_metrics (fst (ri_new_pending_stream l r ri)) = ri_metrics ri"
  "ri_metrics (fst (ri_remote_connected l r ri)) = ri_metrics ri"
  "ri_metrics (fst (ri_error now l r c ri)) = ri_metrics ri"
  "ri_metrics (fst (ri_remote_recovered l r ri)) = ri_metrics ri"
  "ri_metrics (fst (ri_update_moved_bytes sent n l r ri)) = ri_metrics ri"
  "ri_metrics (fst (ri_client_disconnected l r ri)) = ri_metrics ri"
  by (simp_all add: ri_defs Let_def)

lemma ti_metrics_kept [simp]:
  "ti_metrics (fst (ti_client_connected l ti)) = ti_metrics ti"
  "ti_metrics (fst (ti_client_disconnected l ti)) = ti_metrics ti"
  "ti_metrics (fst (ti_remote_error l r ti)) = ti_metrics ti"
  "ti_metrics (fst (ti_update_moved_bytes sent n l ti)) = ti_metrics ti"
  "ti_metrics (fst (on_remote r f res)) = ti_metrics (fst res)"
  by (simp_all add: ti_defs Let_def fst_on_remote)

lemma named_put: "named st \<Longrightarrow> named_tunnel (fst res) \<Longrightarrow> named (put_tunnel l res st)"
  by (simp add: named_def put_tunnel_def)

lemma namedD: "named st \<Longrightarrow> get_tunnel st l = Some ti \<Longrightarrow> named_tunnel ti"
  by (simp add: named_def)

lemma named_same:
  "named st \<Longrightarrow> st_tunnels st' = st_tunnels st \<Longrightarrow> st_tunnels_counter st' = st_tunnels_counter st \<Longrightarrow> named st'"
  by (simp add: named_def)

lemma new_tunnel_remotes:
  assumes "im_get (ti_remotes (new_TunnelInfo ch rs opts)) r = Some ri"
  shows "ri = new_RemoteInfo"
proof -
  have "\<forall>r ri. im_get (fold (\<lambda>k. im_insert k new_RemoteInfo) rs m) r = Some ri \<longrightarrow> ri = new_RemoteInfo"
    if "\<forall>r ri. im_get m r = Some ri \<longrightarrow> ri = new_RemoteInfo" for m
    using that
  proof (induction rs arbitrary: m)
    case (Cons a rs)
    have "\<forall>r ri. im_get (im_insert a new_RemoteInfo m) r = Some ri \<longrightarrow> ri = new_RemoteInfo"
      using Cons.prems by (auto simp only: im_get_insert fun_upd_apply split: if_splits)
    from Cons.IH [OF this] show ?case by (simp only: fold.simps comp_apply)
  qed simp
  from this [of "[]"] assms show ?thesis
    by (simp add: new_TunnelInfo_def im_of_list_def fold_map comp_def)
qed

lemma named_new_tunnel: "named_tunnel (new_TunnelInfo ch rs opts)"
proof -
  have "ri_metrics new_RemoteInfo = new_RemoteMetrics" by (simp add: new_RemoteInfo_def)
  moreover have "ti_metrics (new_TunnelInfo ch rs opts) = new_TunnelMetrics"
    "ti_dead_remotes (new_TunnelInfo ch rs opts) = []"
    by (simp_all add: new_TunnelInfo_def)
  ultimately show ?thesis using new_tunnel_remotes unfolding named_tunnel_def by fastforce
qed

lemma named_tunnelD:
  assumes "named_tunnel ti"
  shows "im_get (ti_remotes ti) r = Some ri \<Longrightarrow> ri_metrics ri = new_RemoteMetrics"
    and "im_get (ti_dead_remotes ti) r = Some d \<Longrightarrow> ri_metrics (dr_remote d) = new_RemoteMetrics"
  using assms by (simp_all add: named_tunnel_def)

lemma named_tunnel_method:
  assumes "named_tunnel ti" and "ti_metrics (fst res) = ti_metrics ti"
    and "ti_remotes (fst res) = ti_remotes ti" and "ti_dead_remotes (fst res) = ti_dead_remotes ti"
  shows "named_tunnel (fst res)"
  using assms by (simp add: named_tunnel_def)

lemma named_on_remote:
  assumes "named_tunnel (fst res)" and "\<And>ri. ri_metrics (fst (f ri)) = ri_metrics ri"
  shows "named_tunnel (fst (on_remote r f res))"
  using assms by (auto simp: named_tunnel_def split: if_splits)

lemma named_tunnel_edit:
  assumes "named_tunnel ti"
  shows "ri_metrics ri = new_RemoteMetrics \<Longrightarrow> named_tunnel (ti\<lparr>ti_remotes := im_insert r ri (ti_remotes ti)\<rparr>)"
    and "im_wf (ti_remotes ti) \<Longrightarrow> named_tunnel (ti\<lparr>ti_remotes := im_remove r (ti_remotes ti)\<rparr>)"
    and "im_wf (ti_dead_remotes ti) \<Longrightarrow> named_tunnel (ti\<lparr>ti_dead_remotes := im_remove r (ti_dead_remotes ti)\<rparr>)"
    and "ri_metrics (dr_remote d) = new_RemoteMetrics \<Longrightarrow>
      named_tunnel (ti\<lparr>ti_dead_remotes := im_insert r d (ti_dead_remotes ti)\<rparr>)"
    and "named_tunnel (ti\<lparr>ti_last_selected_index := i\<rparr>)"
  using assms by (auto simp: named_tunnel_def split: if_splits)

lemmas named_simps = named_put named_tunnel_method named_on_remote named_tunnel_edit

lemma named_client_ops:
  assumes "named st"
  shows "named (client_connected l st)" and "named (remote_connected l r st)"
    and "named (update_transferred l r sent n st)" and "named (client_disconnected l r' st)"
  using assms
  by (auto simp: client_connected_def remote_connected_def update_transferred_def
      client_disconnected_def split: option.split
      intro!: named_put [OF assms] named_on_remote dest: namedD intro: named_tunnel_method)

lemma named_select:
  assumes "named st" and "select_remote rnd l st = Some (res, st')"
  shows "named st'"
proof (cases "get_tunnel st l")
  case None
  with assms show ?thesis by (simp add: select_remote_def)
next
  case (Some ti)
  then have n: "named_tunnel (ti\<lparr>ti_last_selected_index := i\<rparr>)" for i
    using assms(1) by (auto intro: named_tunnel_edit namedD)
  from Some assms namedD [OF assms(1) Some] show ?thesis
    by (cases rule: ti_select_remote_cases [of ti rnd])
      (auto simp: select_remote_def im_contains_key_def intro!: named_put named_on_remote n)
qed

text \<open>The paths through \<open>remote_error\<close>.\<close>

lemma remote_error_cases:
  obtains (unknown) "get_tunnel st l = None" "outcome_state (remote_error now l r c opts st) = st"
  | (counted) ti res where "get_tunnel st l = Some ti"
      "res = on_remote r (ri_error now l r (Some c)) (ti_remote_error l r ti)"
      "outcome_state (remote_error now l r c opts st) = put_tunnel l res st"
  | (died) ti res rec timeout where "get_tunnel st l = Some ti"
      "res = on_remote r (ri_error now l r (Some c)) (ti_remote_error l r ti)"
      "im_get (ti_remotes (fst res)) r = Some rec"
      "outcome_state (remote_error now l r c opts st)
        = put_tunnel l ((fst res)\<lparr>ti_remotes := im_remove r (ti_remotes (fst res)),
            ti_dead_remotes := im_insert r
              \<lparr>dr_remote = rec, dr_join_handle = Some (st_next_task st)\<rparr> (ti_dead_remotes (fst res))\<rparr>, [])
            (snd (check_dead l r timeout 10000000000 (tls_config opts st) (put_tunnel l res st)))"
  | (lost) ti res where "get_tunnel st l = Some ti"
      "duration_from_secs_f32 (ro_connect_timeout opts) = None"
      "res = on_remote r (ri_error now l r (Some c)) (ti_remote_error l r ti)"
      "outcome_state (remote_error now l r c opts st)
        = put_tunnel l ((fst res)\<lparr>ti_remotes := im_remove r (ti_remotes (fst res))\<rparr>, []) (put_tunnel l res st)"
proof (cases "get_tunnel st l")
  case None
  then show thesis using unknown by (simp add: remote_error_def)
next
  case (Some ti)
  define res where "res = on_remote r (ri_error now l r (Some c)) (ti_remote_error l r ti)"
  have tls: "tls_config opts (put_tunnel l res st) = tls_config opts st" by (simp add: tls_config_def)
  note simps = Some remote_error_def Let_def res_def [symmetric] tls case_prod_beta duration_ten
  show thesis
  proof (cases "im_get (ti_remotes (fst res)) r")
    case None
    then show thesis using counted [OF Some res_def] by (simp add: simps)
  next
    case rec: (Some rec)
    show thesis
    proof (cases "ro_errors_till_dead opts \<le> rs_num_errors (ri_stats rec)")
      case False
      with rec show thesis using counted [OF Some res_def] by (simp add: simps)
    next
      case True
      show thesis
      proof (cases "duration_from_secs_f32 (ro_connect_timeout opts)")
        case None
        with True rec show thesis using lost [OF Some None res_def] by (simp add: simps)
      next
        case timeout: (Some timeout)
        with True rec show thesis using died [OF Some res_def rec, of timeout] by (simp add: simps)
      qed
    qed
  qed
qed

lemma named_remote_error:
  assumes "named st" and "wf_state st"
  shows "named (outcome_state (remote_error now l r c opts st))"
proof -
  let ?res = "\<lambda>ti. on_remote r (ri_error now l r (Some c)) (ti_remote_error l r ti)"
  have n: "named_tunnel (fst (?res ti))" if "get_tunnel st l = Some ti" for ti
    by (rule named_on_remote, rule named_tunnel_method [OF namedD [OF assms(1) that]]) simp_all
  have wf: "im_wf (ti_remotes (fst (?res ti)))" if "get_tunnel st l = Some ti" for ti
    using wf_tunnelD(1) [OF wf_stateD(4) [OF assms(2) that]] by (simp add: im_wf_update)
  show ?thesis
  proof (cases rule: remote_error_cases [where st = st and l = l and now = now and r = r and c = c and opts = opts])
    case unknown
    with assms show ?thesis by simp
  next
    case (counted ti res)
    with n named_put [OF assms(1)] show ?thesis by simp
  next
    case (died ti res rec timeout)
    have spawned: "named (snd (check_dead l r timeout 10000000000 (tls_config opts st) (put_tunnel l res st)))"
      by (rule named_same [OF named_put [OF assms(1), of res l]])
        (use died(1,2) n in \<open>simp_all add: check_dead_def\<close>)
    have "ri_metrics rec = new_RemoteMetrics"
      using named_tunnelD(1) [OF n [OF died(1)]] died(2,3) by blast
    with died(1,2) n wf have "named_tunnel ((fst res)\<lparr>ti_remotes := im_remove r (ti_remotes (fst res)),
            ti_dead_remotes := im_insert r
              \<lparr>dr_remote = rec, dr_join_handle = Some (st_next_task st)\<rparr> (ti_dead_remotes (fst res))\<rparr>)"
      using named_tunnel_edit(4) [OF named_tunnel_edit(2) [OF n [OF died(1)] wf [OF died(1)], of r],
          of "\<lparr>dr_remote = rec, dr_join_handle = Some (st_next_task st)\<rparr>" r] by simp
    with died(4) named_put [OF spawned] show ?thesis by simp
  next
    case (lost ti res)
    have "named (put_tunnel l res st)" using lost(1,3) n by (intro named_put [OF assms(1)]) simp
    with lost n wf named_tunnel_edit(2) [OF n [OF lost(1)] wf [OF lost(1)], of r] show ?thesis
      by (simp add: named_put)
  qed
qed

text \<open>The paths through \<open>dead_check_done\<close>.\<close>

lemma dead_check_cases:
  obtains (gone) st' where "st_tunnels st' = st_tunnels st" "st_emitted st' = st_emitted st"
      "st_tunnels_counter st' = st_tunnels_counter st" "dead_check_done now ok t st = st'"
  | (recovered) l r ti d st' where "get_tunnel st l = Some ti" "im_get (ti_dead_remotes ti) r = Some d"
      "st_tunnels st' = st_tunnels st" "st_emitted st' = st_emitted st"
      "st_tunnels_counter st' = st_tunnels_counter st"
      "dead_check_done now ok t st
        = put_tunnel l (ti\<lparr>ti_dead_remotes := im_remove r (ti_dead_remotes ti),
            ti_remotes := im_insert r (fst (ri_remote_recovered l r (dr_remote d))) (ti_remotes ti)\<rparr>,
            snd (ri_remote_recovered l r (dr_remote d))) st'"
  | (not_there) l r ti st' where "get_tunnel st l = Some ti" "im_get (ti_dead_remotes ti) r = None"
      "st_tunnels st' = st_tunnels st" "st_emitted st' = st_emitted st"
      "st_tunnels_counter st' = st_tunnels_counter st"
      "dead_check_done now ok t st = put_tunnel l (ti_remote_error l r ti) st'"
  | (still_dead) l r ti d h st' where "get_tunnel st l = Some ti" "im_get (ti_dead_remotes ti) r = Some d"
      "st_tunnels st' = st_tunnels st" "st_emitted st' = st_emitted st"
      "st_tunnels_counter st' = st_tunnels_counter st"
      "dead_check_done now ok t st
        = put_tunnel l ((fst (ti_remote_error l r ti))\<lparr>ti_dead_remotes := im_insert r
              \<lparr>dr_remote = fst (ri_error now l r None (dr_remote d)), dr_join_handle = h\<rparr>
              (ti_dead_remotes ti)\<rparr>,
            snd (ti_remote_error l r ti) @ snd (ri_error now l r None (dr_remote d))) st'"
proof (cases "im_get (st_tasks st) t")
  case None
  then show thesis using gone [of st] by (simp add: dead_check_done_def)
next
  case dc: (Some dc)
  let ?l = "dc_local dc" and ?r = "dc_remote dc" and ?st = "end_task t st"
  show thesis
  proof (cases "get_tunnel st ?l")
    case None
    with dc show thesis using gone [of ?st] by (simp add: dead_check_done_def)
  next
    case ti: (Some ti)
    note simps = dead_check_done_def Let_def dc ti case_prod_beta
    show thesis
    proof (cases "im_get (ti_dead_remotes ti) ?r")
      case None
      then show thesis using gone [of ?st] not_there [OF ti None, of ?st]
        by (cases ok) (simp_all add: simps)
    next
      case (Some d)
      let ?st' = "snd (check_dead ?l ?r (dc_timeout dc) (dc_after dc) (dc_tls_config dc) ?st)"
      from Some show thesis
        using recovered [OF ti Some, of ?st]
          still_dead [OF ti Some, of ?st' "Some (fst (check_dead ?l ?r (dc_timeout dc) (dc_after dc) (dc_tls_config dc) ?st))"]
        by (cases ok) (simp_all add: simps check_dead_def)
    qed
  qed
qed

lemma named_dead_check:
  assumes "named st" and "wf_state st"
  shows "named (dead_check_done now ok t st)"
proof (cases rule: dead_check_cases [where st = st and now = now and ok = ok and t = t])
  case (gone st')
  then show ?thesis using named_same [OF assms(1)] by simp
next
  case (recovered l r ti d st')
  note n = namedD [OF assms(1) recovered(1)]
  have wf: "im_wf (ti_dead_remotes ti)" by (rule wf_tunnelD(2) [OF wf_stateD(4) [OF assms(2) recovered(1)]])
  have "ri_metrics (fst (ri_remote_recovered l r (dr_remote d))) = new_RemoteMetrics"
    using named_tunnelD(2) [OF n recovered(2)] by simp
  with recovered named_tunnel_edit(1) [OF named_tunnel_edit(3) [OF n wf]] show ?thesis
    by (simp add: named_put named_same [OF assms(1)])
next
  case (not_there l r ti st')
  then show ?thesis using namedD [OF assms(1) not_there(1)]
    by (simp add: named_put named_same [OF assms(1)] named_tunnel_method)
next
  case (still_dead l r ti d h st')
  have n: "named_tunnel (fst (ti_remote_error l r ti))"
    by (rule named_tunnel_method [OF namedD [OF assms(1) still_dead(1)]]) simp_all
  have "ri_metrics (fst (ri_error now l r None (dr_remote d))) = new_RemoteMetrics"
    using named_tunnelD(2) [OF namedD [OF assms(1) still_dead(1)] still_dead(2)] by simp
  with still_dead named_tunnel_edit(4) [OF n] show ?thesis
    by (simp add: named_put named_same [OF assms(1)])
qed

lemma abort_all_counter [simp]:
  "st_tunnels_counter (fold (\<lambda>(_, d). abort (dr_join_handle d)) ds st) = st_tunnels_counter st"
  by (induction ds arbitrary: st) (auto simp: abort_def split: option.split)

lemma named_exec_op:
  assumes "named st" and "wf_state st"
  shows "named (exec_op x st)"
proof (cases x)
  case (AddTunnel t ch)
  with assms(1) show ?thesis by (simp add: add_tunnel_def Let_def named_put named_new_tunnel)
next
  case (RemoveTunnel l)
  show ?thesis
  proof (cases "get_tunnel st l")
    case None
    with RemoveTunnel assms show ?thesis by (simp add: remove_tunnel_def)
  next
    case (Some ti)
    with Some RemoveTunnel assms remove_tunnel_lookup [OF assms(2), of l] show ?thesis
      by (auto simp: named_def remove_tunnel_def Let_def split: if_splits)
  qed
next
  case (AddRemote l r)
  have "ri_metrics new_RemoteInfo = new_RemoteMetrics" by (simp add: new_RemoteInfo_def)
  with AddRemote assms(1) show ?thesis
    by (auto simp: add_remote_to_tunnel_def split: option.split
        intro!: named_put named_tunnel_edit(1) dest: namedD)
next
  case (RemoveRemote l r)
  with assms show ?thesis
    by (auto simp: remove_remote_from_tunnel_def split: option.split
        intro!: named_put named_tunnel_edit(2,3) intro: namedD [OF assms(1)]
          wf_tunnelD(1,2) [OF wf_stateD(4) [OF assms(2)]])
qed (use assms named_client_ops named_remote_error named_dead_check named_select
      in \<open>auto split: option.split\<close>)

subsection \<open>The metrics of remotes\<close>

lemmas display_simps = displays_def remote_readings_def tunnel_readings_def metrics_defs

lemma displays_append_nothing:
  "(\<And>m. metric_about m A ds = 0) \<Longrightarrow> displays rs A (es @ ds) = displays rs A es"
  by (simp add: displays_def)

text \<open>The additions of an operation are all about its tunnel and, of a remote's method, its remote.\<close>

definition only_about :: "SocketSpec \<Rightarrow> metric_event list \<Rightarrow> bool" where
  "only_about l es \<longleftrightarrow>
     (\<forall>e \<in> set es. case e of Add m v attrs \<Rightarrow>
        (\<forall>l'. (''tunnel'', l') \<in> set attrs \<longleftrightarrow> l' = l) \<and> m \<noteq> UpDownCounter ''number_of_tunnels'')"

lemma only_about_other:
  "only_about l es \<Longrightarrow> l' \<noteq> l \<Longrightarrow> (''tunnel'', l') \<in> set A \<Longrightarrow> metric_about m A es = 0"
proof (induction es)
  case (Cons e es)
  then show ?case by (cases e) (auto simp: only_about_def)
qed simp

lemma only_about_gauge: "only_about l es \<Longrightarrow> metric_about (UpDownCounter ''number_of_tunnels'') A es = 0"
proof (induction es)
  case (Cons e es)
  then show ?case by (cases e) (auto simp: only_about_def)
qed simp

lemma only_about_append [simp]: "only_about l (es @ fs) \<longleftrightarrow> only_about l es \<and> only_about l fs"
  by (auto simp: only_about_def)

lemma only_about_Nil [simp]: "only_about l []"
  by (simp add: only_about_def)

lemma only_about_ti [simp]:
  assumes "ti_metrics ti = new_TunnelMetrics"
  shows "only_about l (snd (ti_client_connected l ti))"
    and "only_about l (snd (ti_client_disconnected l ti))"
    and "only_about l (snd (ti_remote_error l r ti))"
    and "only_about l (snd (ti_update_moved_bytes sent n l ti))"
  using assms by (auto simp: only_about_def ti_defs metrics_defs Let_def)

lemma only_about_ri [simp]:
  assumes "ri_metrics ri = new_RemoteMetrics"
  shows "only_about l (snd (ri_new_pending_stream l r ri))"
    and "only_about l (snd (ri_remote_connected l r ri))"
    and "only_about l (snd (ri_error now l r c ri))"
    and "only_about l (snd (ri_remote_recovered l r ri))"
    and "only_about l (snd (ri_update_moved_bytes sent n l r ri))"
    and "only_about l (snd (ri_client_disconnected l r ri))"
  using assms by (auto simp: only_about_def ri_defs metrics_defs Let_def)

text \<open>
  What an operation adds keeps the reading of a remote, or of a tunnel, right while its
  statistics go from \<open>s\<close> to \<open>s'\<close>.
\<close>

definition remote_step :: "SocketSpec \<Rightarrow> SocketSpec \<Rightarrow> RemoteStats \<Rightarrow> RemoteStats \<Rightarrow> metric_event list \<Rightarrow> bool" where
  "remote_step l r s s' ds \<longleftrightarrow>
     (\<forall>es. displays (remote_readings s) (of_remote l r) es
        \<longrightarrow> displays (remote_readings s') (of_remote l r) (es @ ds))"

definition tunnel_step :: "SocketSpec \<Rightarrow> TunnelStats \<Rightarrow> TunnelStats \<Rightarrow> metric_event list \<Rightarrow> bool" where
  "tunnel_step l s s' ds \<longleftrightarrow>
     (\<forall>es. displays (tunnel_readings s) (of_tunnel l) es
        \<longrightarrow> displays (tunnel_readings s') (of_tunnel l) (es @ ds))"

lemma step_refl [simp]: "remote_step l r s s []" "tunnel_step l s' s' []"
  by (simp_all add: remote_step_def tunnel_step_def)

lemma remote_step_trans:
  "remote_step l r s s' ds \<Longrightarrow> remote_step l r s' s'' ds' \<Longrightarrow> remote_step l r s s'' (ds @ ds')"
  by (simp add: remote_step_def flip: append_assoc)

lemma tunnel_step_trans:
  "tunnel_step l s s' ds \<Longrightarrow> tunnel_step l s' s'' ds' \<Longrightarrow> tunnel_step l s s'' (ds @ ds')"
  by (simp add: tunnel_step_def flip: append_assoc)

text \<open>Every method adds to each instrument what it adds to the field of the same meaning.\<close>

definition method_ok ::
  "SocketSpec \<Rightarrow> SocketSpec \<Rightarrow> (RemoteInfo \<Rightarrow> RemoteInfo \<times> metric_event list) \<Rightarrow> bool" where
  "method_ok l r f \<longleftrightarrow>
     (\<forall>ri. ri_metrics ri = new_RemoteMetrics \<longrightarrow>
        only_about l (snd (f ri))
        \<and> remote_step l r (ri_stats ri) (ri_stats (fst (f ri))) (snd (f ri))
        \<and> (\<forall>r0 s. r0 \<noteq> r \<longrightarrow> remote_step l r0 s s (snd (f ri)))
        \<and> (\<forall>s. tunnel_step l s s (snd (f ri))))"

lemma methods_ok:
  "method_ok l r (ri_new_pending_stream l r)"
  "method_ok l r (ri_remote_connected l r)"
  "method_ok l r (ri_error now l r c)"
  "method_ok l r (ri_remote_recovered l r)"
  "method_ok l r (ri_update_moved_bytes sent n l r)"
  "method_ok l r (ri_client_disconnected l r)"
  by (simp_all add: method_ok_def only_about_def remote_step_def tunnel_step_def display_simps ri_defs Let_def)

definition result_ok ::
  "SocketSpec \<Rightarrow> SocketSpec \<Rightarrow> TunnelInfo \<Rightarrow> TunnelInfo \<times> metric_event list \<Rightarrow> bool" where
  "result_ok l r ti res \<longleftrightarrow>
     only_about l (snd res)
     \<and> remote_step l r (stats_in ti r) (stats_in (fst res) r) (snd res)
     \<and> tunnel_step l (ti_stats ti) (ti_stats (fst res)) (snd res)"

lemma stats_in_same:
  "ti_remotes ti' = ti_remotes ti \<Longrightarrow> ti_dead_remotes ti' = ti_dead_remotes ti \<Longrightarrow> stats_in ti' r = stats_in ti r"
  by (auto simp: stats_in_def split: option.split)

lemma stats_in_methods:
  "stats_in (fst (ti_client_connected l ti)) r = stats_in ti r"
  "stats_in (fst (ti_client_disconnected l ti)) r = stats_in ti r"
  "stats_in (fst (ti_remote_error l r' ti)) r = stats_in ti r"
  "stats_in (fst (ti_update_moved_bytes sent n l ti)) r = stats_in ti r"
  by (rule stats_in_same; simp)+

lemma tunnel_methods_step:
  assumes "ti_metrics ti = new_TunnelMetrics"
  shows "tunnel_step l (ti_stats ti) (ti_stats (fst (ti_client_connected l ti))) (snd (ti_client_connected l ti))"
    and "tunnel_step l (ti_stats ti) (ti_stats (fst (ti_client_disconnected l ti))) (snd (ti_client_disconnected l ti))"
    and "tunnel_step l (ti_stats ti) (ti_stats (fst (ti_remote_error l r' ti))) (snd (ti_remote_error l r' ti))"
    and "tunnel_step l (ti_stats ti) (ti_stats (fst (ti_update_moved_bytes sent n l ti)))
           (snd (ti_update_moved_bytes sent n l ti))"
  using assms by (simp_all add: tunnel_step_def display_simps ti_defs Let_def add_ac)

lemma tunnel_methods_no_remote:
  assumes "ti_metrics ti = new_TunnelMetrics"
  shows "remote_step l r s s (snd (ti_client_connected l ti))"
    and "remote_step l r s s (snd (ti_client_disconnected l ti))"
    and "remote_step l r s s (snd (ti_remote_error l r' ti))"
    and "remote_step l r s s (snd (ti_update_moved_bytes sent n l ti))"
  using assms by (simp_all add: remote_step_def display_simps ti_defs Let_def)

lemma result_ok_tunnel:
  assumes "ti_metrics ti = new_TunnelMetrics"
  shows "result_ok l r ti (ti_client_connected l ti)"
    and "result_ok l r ti (ti_client_disconnected l ti)"
    and "result_ok l r ti (ti_remote_error l r' ti)"
    and "result_ok l r ti (ti_update_moved_bytes sent n l ti)"
  by (simp_all only: result_ok_def stats_in_methods only_about_ti [OF assms]
      tunnel_methods_step [OF assms] tunnel_methods_no_remote [OF assms] simp_thms)

lemma result_ok_refl [simp]: "result_ok l r ti (ti, [])"
  by (simp add: result_ok_def)

lemma result_ok_on_remote:
  assumes ok: "result_ok l r0 ti res" and named: "named_tunnel (fst res)" and f: "method_ok l r f"
  shows "result_ok l r0 ti (on_remote r f res)"
proof (cases "im_get (ti_remotes (fst res)) r")
  case None
  with ok show ?thesis by (simp add: on_remote_def)
next
  case (Some ri)
  have events: "snd (on_remote r f res) = snd res @ snd (f ri)" by (simp add: on_remote_def Some)
  have m: "ri_metrics ri = new_RemoteMetrics" by (rule named_tunnelD(1) [OF named Some])
  have after: "stats_in (fst (on_remote r f res)) r0
      = (if r0 = r then ri_stats (fst (f ri)) else stats_in (fst res) r0)"
    using Some by (auto simp: stats_in_def split: option.split)
  have before: "stats_in (fst res) r = ri_stats ri" using Some by (simp add: stats_in_def)
  have "remote_step l r0 (stats_in (fst res) r0) (stats_in (fst (on_remote r f res)) r0) (snd (f ri))"
    using f m before by (simp add: method_ok_def after)
  moreover have "tunnel_step l (ti_stats (fst res)) (ti_stats (fst res)) (snd (f ri))"
    and "only_about l (snd (f ri))"
    using f m by (simp_all add: method_ok_def)
  ultimately show ?thesis
    using ok by (auto simp: result_ok_def events intro: remote_step_trans tunnel_step_trans)
qed

text \<open>Moving a record between the live and the dead remotes does not change it.\<close>

lemma result_ok_rearranged:
  "result_ok l r ti res \<Longrightarrow> stats_in ti' r = stats_in (fst res) r \<Longrightarrow> ti_stats ti' = ti_stats (fst res)
    \<Longrightarrow> result_ok l r ti (ti', snd res)"
  by (simp add: result_ok_def)

end
