(* ===== verification/Telemetry_Spec.thy ===== *)
theory Telemetry_Spec
  imports Telemetry
begin

text \<open>
  The metrics show the statistics (see \<open>Telemetry\<close>): every operation of the state keeps the
  readings right, so they are right after every sequence of operations that starts with a new
  state.
\<close>

definition remote_tracked :: "State \<Rightarrow> SocketSpec \<Rightarrow> SocketSpec \<Rightarrow> bool" where
  "remote_tracked st l r \<longleftrightarrow>
     displays (remote_readings (remote_stats_of st l r)) (of_remote l r) (st_emitted st)"

definition tunnel_tracked :: "State \<Rightarrow> SocketSpec \<Rightarrow> bool" where
  "tunnel_tracked st l \<longleftrightarrow>
     displays (tunnel_readings (tunnel_stats_of st l)) (of_tunnel l) (st_emitted st)"

lemma displays_other:
  "only_about l es' \<Longrightarrow> l' \<noteq> l \<Longrightarrow> (''tunnel'', l') \<in> set A \<Longrightarrow> displays rs A (es @ es') = displays rs A es"
  by (simp add: displays_append_nothing only_about_other)

lemma remote_tracked_put:
  assumes "remote_tracked st l' r" and "get_tunnel st l = Some ti" and "only_about l (snd res)"
    and "l' = l \<Longrightarrow> remote_step l r (stats_in ti r) (stats_in (fst res) r) (snd res)"
  shows "remote_tracked (put_tunnel l res st) l' r"
proof (cases "l' = l")
  case True
  with assms show ?thesis
    by (simp add: remote_tracked_def stats_of_put remote_step_def) (simp add: remote_stats_of_def)
next
  case False
  with assms(1,3) show ?thesis
    by (simp add: remote_tracked_def stats_of_put displays_other)
qed

lemma tunnel_tracked_put:
  assumes "tunnel_tracked st l'" and "get_tunnel st l = Some ti" and "only_about l (snd res)"
    and "tunnel_step l (ti_stats ti) (ti_stats (fst res)) (snd res)"
  shows "tunnel_tracked (put_tunnel l res st) l'"
proof (cases "l' = l")
  case True
  with assms show ?thesis
    by (simp add: tunnel_tracked_def stats_of_put tunnel_step_def) (simp add: tunnel_stats_of_def)
next
  case False
  with assms(1,3) show ?thesis
    by (simp add: tunnel_tracked_def stats_of_put displays_other)
qed

definition gauge_tracked :: "State \<Rightarrow> bool" where
  "gauge_tracked st \<longleftrightarrow>
     metric_about (UpDownCounter ''number_of_tunnels'') [] (st_emitted st) = int (number_of_tunnels st)"

lemma gauge_tracked_put:
  assumes "gauge_tracked st" and "get_tunnel st l = Some ti" and "only_about l (snd res)"
  shows "gauge_tracked (put_tunnel l res st)"
  using assms im_insert_present [OF assms(2), of "\<lambda>_. fst res"]
  by (simp add: gauge_tracked_def only_about_gauge number_of_tunnels_def put_tunnel_def)

text \<open>
  From \<open>st0\<close> to \<open>st\<close> the right readings of a remote (if \<open>b1\<close>), of its tunnel (if \<open>b2\<close>) and of the
  number of tunnels have stayed right.
\<close>

definition keeps :: "bool \<Rightarrow> bool \<Rightarrow> State \<Rightarrow> SocketSpec \<Rightarrow> SocketSpec \<Rightarrow> State \<Rightarrow> bool" where
  "keeps b1 b2 st0 l r st \<longleftrightarrow>
     (b1 \<longrightarrow> remote_tracked st0 l r \<longrightarrow> remote_tracked st l r)
     \<and> (b2 \<longrightarrow> tunnel_tracked st0 l \<longrightarrow> tunnel_tracked st l)
     \<and> (gauge_tracked st0 \<longrightarrow> gauge_tracked st)"

lemma keeps_refl [simp]: "keeps b1 b2 st l r st"
  by (simp add: keeps_def)

lemma keeps_put:
  assumes "keeps b1 b2 st0 l' r st" and "get_tunnel st l = Some ti" and "result_ok l r ti res"
  shows "keeps b1 b2 st0 l' r (put_tunnel l res st)"
  using assms
  by (auto simp: keeps_def result_ok_def intro: remote_tracked_put tunnel_tracked_put gauge_tracked_put)

lemma keeps_same:
  "keeps b1 b2 st0 l r st \<Longrightarrow> st_tunnels st' = st_tunnels st \<Longrightarrow> st_emitted st' = st_emitted st \<Longrightarrow> keeps b1 b2 st0 l r st'"
  by (simp add: keeps_def remote_tracked_def tunnel_tracked_def gauge_tracked_def number_of_tunnels_def
      remote_stats_of_def tunnel_stats_of_def)

lemma named_tunnel_metrics: "named_tunnel ti \<Longrightarrow> ti_metrics ti = new_TunnelMetrics"
  by (simp add: named_tunnel_def)

lemma named_methods:
  assumes "named_tunnel ti"
  shows "named_tunnel (fst (ti_client_connected l ti))"
    and "named_tunnel (fst (ti_client_disconnected l ti))"
    and "named_tunnel (fst (ti_remote_error l r ti))"
    and "named_tunnel (fst (ti_update_moved_bytes sent n l ti))"
  by (rule named_tunnel_method [OF assms]; simp)+

lemma keeps_client_ops:
  assumes "named st" and "keeps b1 b2 st0 l' r0 st"
  shows "keeps b1 b2 st0 l' r0 (client_connected l st)" and "keeps b1 b2 st0 l' r0 (remote_connected l r st)"
    and "keeps b1 b2 st0 l' r0 (update_transferred l r sent n st)" and "keeps b1 b2 st0 l' r0 (client_disconnected l r' st)"
proof -
  note n = namedD [OF assms(1)]
  note m = named_tunnel_metrics [OF n]
  show "keeps b1 b2 st0 l' r0 (client_connected l st)"
    using assms(2) by (auto simp: client_connected_def split: option.split
        intro: keeps_put result_ok_tunnel m)
  show "keeps b1 b2 st0 l' r0 (remote_connected l r st)"
    using assms(2) by (auto simp: remote_connected_def split: option.split
        intro!: keeps_put result_ok_on_remote methods_ok intro: n)
  show "keeps b1 b2 st0 l' r0 (update_transferred l r sent n st)"
    using assms(2) by (auto simp: update_transferred_def split: option.split
        intro!: keeps_put result_ok_on_remote methods_ok result_ok_tunnel named_methods
          named_tunnel_metrics intro: n)
  show "keeps b1 b2 st0 l' r0 (client_disconnected l r' st)"
    using assms(2) by (auto simp: client_disconnected_def split: option.split
        intro!: keeps_put result_ok_on_remote methods_ok result_ok_tunnel named_methods
          named_tunnel_metrics intro: n)
qed

lemma stats_in_selected [simp]: "stats_in (ti\<lparr>ti_last_selected_index := i\<rparr>) r = stats_in ti r"
  by (rule stats_in_same; simp)

lemma keeps_select:
  assumes "named st" and "keeps b1 b2 st0 l' r0 st" and "select_remote rnd l st = Some (res, st')"
  shows "keeps b1 b2 st0 l' r0 st'"
proof (cases "get_tunnel st l")
  case None
  with assms show ?thesis by (simp add: select_remote_def)
next
  case (Some ti)
  have ok: "result_ok l r0 ti (ti\<lparr>ti_last_selected_index := i\<rparr>, [])" for i
    by (simp add: result_ok_def)
  have n: "named_tunnel (ti\<lparr>ti_last_selected_index := i\<rparr>)" for i
    by (rule named_tunnel_edit(5) [OF namedD [OF assms(1) Some]])
  from Some assms show ?thesis
    by (cases rule: ti_select_remote_cases [of ti rnd])
      (auto simp: select_remote_def im_contains_key_def ok n
        intro!: keeps_put [OF _ Some] result_ok_on_remote methods_ok)
qed

lemma keeps_rearranged:
  assumes "keeps b1 b2 st0 l' r0 (put_tunnel l res st)"
    and "b1 \<Longrightarrow> l' = l \<Longrightarrow> stats_in ti' r0 = stats_in (fst res) r0" and "ti_stats ti' = ti_stats (fst res)"
    and "st_tunnels st' = st_tunnels (put_tunnel l res st)" and "st_emitted st' = st_emitted (put_tunnel l res st)"
  shows "keeps b1 b2 st0 l' r0 (put_tunnel l (ti', []) st')"
proof -
  have st': "keeps b1 b2 st0 l' r0 st'" by (rule keeps_same [OF assms(1,4,5)])
  have "get_tunnel st' l = Some (fst res)" using assms(4) by simp
  with st' assms(2,3) show ?thesis
    by (auto simp: keeps_def intro: remote_tracked_put tunnel_tracked_put gauge_tracked_put)
qed

lemma keeps_remote_error:
  assumes "named st" and "wf_state st" and "keeps b1 b2 st0 l' r0 st"
    and "b1 \<Longrightarrow> l' = l \<Longrightarrow> r0 = r \<Longrightarrow> duration_from_secs_f32 (ro_connect_timeout opts) \<noteq> None"
  shows "keeps b1 b2 st0 l' r0 (outcome_state (remote_error now l r c opts st))"
proof (cases rule: remote_error_cases [where st = st and l = l and now = now and r = r and c = c and opts = opts])
  case unknown
  with assms show ?thesis by simp
next
  case (counted ti res)
  with assms(3) show ?thesis
    by (auto intro!: keeps_put result_ok_on_remote result_ok_tunnel methods_ok named_methods
        named_tunnel_metrics intro: namedD [OF assms(1)])
next
  case (died ti res rec timeout)
  have "keeps b1 b2 st0 l' r0 (put_tunnel l res st)" unfolding died(2)
    by (rule keeps_put [OF assms(3) died(1)])
      (auto intro!: result_ok_on_remote result_ok_tunnel methods_ok named_methods
        named_tunnel_metrics namedD [OF assms(1) died(1)])
  moreover have "im_wf (ti_remotes (fst res))"
    using wf_tunnelD(1) [OF wf_stateD(4) [OF assms(2) died(1)]] by (simp add: died(2) im_wf_update)
  ultimately show ?thesis unfolding died(4)
    by (elim keeps_rearranged) (use died(3) in \<open>auto simp: stats_in_def check_dead_def split: option.split\<close>)
next
  case (lost ti res)
  have "keeps b1 b2 st0 l' r0 (put_tunnel l res st)" unfolding lost(3)
    by (rule keeps_put [OF assms(3) lost(1)])
      (auto intro!: result_ok_on_remote result_ok_tunnel methods_ok named_methods
        named_tunnel_metrics namedD [OF assms(1) lost(1)])
  moreover have "im_wf (ti_remotes (fst res))"
    using wf_tunnelD(1) [OF wf_stateD(4) [OF assms(2) lost(1)]] by (simp add: lost(3) im_wf_update)
  ultimately show ?thesis unfolding lost(4)
    by (elim keeps_rearranged) (use lost(2) assms(4) in \<open>auto simp: stats_in_def split: option.split\<close>)
qed

lemma stats_in_recovered:
  assumes "wf_tunnel tasks l ti" and "im_get (ti_dead_remotes ti) r = Some d"
  shows "stats_in (ti\<lparr>ti_dead_remotes := im_remove r (ti_dead_remotes ti),
      ti_remotes := im_insert r ri (ti_remotes ti)\<rparr>) r0
    = (if r0 = r then ri_stats ri else stats_in ti r0)"
  using wf_tunnelD(2) [OF assms(1)] by (auto simp: stats_in_def split: option.split)

lemma stats_in_still_dead:
  assumes "im_get (ti_remotes ti) r = None"
  shows "stats_in (ti\<lparr>ti_dead_remotes := im_insert r d (ti_dead_remotes ti)\<rparr>) r0
    = (if r0 = r then ri_stats (dr_remote d) else stats_in ti r0)"
  using assms by (auto simp: stats_in_def split: option.split)

lemma stats_in_dead:
  assumes "wf_tunnel tasks l ti" and "im_get (ti_dead_remotes ti) r = Some d"
  shows "stats_in ti r = ri_stats (dr_remote d)"
  using assms(2) wf_tunnelD(3) [OF assms] by (simp add: stats_in_def)

lemma keeps_dead_check:
  assumes "named st" and "wf_state st" and "keeps b1 b2 st0 l' r0 st"
  shows "keeps b1 b2 st0 l' r0 (dead_check_done now ok t st)"
proof (cases rule: dead_check_cases [where st = st and now = now and ok = ok and t = t])
  case (gone st')
  with keeps_same [OF assms(3)] show ?thesis by simp
next
  case (recovered l r ti d st')
  note wf = wf_stateD(4) [OF assms(2) recovered(1)]
  have m: "ri_metrics (dr_remote d) = new_RemoteMetrics"
    by (rule named_tunnelD(2) [OF namedD [OF assms(1) recovered(1)] recovered(2)])
  have "method_ok l r (ri_remote_recovered l r)" by (rule methods_ok)
  with m stats_in_dead [OF wf recovered(2)] stats_in_recovered [OF wf recovered(2)]
  have "result_ok l r0 ti (ti\<lparr>ti_dead_remotes := im_remove r (ti_dead_remotes ti),
      ti_remotes := im_insert r (fst (ri_remote_recovered l r (dr_remote d))) (ti_remotes ti)\<rparr>,
      snd (ri_remote_recovered l r (dr_remote d)))"
    by (simp add: result_ok_def method_ok_def)
  with recovered keeps_same [OF assms(3)] show ?thesis
    by (simp only: recovered(6)) (rule keeps_put; simp)
next
  case (not_there l r ti st')
  with keeps_same [OF assms(3)] show ?thesis
    by (simp only: not_there(6))
      (rule keeps_put; auto intro!: result_ok_tunnel named_tunnel_metrics namedD [OF assms(1)])
next
  case (still_dead l r ti d h st')
  note wf = wf_stateD(4) [OF assms(2) still_dead(1)] and n = namedD [OF assms(1) still_dead(1)]
  let ?res = "ti_remote_error l r ti"
  let ?rres = "ri_error now l r None (dr_remote d)"
  let ?ti = "(fst ?res)\<lparr>ti_dead_remotes := im_insert r \<lparr>dr_remote = fst ?rres, dr_join_handle = h\<rparr>
      (ti_dead_remotes ti)\<rparr>"
  have m: "ri_metrics (dr_remote d) = new_RemoteMetrics"
    by (rule named_tunnelD(2) [OF n still_dead(2)])
  have live: "im_get (ti_remotes (fst ?res)) r = None"
    using wf_tunnelD(3) [OF wf still_dead(2)] by simp
  have after: "stats_in ?ti r0 = (if r0 = r then ri_stats (fst ?rres) else stats_in ti r0)"
    using stats_in_still_dead [OF live, of "\<lparr>dr_remote = fst ?rres, dr_join_handle = h\<rparr>" r0]
    by (simp add: stats_in_methods)
  have "result_ok l r0 ti ?res" by (rule result_ok_tunnel [OF named_tunnel_metrics [OF n]])
  moreover have "method_ok l r (ri_error now l r None)" by (rule methods_ok)
  ultimately have "result_ok l r0 ti (?ti, snd ?res @ snd ?rres)"
    using m after stats_in_dead [OF wf still_dead(2)]
    by (auto simp: result_ok_def method_ok_def stats_in_methods intro: remote_step_trans tunnel_step_trans)
  with still_dead keeps_same [OF assms(3)] show ?thesis
    by (simp only: still_dead(6)) (rule keeps_put; simp)
qed

lemma metric_about_plain:
  "metric_about m A [Add m' v []] = (if m = m' \<and> A = [] then v else 0)"
  by (cases A) auto

lemma stats_in_new: "stats_in (new_TunnelInfo ch rs opts) r = default_RemoteStats"
proof -
  have "ti_dead_remotes (new_TunnelInfo ch rs opts) = []" by (simp add: new_TunnelInfo_def)
  moreover have "ri_stats new_RemoteInfo = default_RemoteStats" by (simp add: new_RemoteInfo_def)
  ultimately show ?thesis
    using new_tunnel_remotes [of ch rs opts r] by (auto simp: stats_in_def split: option.split)
qed

lemma keeps_add_tunnel:
  assumes "named st" and "keeps b1 b2 st0 l r st"
  shows "keeps b1 b2 st0 l r (snd (add_tunnel t ch st))"
proof (cases "get_tunnel st (tun_local t)")
  case (Some ti)
  with assms show ?thesis by (simp add: add_tunnel_def im_contains_key_def)
next
  case None
  let ?ti = "new_TunnelInfo ch (tun_remote t)
      (case tun_options t of Some opts \<Rightarrow> opts | None \<Rightarrow> st_default_options st)"
  have after: "snd (add_tunnel t ch st)
      = put_tunnel (tun_local t) (?ti, [Add (UpDownCounter ''number_of_tunnels'') 1 []]) st"
    using None assms(1) by (simp add: add_tunnel_def im_contains_key_def Let_def named_def)
  have "ti_stats ?ti = default_TunnelStats" by (simp add: new_TunnelInfo_def)
  then have "remote_stats_of (snd (add_tunnel t ch st)) l r = remote_stats_of st l r"
    and "tunnel_stats_of (snd (add_tunnel t ch st)) l = tunnel_stats_of st l"
    using None by (auto simp: after stats_of_put stats_in_new remote_stats_of_def tunnel_stats_of_def)
  moreover have "number_of_tunnels (snd (add_tunnel t ch st)) = Suc (number_of_tunnels st)"
    using im_length_insert_new [OF None] by (simp add: after number_of_tunnels_def put_tunnel_def)
  ultimately show ?thesis using assms(2)
    by (simp add: keeps_def remote_tracked_def tunnel_tracked_def gauge_tracked_def after
        displays_append_nothing metric_about_plain)
qed

lemma keeps_remove_tunnel:
  assumes "named st" and "wf_state st" and "keeps b1 b2 st0 l r st" and "b1 \<or> b2 \<Longrightarrow> l \<noteq> l'"
  shows "keeps b1 b2 st0 l r (snd (remove_tunnel l' st))"
proof (cases "get_tunnel st l'")
  case None
  with assms show ?thesis by (simp add: remove_tunnel_def)
next
  case (Some ti)
  let ?st = "snd (remove_tunnel l' st)"
  have wf: "im_wf (st_tunnels st)" by (rule wf_stateD(1) [OF assms(2)])
  have t: "st_tunnels ?st = im_remove l' (st_tunnels st)"
    and e: "st_emitted ?st = st_emitted st @ [Add (UpDownCounter ''number_of_tunnels'') (- 1) []]"
    using Some assms(1) abort_all_fields [of "st\<lparr>st_tunnels := im_remove l' (st_tunnels st)\<rparr>" "ti_dead_remotes ti"]
      wf_stateD(2) [OF assms(2)]
    by (simp_all add: remove_tunnel_def Let_def named_def)
  have "Suc (number_of_tunnels ?st) = number_of_tunnels st"
    using im_length_remove [OF wf] Some by (simp add: number_of_tunnels_def t)
  moreover have "l \<noteq> l' \<Longrightarrow> remote_stats_of ?st l r = remote_stats_of st l r"
    "l \<noteq> l' \<Longrightarrow> tunnel_stats_of ?st l = tunnel_stats_of st l"
    using wf by (simp_all add: remote_stats_of_def tunnel_stats_of_def t)
  ultimately show ?thesis using assms(3,4)
    by (auto simp: keeps_def remote_tracked_def tunnel_tracked_def gauge_tracked_def e
        displays_append_nothing metric_about_plain)
qed

lemma keeps_rearranged_put:
  assumes "keeps b1 b2 st0 l' r0 st" and "get_tunnel st l = Some ti"
    and "b1 \<Longrightarrow> l' = l \<Longrightarrow> stats_in ti' r0 = stats_in ti r0" and "ti_stats ti' = ti_stats ti"
  shows "keeps b1 b2 st0 l' r0 (put_tunnel l (ti', []) st)"
  using assms by (auto simp: keeps_def intro: remote_tracked_put tunnel_tracked_put gauge_tracked_put)

lemma keeps_add_remote:
  assumes "keeps b1 b2 st0 l' r0 st"
  shows "keeps b1 b2 st0 l' r0 (snd (add_remote_to_tunnel l r st))"
proof (cases "get_tunnel st l")
  case None
  with assms show ?thesis by (simp add: add_remote_to_tunnel_def)
next
  case (Some ti)
  with assms show ?thesis
    by (auto simp: add_remote_to_tunnel_def im_contains_key_def stats_in_def new_RemoteInfo_def
        intro!: keeps_rearranged_put split: option.split)
qed

lemma keeps_remove_remote:
  assumes "wf_state st" and "keeps b1 b2 st0 l' r0 st" and "b1 \<Longrightarrow> l' \<noteq> l \<or> r0 \<noteq> r"
  shows "keeps b1 b2 st0 l' r0 (snd (remove_remote_from_tunnel l r st))"
proof (cases "get_tunnel st l")
  case None
  with assms show ?thesis by (simp add: remove_remote_from_tunnel_def)
next
  case (Some ti)
  with wf_tunnelD(1,2) [OF wf_stateD(4) [OF assms(1) Some]] assms(2,3) show ?thesis
    by (auto simp: remove_remote_from_tunnel_def stats_in_def
        intro!: keeps_rearranged_put split: option.split)
qed

text \<open>
  The operations that discard the statistics of a remote: closing its tunnel, removing it, and
  a connection error whose options have no valid timeout.
\<close>

fun discards_remote :: "SocketSpec \<Rightarrow> SocketSpec \<Rightarrow> op \<Rightarrow> bool" where
  "discards_remote l r (RemoveTunnel l') \<longleftrightarrow> l' = l"
| "discards_remote l r (RemoveRemote l' r') \<longleftrightarrow> l' = l \<and> r' = r"
| "discards_remote l r (RemoteErr now l' r' c opts) \<longleftrightarrow>
     l' = l \<and> r' = r \<and> duration_from_secs_f32 (ro_connect_timeout opts) = None"
| "discards_remote l r _ \<longleftrightarrow> False"

lemma keeps_exec_op:
  assumes "named st" and "wf_state st" and "b1 \<Longrightarrow> \<not> discards_remote l r x" and "b2 \<Longrightarrow> x \<noteq> RemoveTunnel l"
  shows "keeps b1 b2 st l r (exec_op x st)"
proof (cases x)
  case (AddTunnel t ch)
  with keeps_add_tunnel [OF assms(1) keeps_refl] show ?thesis by simp
next
  case (RemoveTunnel l')
  with keeps_remove_tunnel [OF assms(1,2) keeps_refl, of b1 b2 l l' r] assms(3,4) show ?thesis by auto
next
  case (AddRemote l' r')
  with keeps_add_remote [OF keeps_refl] show ?thesis by simp
next
  case (RemoveRemote l' r')
  with keeps_remove_remote [OF assms(2) keeps_refl, of b1 l l' r r' b2] assms(3) show ?thesis by auto
next
  case (SelectRemote rnd l')
  with keeps_select [OF assms(1) keeps_refl] show ?thesis by (auto split: option.split)
next
  case (RemoteErr now l' r' c opts)
  with keeps_remote_error [OF assms(1,2) keeps_refl, of b1 l l' r r' opts b2 now c] assms(3) show ?thesis
    by auto
next
  case (DeadCheckDone now ok t)
  with keeps_dead_check [OF assms(1,2) keeps_refl] show ?thesis by simp
qed (use keeps_client_ops [OF assms(1) keeps_refl] in simp_all)

lemma keeps_run_ops:
  assumes "named st" and "wf_state st"
    and "b1 \<Longrightarrow> \<forall>x \<in> set ops. \<not> discards_remote l r x" and "b2 \<Longrightarrow> RemoveTunnel l \<notin> set ops"
  shows "keeps b1 b2 st l r (run_ops ops st)"
  using assms
proof (induction ops arbitrary: st)
  case Nil
  then show ?case by (simp add: run_ops_def)
next
  case (Cons x ops)
  have "keeps b1 b2 st l r (exec_op x st)"
    by (rule keeps_exec_op [OF Cons.prems(1,2)]) (use Cons.prems(3,4) in auto)
  moreover have "keeps b1 b2 (exec_op x st) l r (run_ops ops (exec_op x st))"
    by (rule Cons.IH [OF named_exec_op [OF Cons.prems(1,2)] wf_exec_op [OF Cons.prems(2)]])
      (use Cons.prems(3,4) in auto)
  ultimately show ?case by (auto simp: keeps_def run_ops_def)
qed

lemma new_State_tracked:
  assumes "new_State args opts c = Inr st"
  shows "named st" and "remote_tracked st l r" and "tunnel_tracked st l" and "gauge_tracked st"
proof -
  have "displays (remote_readings default_RemoteStats) A []"
    "displays (tunnel_readings default_TunnelStats) A []" for A
    by (simp_all add: display_simps default_RemoteStats_def default_TunnelStats_def)
  with assms show "named st" and "remote_tracked st l r" and "tunnel_tracked st l" and "gauge_tracked st"
    by (auto simp: new_State_def named_def remote_tracked_def tunnel_tracked_def gauge_tracked_def
        remote_stats_of_def tunnel_stats_of_def number_of_tunnels_def split: sum.splits)
qed

text \<open>
  C7: however the operations of the state are called, as long as a remote is not removed and its
  tunnel is not closed, each of its seven metrics shows exactly (modulo 2^64) the field of the
  same meaning of its statistics, while it is live, while it is dead, and when it is live again.
\<close>

theorem remote_metrics_show_statistics:
  assumes "new_State args opts c = Inr st" and "\<forall>x \<in> set ops. \<not> discards_remote l r x"
  shows "displays (remote_readings (remote_stats_of (run_ops ops st) l r)) (of_remote l r)
           (st_emitted (run_ops ops st))"
  using keeps_run_ops [of st True ops l r False] new_State_tracked [OF assms(1)] wf_new_State [OF assms(1)]
    assms(2)
  by (auto simp: keeps_def remote_tracked_def)

theorem remote_metrics_show_statistics_witness:
  "\<exists>st. st = run_ops (failed_ops @ [DeadCheckDone 9 False 0, DeadCheckDone 12 True 1]) boot
    \<and> displays (remote_readings (remote_stats_of st here near)) (of_remote here near) (st_emitted st)
    \<and> of_int (metric_about (Counter ''retote_total_error'') (of_remote here near) (st_emitted st))
        = rs_total_errors (remote_stats_of st here near)"
proof -
  let ?ops = "failed_ops @ [DeadCheckDone 9 False 0, DeadCheckDone 12 True 1]"
  have "\<forall>x \<in> set ?ops. \<not> discards_remote here near x"
    by (simp add: failed_ops_def strict_options_def duration_ten)
  from remote_metrics_show_statistics [OF new_boot this] show ?thesis
    by (simp add: displays_def remote_readings_def)
qed

lemma tunnels_metric_exact:
  assumes "new_State args opts c = Inr st"
  shows "metric_about (UpDownCounter ''number_of_tunnels'') [] (st_emitted (run_ops ops st))
    = int (number_of_tunnels (run_ops ops st))"
  using keeps_run_ops [of st False ops undefined undefined False] new_State_tracked [OF assms]
    wf_new_State [OF assms]
  by (auto simp: keeps_def gauge_tracked_def)

text \<open>
  C26: however the operations of the state are called, failed ones included, the metric
  \<open>number_of_tunnels\<close> is the number of open tunnels; and as long as a tunnel is not closed, its
  metrics of connections, open streams and errors show exactly the statistics, but the bytes
  received are counted as sent: \<open>tunnel_bytes_sent\<close> shows the sum of both and
  \<open>tunnel_bytes_received\<close> never leaves zero.
\<close>

theorem tunnel_metrics_show_statistics:
  assumes "new_State args opts c = Inr st"
  shows "metric_about (UpDownCounter ''number_of_tunnels'') [] (st_emitted (run_ops ops st))
      = int (number_of_tunnels (run_ops ops st))
    \<and> (RemoveTunnel l \<notin> set ops \<longrightarrow>
        displays (tunnel_readings (tunnel_stats_of (run_ops ops st) l)) (of_tunnel l)
          (st_emitted (run_ops ops st)))"
  using keeps_run_ops [of st False ops l undefined True] new_State_tracked [OF assms]
    wf_new_State [OF assms] tunnels_metric_exact [OF assms]
  by (auto simp: keeps_def tunnel_tracked_def)

theorem tunnel_metrics_show_statistics_witness:
  "\<exists>st. st = run_ops [AddTunnel example_tunnel 7, ClientConnected here, UpdateTransferred here near False 5] boot
    \<and> metric_about (UpDownCounter ''number_of_tunnels'') [] (st_emitted st) = int (number_of_tunnels st)
    \<and> of_int (metric_about (Counter ''tunnel_bytes_sent'') (of_tunnel here) (st_emitted st))
        = ts_bytes_sent (tunnel_stats_of st here) + ts_bytes_received (tunnel_stats_of st here)"
proof -
  let ?ops = "[AddTunnel example_tunnel 7, ClientConnected here, UpdateTransferred here near False 5]"
  have "RemoveTunnel here \<notin> set ?ops" by simp
  with tunnel_metrics_show_statistics [OF new_boot, of ?ops here] show ?thesis
    by (simp add: displays_def tunnel_readings_def)
qed

end
