(* ===== verification/Supervision.thy ===== *)
theory Supervision
  imports Telemetry
begin

text \<open>
  Which checks of dead remotes are pending (\<open>check_dead\<close> and the handles of \<open>src/state.rs\<close>): as
  long as a remote is not removed while it is dead, exactly one while it is dead and none
  otherwise, and its handle is the one stored with the remote, so that closing the tunnel ends the
  check. Removing a dead remote breaks this, since its check goes on; what follows when the remote is
  added and fails again is proved for any state.
\<close>

text \<open>The handle stored with a dead remote.\<close>

definition check_of :: "State \<Rightarrow> SocketSpec \<Rightarrow> SocketSpec \<Rightarrow> task_id option" where
  "check_of st l r =
     Option.bind (get_tunnel st l) (\<lambda>ti. Option.bind (im_get (ti_dead_remotes ti) r) dr_join_handle)"

definition checks :: "dead_check \<Rightarrow> SocketSpec \<Rightarrow> SocketSpec \<Rightarrow> bool" where
  "checks dc l r \<longleftrightarrow> dc_local dc = l \<and> dc_remote dc = r"

definition owned :: "SocketSpec \<Rightarrow> SocketSpec \<Rightarrow> State \<Rightarrow> bool" where
  "owned l r st \<longleftrightarrow>
     (\<forall>t dc. im_get (st_tasks st) t = Some dc \<and> checks dc l r \<longrightarrow> check_of st l r = Some t)"

lemma ownedD:
  "owned l r st \<Longrightarrow> im_get (st_tasks st) t = Some dc \<Longrightarrow> checks dc l r \<Longrightarrow> check_of st l r = Some t"
  by (simp add: owned_def)

text \<open>An operation that leaves the remote alone and schedules no check of it.\<close>

lemma owned_keep:
  assumes "owned l r st" and "check_of st' l r = check_of st l r"
    and "\<And>t dc. im_get (st_tasks st') t = Some dc \<Longrightarrow> checks dc l r \<Longrightarrow> im_get (st_tasks st) t = Some dc"
  shows "owned l r st'"
  using assms by (auto simp: owned_def)

lemma check_of_put:
  "check_of (put_tunnel l' res st) l r =
     (if l = l' then Option.bind (im_get (ti_dead_remotes (fst res)) r) dr_join_handle else check_of st l r)"
  by (simp add: check_of_def)

lemma check_of_at:
  "get_tunnel st l = Some ti \<Longrightarrow> check_of st l r = Option.bind (im_get (ti_dead_remotes ti) r) dr_join_handle"
  by (simp add: check_of_def)

lemma owned_put:
  assumes "owned l r st" and "get_tunnel st l' = Some ti"
    and "im_get (ti_dead_remotes (fst res)) r = im_get (ti_dead_remotes ti) r \<or> l \<noteq> l'"
  shows "owned l r (put_tunnel l' res st)"
  using assms(2,3) by (intro owned_keep [OF assms(1)]) (auto simp: check_of_put check_of_at)

lemma owned_client_ops:
  assumes "owned l r st"
  shows "owned l r (client_connected l' st)" and "owned l r (remote_connected l' r' st)"
    and "owned l r (update_transferred l' r' sent n st)" and "owned l r (client_disconnected l' r'' st)"
  using assms
  by (auto simp: client_connected_def remote_connected_def update_transferred_def
      client_disconnected_def split: option.split intro: owned_put [OF assms])

lemma owned_select:
  assumes "owned l r st" and "select_remote rnd l' st = Some (res, st')"
  shows "owned l r st'"
proof (cases "get_tunnel st l'")
  case None
  with assms show ?thesis by (simp add: select_remote_def)
next
  case (Some ti)
  with assms show ?thesis
    by (cases rule: ti_select_remote_cases [of ti rnd])
      (auto simp: select_remote_def im_contains_key_def intro: owned_put [OF assms(1) Some])
qed

lemma owned_remote_error:
  assumes "owned l r st" and "wf_state st"
  shows "owned l r (outcome_state (remote_error now l' r' c opts st))"
proof (cases rule: remote_error_cases [where st = st and l = l' and now = now and r = r' and c = c and opts = opts])
  case (died ti res rec timeout)
  have dead: "ti_dead_remotes (fst res) = ti_dead_remotes ti" by (simp add: died(2))
  let ?new = "outcome_state (remote_error now l' r' c opts st)"
  define dc where "dc = \<lparr>dc_local = l', dc_remote = r', dc_timeout = timeout, dc_after = 10000000000,
      dc_tls_config = tls_config opts st\<rparr>"
  then have tasks: "im_get (st_tasks ?new) = (im_get (st_tasks st))(st_next_task st \<mapsto> dc)"
    and dc: "checks dc l' r'"
    by (simp_all add: died(4) checks_def)
  show ?thesis
  proof (cases "l = l' \<and> r = r'")
    case True
    have "im_get (ti_remotes ti) r' \<noteq> None" using died(2,3) by auto
    then have "im_get (ti_dead_remotes ti) r' = None"
      using wf_tunnelD(4) [OF wf_stateD(4) [OF assms(2) died(1)]] by auto
    with True died(1) have "check_of st l r = None" by (simp add: check_of_def)
    with ownedD [OF assms(1)] have none: "\<not> checks dc l r" if "im_get (st_tasks st) t = Some dc" for t dc
      using that by fastforce
    moreover have "check_of ?new l r = Some (st_next_task st)" using True by (simp add: died(4) check_of_put)
    ultimately show ?thesis by (simp add: owned_def tasks)
  next
    case False
    then have "check_of ?new l r = check_of st l r"
      using died(1) by (cases "l = l'") (auto simp: died(4) check_of_def dead im_get_insert)
    moreover have "im_get (st_tasks st) t = Some dc'"
      if "im_get (st_tasks ?new) t = Some dc'" and "checks dc' l r" for t dc'
      using that False dc by (auto simp: tasks checks_def split: if_splits)
    ultimately show ?thesis by (rule owned_keep [OF assms(1)])
  qed
next
  case (lost ti res)
  have "owned l r (put_tunnel l' res st)" by (rule owned_put [OF assms(1) lost(1)]) (simp add: lost(3))
  then show ?thesis unfolding lost(4) by (rule owned_put [where ti = "fst res"]) auto
qed (use assms in \<open>auto intro: owned_put\<close>)

lemma owned_add_tunnel:
  assumes "owned l r st"
  shows "owned l r (snd (add_tunnel t ch st))"
  by (rule owned_keep [OF assms])
    (auto simp: add_tunnel_def im_contains_key_def Let_def check_of_def new_TunnelInfo_def split: if_splits)

lemma remove_tunnel_tasks:
  assumes "wf_state st" and "get_tunnel st l = Some ti"
  shows "im_get (st_tasks (snd (remove_tunnel l st))) t =
    (if Some t \<in> (dr_join_handle \<circ> snd) ` set (ti_dead_remotes ti) then None else im_get (st_tasks st) t)"
  using abort_all_fields [of "st\<lparr>st_tunnels := im_remove l (st_tunnels st)\<rparr>" "ti_dead_remotes ti"]
    wf_stateD(2) [OF assms(1)] by (simp add: remove_tunnel_def Let_def assms(2))

lemma owned_remove_tunnel:
  assumes "owned l r st" and "wf_state st"
  shows "owned l r (snd (remove_tunnel l' st))"
proof (cases "get_tunnel st l'")
  case None
  with assms show ?thesis by (simp add: remove_tunnel_def)
next
  case (Some ti)
  let ?st = "snd (remove_tunnel l' st)"
  have tasks: "im_get (st_tasks ?st) t =
      (if Some t \<in> (dr_join_handle \<circ> snd) ` set (ti_dead_remotes ti) then None else im_get (st_tasks st) t)" for t
    by (rule remove_tunnel_tasks [OF assms(2) Some])
  have stays: "check_of ?st l r = check_of st l r" if "l \<noteq> l'"
    using that by (simp add: check_of_def remove_tunnel_lookup [OF assms(2)])
  have ended: "im_get (st_tasks ?st) t = None" if "l = l'" and "check_of st l r = Some t" for t
  proof -
    from that Some obtain d where "(r, d) \<in> set (ti_dead_remotes ti)" and "dr_join_handle d = Some t"
      by (auto simp: check_of_def bind_eq_Some_conv dest: map_of_SomeD)
    then have "Some t \<in> (dr_join_handle \<circ> snd) ` set (ti_dead_remotes ti)"
      by (metis comp_apply image_eqI snd_conv)
    then show ?thesis by (simp add: tasks)
  qed
  have old: "im_get (st_tasks st) t = Some dc" if "im_get (st_tasks ?st) t = Some dc" for t dc
    using that by (simp add: tasks split: if_splits)
  show ?thesis
    unfolding owned_def using ownedD [OF assms(1)] old stays ended by (metis option.distinct(1))
qed

lemma owned_remove_remote:
  assumes "owned l r st" and "wf_state st" and "(l', r') = (l, r) \<Longrightarrow> check_of st l r = None"
  shows "owned l r (snd (remove_remote_from_tunnel l' r' st))"
proof (rule owned_keep [OF assms(1)])
  show "check_of (snd (remove_remote_from_tunnel l' r' st)) l r = check_of st l r"
  proof (cases "get_tunnel st l'")
    case None
    then show ?thesis by (simp add: remove_remote_from_tunnel_def)
  next
    case (Some ti)
    with assms(3) wf_tunnelD(2) [OF wf_stateD(4) [OF assms(2) Some]] show ?thesis
      by (auto simp: remove_remote_from_tunnel_def check_of_def split: option.split)
  qed
qed (auto simp: remove_remote_from_tunnel_def split: option.splits)

text \<open>A check ends: the check of another remote leaves this one alone.\<close>

lemma owned_dead_check:
  assumes "owned l r st" and "wf_state st"
  shows "owned l r (dead_check_done now ok t st)"
proof (cases "im_get (st_tasks st) t")
  case None
  with assms show ?thesis by (simp add: dead_check_done_def)
next
  case dc: (Some dc)
  let ?st = "dead_check_done now ok t st"
  note tasks = end_task_fields(2) [OF assms(2), of t]
  show ?thesis
  proof (cases "checks dc l r")
    case True
    from ownedD [OF assms(1) dc True] obtain ti d where ti: "get_tunnel st l = Some ti"
      and d: "im_get (ti_dead_remotes ti) r = Some d"
      by (auto simp: check_of_def bind_eq_Some_conv)
    have only: "\<not> checks dc' l r" if "im_get (st_tasks st) t' = Some dc'" and "t' \<noteq> t" for t' dc'
      using ownedD [OF assms(1) dc True] ownedD [OF assms(1) that(1)] that(2) by auto
    have "dc_local dc = l" "dc_remote dc = r" using True by (simp_all add: checks_def)
    with ti d dc tasks only show ?thesis
      by (cases ok) (auto simp: dead_check_done_def Let_def case_prod_beta owned_def check_of_put
          split: if_splits)
  next
    case False
    have "check_of ?st l r = check_of st l r"
    proof (cases "get_tunnel st (dc_local dc)")
      case None
      with dc show ?thesis by (simp add: dead_check_done_def check_of_def)
    next
      case (Some ti)
      with False dc wf_tunnelD(2) [OF wf_stateD(4) [OF assms(2) Some]] show ?thesis
        by (auto simp: dead_check_done_def Let_def case_prod_beta check_of_def checks_def im_get_insert
            split: option.split)
    qed
    moreover have "im_get (st_tasks st) t' = Some dc'"
      if "im_get (st_tasks ?st) t' = Some dc'" and "checks dc' l r" for t' dc'
      using that False dc tasks
      by (auto simp: dead_check_done_def Let_def case_prod_beta checks_def split: option.splits if_splits)
    ultimately show ?thesis by (rule owned_keep [OF assms(1)])
  qed
qed

text \<open>The remote is removed by hand at a moment when it is dead.\<close>

fun removed_while_dead :: "SocketSpec \<Rightarrow> SocketSpec \<Rightarrow> op list \<Rightarrow> State \<Rightarrow> bool" where
  "removed_while_dead l r [] st \<longleftrightarrow> False"
| "removed_while_dead l r (x # ops) st \<longleftrightarrow>
     (case x of RemoveRemote l' r' \<Rightarrow> l' = l \<and> r' = r \<and> check_of st l r \<noteq> None | _ \<Rightarrow> False)
     \<or> removed_while_dead l r ops (exec_op x st)"

lemma owned_exec_op:
  assumes "owned l r st" and "wf_state st" and "\<not> removed_while_dead l r [x] st"
  shows "owned l r (exec_op x st)"
proof (cases x)
  case (AddRemote l' r')
  with assms(1) show ?thesis
    by (auto simp: add_remote_to_tunnel_def split: option.split intro: owned_put)
next
  case (RemoveRemote l' r')
  with assms show ?thesis by (auto intro: owned_remove_remote)
qed (use assms owned_client_ops owned_select owned_remote_error owned_dead_check owned_add_tunnel
      owned_remove_tunnel in \<open>auto split: option.split\<close>)

lemma owned_run_ops:
  assumes "owned l r st" and "wf_state st" and "\<not> removed_while_dead l r ops st"
  shows "owned l r (run_ops ops st)"
  using assms
proof (induction ops arbitrary: st)
  case (Cons x ops)
  have "owned l r (exec_op x st)" by (rule owned_exec_op [OF Cons.prems(1,2)]) (use Cons.prems(3) in simp)
  from Cons.IH [OF this wf_exec_op [OF Cons.prems(2)]] Cons.prems(3) show ?case by (simp add: run_ops_def)
qed (simp add: run_ops_def)

text \<open>
  C8: as long as a remote is not removed while it is dead, its pending checks are exactly the one
  whose handle is stored with it: one while it is dead, none while it is live, unknown, or its
  tunnel is closed, whatever happens to other remotes and tunnels.
\<close>

theorem checks_are_of_dead_remotes:
  assumes "new_State args opts c = Inr st" and "\<not> removed_while_dead l r ops st"
  shows "(\<exists>dc. im_get (st_tasks (run_ops ops st)) t = Some dc \<and> dc_local dc = l \<and> dc_remote dc = r)
    \<longleftrightarrow> check_of (run_ops ops st) l r = Some t"
proof
  have "owned l r st" using assms(1) by (auto simp: new_State_def owned_def split: sum.splits)
  from owned_run_ops [OF this wf_new_State [OF assms(1)] assms(2)]
  show "\<exists>dc. im_get (st_tasks (run_ops ops st)) t = Some dc \<and> dc_local dc = l \<and> dc_remote dc = r
      \<Longrightarrow> check_of (run_ops ops st) l r = Some t"
    by (auto simp: owned_def checks_def)
next
  assume "check_of (run_ops ops st) l r = Some t"
  then obtain ti d where ti: "get_tunnel (run_ops ops st) l = Some ti"
    and d: "im_get (ti_dead_remotes ti) r = Some d" "dr_join_handle d = Some t"
    by (auto simp: check_of_def bind_eq_Some_conv)
  from wf_tunnelD(5) [OF wf_stateD(4) [OF run_ops_new_wf [OF assms(1)] ti] d(1)] d(2)
  show "\<exists>dc. im_get (st_tasks (run_ops ops st)) t = Some dc \<and> dc_local dc = l \<and> dc_remote dc = r"
    by (auto simp: supervised_def)
qed

theorem checks_are_of_dead_remotes_witness:
  "\<exists>ti d. get_tunnel (run_ops failed_ops boot) here = Some ti
     \<and> im_get (ti_dead_remotes ti) near = Some d \<and> dr_join_handle d = Some 0"
proof -
  have "\<not> removed_while_dead here near failed_ops boot" by (simp add: failed_ops_def)
  from checks_are_of_dead_remotes [OF new_boot this, of 0] failed_dead(2) show ?thesis
    by (auto simp: check_of_def bind_eq_Some_conv)
qed

subsection \<open>Removing a dead remote\<close>

text \<open>A task is a check of a remote; the consecutive errors of a dead remote.\<close>

definition is_check :: "task_id \<Rightarrow> SocketSpec \<Rightarrow> SocketSpec \<Rightarrow> State \<Rightarrow> bool" where
  "is_check t l r st \<longleftrightarrow> (case im_get (st_tasks st) t of None \<Rightarrow> False | Some dc \<Rightarrow> checks dc l r)"

definition dead_errors :: "State \<Rightarrow> SocketSpec \<Rightarrow> SocketSpec \<Rightarrow> u64 option" where
  "dead_errors st l r = Option.bind (get_tunnel st l)
     (\<lambda>ti. map_option (\<lambda>d. rs_num_errors (ri_stats (dr_remote d))) (im_get (ti_dead_remotes ti) r))"

lemma is_check_fresh: "wf_state st \<Longrightarrow> is_check t l r st \<Longrightarrow> t \<noteq> st_next_task st"
  using wf_stateD(3) [of st] by (auto simp: is_check_def)

text \<open>A check of a dead remote that fails is replaced by a new one, and counts an error.\<close>

lemma check_fails:
  assumes "wf_state st" and "is_check t l r st" and "dead_errors st l r = Some n"
  shows "dead_errors (dead_check_done now False t st) l r = Some (n + 1)"
    and "is_check (st_next_task st) l r (dead_check_done now False t st)"
    and "st_next_task (dead_check_done now False t st) = Suc (st_next_task st)"
    and "t' \<noteq> t \<Longrightarrow> is_check t' l' r' st \<Longrightarrow> is_check t' l' r' (dead_check_done now False t st)"
proof -
  from assms(2) obtain dc where dc: "im_get (st_tasks st) t = Some dc" and lr: "dc_local dc = l" "dc_remote dc = r"
    by (auto simp: is_check_def checks_def split: option.splits)
  from assms(3) obtain ti d where ti: "get_tunnel st l = Some ti" and d: "im_get (ti_dead_remotes ti) r = Some d"
    and n: "rs_num_errors (ri_stats (dr_remote d)) = n"
    by (auto simp: dead_errors_def bind_eq_Some_conv)
  from dead_check_reschedules [OF assms(1) dc, of ti d now] lr ti d obtain ti' d' where
    new: "get_tunnel (dead_check_done now False t st) l = Some ti'" "im_get (ti_dead_remotes ti') r = Some d'"
      "rs_num_errors (ri_stats (dr_remote d')) = n + 1"
    and tasks: "im_get (st_tasks (dead_check_done now False t st))
      = (im_get (st_tasks st))(t := None, st_next_task st \<mapsto> dc)"
    using n by auto
  show "dead_errors (dead_check_done now False t st) l r = Some (n + 1)" by (simp add: dead_errors_def new)
  show "is_check (st_next_task st) l r (dead_check_done now False t st)"
    using lr by (simp add: is_check_def checks_def tasks)
  show "st_next_task (dead_check_done now False t st) = Suc (st_next_task st)"
    using dc lr ti d by (simp add: dead_check_done_def Let_def case_prod_beta)
  show "t' \<noteq> t \<Longrightarrow> is_check t' l' r' st \<Longrightarrow> is_check t' l' r' (dead_check_done now False t st)"
    using is_check_fresh [OF assms(1), of t' l' r'] by (auto simp: is_check_def tasks split: option.splits)
qed

text \<open>Closing a tunnel ends the stored check of a remote, and no other check of it.\<close>

lemma closing_ends:
  assumes "wf_state st" and "check_of st l r = Some t1" and "is_check t l r st"
  shows "is_check t l r (snd (remove_tunnel l st)) \<longleftrightarrow> t \<noteq> t1"
proof -
  from assms(2) obtain ti d1 where ti: "get_tunnel st l = Some ti"
    and d1: "im_get (ti_dead_remotes ti) r = Some d1" "dr_join_handle d1 = Some t1"
    by (auto simp: check_of_def bind_eq_Some_conv)
  note wf = wf_stateD(4) [OF assms(1) ti]
  have "Some t \<in> (dr_join_handle \<circ> snd) ` set (ti_dead_remotes ti) \<longleftrightarrow> t = t1"
  proof
    assume "Some t \<in> (dr_join_handle \<circ> snd) ` set (ti_dead_remotes ti)"
    then obtain r' d' where rd: "(r', d') \<in> set (ti_dead_remotes ti)" and h: "dr_join_handle d' = Some t" by auto
    from rd have get: "im_get (ti_dead_remotes ti) r' = Some d'"
      using wf_tunnelD(2) [OF wf] by (simp add: im_wf_def)
    from wf_tunnelD(5) [OF wf this] h assms(3) have "r' = r"
      by (auto simp: supervised_def is_check_def checks_def)
    with get d1 h show "t = t1" by simp
  next
    assume "t = t1"
    with d1 show "Some t \<in> (dr_join_handle \<circ> snd) ` set (ti_dead_remotes ti)"
      by (force dest: map_of_SomeD)
  qed
  with remove_tunnel_tasks [OF assms(1) ti, of t] assms(3) show ?thesis by (simp add: is_check_def)
qed

lemma removed_added_failed:
  assumes wf: "wf_state st" and ti: "get_tunnel st l = Some ti"
    and d: "im_get (ti_dead_remotes ti) r = Some d" "dr_join_handle d = Some t0"
    and timeout: "duration_from_secs_f32 (ro_connect_timeout opts) \<noteq> None"
    and dies: "ro_errors_till_dead opts \<le> 1"
    and st1: "st1 = run_ops [RemoveRemote l r, AddRemote l r, RemoteErr now l r c opts] st"
  shows "is_check t0 l r st1" and "is_check (st_next_task st) l r st1" and "check_of st1 l r = Some (st_next_task st)"
    and "st_next_task st1 = Suc (st_next_task st)" and "dead_errors st1 l r = Some 1" and "t0 \<noteq> st_next_task st"
proof -
  note wft = wf_stateD(4) [OF wf ti]
  have old: "is_check t0 l r st"
    using wf_tunnelD(5) [OF wft d(1)] d(2) by (auto simp: supervised_def is_check_def checks_def)
  from is_check_fresh [OF wf this] show ne: "t0 \<noteq> st_next_task st" .
  define st0 where "st0 = run_ops [RemoveRemote l r, AddRemote l r] st"
  let ?ti = "ti\<lparr>ti_dead_remotes := im_remove r (ti_dead_remotes ti), ti_remotes := im_insert r new_RemoteInfo (ti_remotes ti)\<rparr>"
  have ti0: "get_tunnel st0 l = Some ?ti" and same: "st_tasks st0 = st_tasks st" "st_next_task st0 = st_next_task st"
    using wf_tunnelD(3) [OF wft d(1)] wf_tunnelD(2) [OF wft] ti d(1)
    by (simp_all add: st0_def run_ops_def remove_remote_from_tunnel_def add_remote_to_tunnel_def im_contains_key_def)
  have wf0: "wf_state st0" unfolding st0_def by (rule wf_run_ops [OF wf])
  from timeout obtain u where u: "duration_from_secs_f32 (ro_connect_timeout opts) = Some u" by blast
  have ri: "im_get (ti_remotes ?ti) r = Some new_RemoteInfo" by simp
  have "rs_num_errors (ri_stats new_RemoteInfo) = 0" by (simp add: new_RemoteInfo_def default_RemoteStats_def)
  with failed_attempt [OF wf0 ti0 ri u, of now c] dies obtain st' ti' where
    err: "remote_error now l r c opts st0 = Done st'" and ti': "get_tunnel st' l = Some ti'"
    and dead: "im_get (ti_dead_remotes ti') r = Some \<lparr>dr_remote = new_RemoteInfo\<lparr>ri_stats :=
        failed_stats now (ri_stats new_RemoteInfo)\<rparr>, dr_join_handle = Some (st_next_task st)\<rparr>"
    and tasks: "im_get (st_tasks st') = (im_get (st_tasks st)) (st_next_task st \<mapsto>
        \<lparr>dc_local = l, dc_remote = r, dc_timeout = u, dc_after = 10000000000, dc_tls_config = tls_config opts st0\<rparr>)"
    and t: "st_next_task st' = Suc (st_next_task st)"
    by (auto simp: Let_def same)
  have "st1 = st'" using err by (simp add: st1 st0_def run_ops_def)
  with old ne tasks ti' dead t \<open>rs_num_errors (ri_stats new_RemoteInfo) = 0\<close>
  show "is_check t0 l r st1" "is_check (st_next_task st) l r st1" "check_of st1 l r = Some (st_next_task st)"
    "st_next_task st1 = Suc (st_next_task st)" "dead_errors st1 l r = Some 1"
    by (simp_all add: is_check_def checks_def check_of_def dead_errors_def failed_stats_def)
qed

text \<open>
  C39: removing a dead remote does not end its check. If the remote is added again and the first
  failed attempt to connect to it moves it to the dead ones again, two checks of it are pending.
  When both fail, two new checks take their place and both errors are counted, so that its
  consecutive errors grow twice as fast. Closing the tunnel ends only the check whose handle is
  stored; the other goes on, and when it fails it counts an error for whatever tunnel has been opened
  under the same address in between.
\<close>

theorem readded_remote_is_checked_twice:
  assumes wf: "wf_state st" and ti: "get_tunnel st l = Some ti"
    and d: "im_get (ti_dead_remotes ti) r = Some d" "dr_join_handle d = Some t0"
    and timeout: "duration_from_secs_f32 (ro_connect_timeout opts) \<noteq> None"
    and dies: "ro_errors_till_dead opts \<le> 1"
    and st1: "st1 = run_ops [RemoveRemote l r, AddRemote l r, RemoteErr now l r c opts] st"
    and t1: "t1 = st_next_task st"
  shows "t0 \<noteq> t1 \<and> is_check t0 l r st1 \<and> is_check t1 l r st1 \<and> dead_errors st1 l r = Some 1
    \<and> (let st2 = run_ops [DeadCheckDone n0 False t0, DeadCheckDone n1 False t1] st1
       in is_check (Suc t1) l r st2 \<and> is_check (Suc (Suc t1)) l r st2 \<and> dead_errors st2 l r = Some 3)
    \<and> (let st3 = run_ops [RemoveTunnel l] st1 in is_check t0 l r st3 \<and> \<not> is_check t1 l r st3)
    \<and> (tun_local t = l \<longrightarrow>
        map_option (\<lambda>ti. ts_errors (ti_stats ti))
          (get_tunnel (run_ops [RemoveTunnel l, AddTunnel t ch, DeadCheckDone n0 False t0] st1) l) = Some 1)"
proof -
  note twice = removed_added_failed [OF wf ti d timeout dies st1, folded t1]
  have wf1: "wf_state st1" unfolding st1 by (rule wf_run_ops [OF wf])
  let ?a = "dead_check_done n0 False t0 st1"
  note a = check_fails [OF wf1 twice(1,5), where now = n0]
  have wfa: "wf_state ?a" by (rule wf_dead_check_done [OF wf1])
  have t1a: "is_check t1 l r ?a" by (rule a(4)) (use twice in auto)
  note b = check_fails [OF wfa t1a a(1), where now = n1]
  have "is_check (Suc t1) l r (dead_check_done n1 False t1 ?a)"
    by (rule b(4)) (use a(2) twice(4) in simp_all)
  then have two: "is_check (Suc t1) l r (dead_check_done n1 False t1 ?a)"
    "is_check (Suc (Suc t1)) l r (dead_check_done n1 False t1 ?a)"
    "dead_errors (dead_check_done n1 False t1 ?a) l r = Some 3"
    using b(1,2) a(3) twice(4) by simp_all
  let ?c = "snd (remove_tunnel l st1)"
  have left: "is_check t0 l r ?c" "\<not> is_check t1 l r ?c"
    using closing_ends [OF wf1 twice(3)] twice(1,2,6) by simp_all
  have late: "map_option (\<lambda>ti. ts_errors (ti_stats ti))
      (get_tunnel (dead_check_done n0 False t0 (snd (add_tunnel t ch ?c))) l) = Some 1" if "tun_local t = l"
  proof -
    have "get_tunnel ?c l = None" by (simp add: remove_tunnel_lookup [OF wf1])
    with left(1) that show ?thesis
      by (auto simp: is_check_def checks_def dead_check_done_def add_tunnel_def im_contains_key_def Let_def
          new_TunnelInfo_def default_TunnelStats_def ti_remote_error_def split: option.splits)
  qed
  show ?thesis using twice(1,2,5,6) two left late by (simp add: run_ops_def Let_def)
qed

text \<open>The remote that is dead in the examples.\<close>

theorem readded_remote_is_checked_twice_witness:
  "let st1 = run_ops [RemoveRemote here near, AddRemote here near,
       RemoteErr 6 here near ''client:9'' strict_options] failed
   in is_check 0 here near st1 \<and> is_check 1 here near st1
     \<and> dead_errors (run_ops [DeadCheckDone 9 False 0, DeadCheckDone 10 False 1] st1) here near = Some 3"
proof -
  define st1 where "st1 = run_ops [RemoveRemote here near, AddRemote here near,
       RemoteErr 6 here near ''client:9'' strict_options] failed"
  have "st_next_task failed = 1" unfolding failed_def by code_simp
  moreover have "check_of failed here near = Some 0" unfolding failed_def by code_simp
  then have "dr_join_handle failed_remote = Some 0" by (simp add: check_of_def failed_lookups)
  moreover have "duration_from_secs_f32 (ro_connect_timeout strict_options) \<noteq> None"
    "ro_errors_till_dead strict_options \<le> 1" by code_simp+
  ultimately show ?thesis
    using readded_remote_is_checked_twice [OF failed_lookups(1-3) _ _ _ st1_def refl, of 0 9 10]
    by (simp add: Let_def st1_def)
qed

text \<open>A remote that is dead is removed, added again, and fails again.\<close>

definition readded_ops :: "op list" where
  "readded_ops = failed_ops @ [RemoveRemote here near, AddRemote here near, SelectRemote 0 here,
     RemoteErr 6 here near ''client:9'' strict_options]"

definition pending_checks :: "State \<Rightarrow> (task_id \<times> SocketSpec \<times> SocketSpec) list" where
  "pending_checks st = map (\<lambda>(t, dc). (t, dc_local dc, dc_remote dc)) (st_tasks st)"

lemma readded_run:
  "pending_checks (run_ops readded_ops boot) = [(0, here, near), (1, here, near)]
   \<and> pending_checks (run_ops (readded_ops @ [DeadCheckDone 9 False 0, DeadCheckDone 10 False 1]) boot)
       = [(2, here, near), (3, here, near)]
   \<and> pending_checks (run_ops (readded_ops @ [RemoveTunnel here]) boot) = [(0, here, near)]
   \<and> map_option (ts_errors \<circ> ti_stats)
       (get_tunnel (run_ops (readded_ops @ [RemoveTunnel here, AddTunnel example_tunnel 8,
          DeadCheckDone 9 False 0]) boot) here) = Some 1"
  by (intro conjI; code_simp)

end
