(* ===== verification/Spec2Isabelle.thy ===== *)
theory Spec2Isabelle
  imports Requests Startup Connect Servers Client Responder_Spec Churn Lifecycle Telemetry_Spec Supervision
begin

text \<open>
  A verification development for plexy, a TCP proxy with load balancing (the Rust crate under
  \<open>src/\<close>, files named relative to \<open>src/src\<close>).

  \<^bold>\<open>The program.\<close> A tunnel is a listening socket with several remote ends. For every client
  that connects to it the proxy starts a task (\<open>lib.rs\<close>, \<open>process_socket\<close>) that selects a live
  remote with the tunnel's strategy (\<open>state/strategy.rs\<close>), connects to it with a timeout and a
  bounded number of retries, copies bytes in both directions until both streams end or the
  tunnel is closed (\<open>aio.rs\<close>), and reports every event to the shared state (\<open>state.rs\<close>, with
  the records of \<open>state/info.rs\<close> and \<open>state/stats.rs\<close>). A remote that fails too often in a row is
  moved to the dead ones and checked by a task of its own until it answers again. Tunnels and
  remotes are opened, closed, added and removed while clients are connected.

  \<^bold>\<open>Theories.\<close>
  \<^item> \<open>Prelude\<close>, \<open>Index_Map\<close>, \<open>Text\<close>, \<open>F32\<close>: machine words; insertion-ordered maps (the
    documented operations of \<open>IndexMap\<close>, also used for the sharded map of tunnels, whose order
    is not relied on) with their interface as the locale \<open>ordered_map\<close>; strings, decimal
    numbers and \<open>f32\<close> of the standard library as far as they are used.
  \<^item> \<open>Errors\<close> (\<open>error.rs\<close>), \<open>Tunnel\<close> (\<open>tunnel.rs\<close> and the arguments of \<open>config.rs\<close>),
    \<open>Stats\<close> (\<open>state/stats.rs\<close>), \<open>Info\<close> (\<open>state/info.rs\<close>): the data. A method returns the
    changed record and the list of additions it makes to the metric instruments.
  \<^item> \<open>Nom\<close>: the parser library as a parameter, a record of the parsers and combinators the
    source uses, and its documented behaviour as one instance; \<open>Parser\<close> (\<open>tunnel/parser.rs\<close> and
    the conversions of \<open>tunnel.rs\<close>): the grammar over that parameter; \<open>Parser_Spec\<close>: accepted
    specifications are addresses (under the locale \<open>nom_results\<close>, which only says where values
    come from), printed addresses (host names, IPv4, IPv6) and tunnels are read back, options are merged.
  \<^item> \<open>Strategy\<close> (\<open>state/strategy.rs\<close>): the three strategies as instances of one contract, the
    locale \<open>lb_strategy\<close>: a strategy picks an index of a live remote. \<open>None\<close> is a panic.
  \<^item> \<open>State\<close> (\<open>state.rs\<close>): the state and every operation on it. The lock of a tunnel is held
    during an operation, so it is one step; \<open>add_tunnel\<close> alone is two accesses, modelled as one (the
    race of two of them is a lemma of \<open>Admin\<close>). Spawned checks are entries of a task table, the end
    of a check (connected or not) is the operation \<open>dead_check_done\<close>.
  \<^item> \<open>State_Wf\<close>: the well-formedness invariant and its preservation by each operation;
    \<open>State_Spec\<close>: an abstract registry of live and dead remotes which the state refines,
    isolation of tunnels, the functional behaviour of selection, errors, recovery and
    administration; \<open>State_Examples\<close>: these at concrete states. \<open>Telemetry\<close>, \<open>Telemetry_Spec\<close>:
    what was added to each metric is what the statistics say, after every sequence of operations
    (the bytes a tunnel received apart, which are counted as sent). \<open>Supervision\<close>: the pending
    checks of a remote are exactly the one stored with it unless it is removed while it is dead,
    and what happens then.
  \<^item> \<open>Session\<close> (\<open>lib.rs\<close>, \<open>process_socket\<close> and \<open>connect_remote\<close>): one client as a state
    machine, executable and as a relation with one rule for each path; progress, termination,
    number of attempts and absence of panics while other tasks change the state arbitrarily
    between its steps.
  \<^item> \<open>System\<close> (\<open>lib.rs\<close>, \<open>create_tunnel\<close>, \<open>run_tunnel\<close>, \<open>stop_tunnel\<close>): all clients, tunnels,
    checks and administration interleaved, and the locale \<open>sys_invariant\<close> by which every
    invariant of a run is obtained; \<open>Views\<close>: what operations about remote ends leave alone, once
    for every view of a tunnel that ignores them (the locale \<open>tunnel_view\<close>); \<open>Lifecycle\<close>: the
    listening tasks are those of the open tunnels; \<open>Counters\<close>: while the tunnel, or the remote, stays,
    the reported numbers of open and pending streams are those of the connections and of the
    connection tasks that have panicked, which stay counted; with options that make sense there
    are none of the latter. \<open>Churn\<close>: how a remote that dies under a pending connection and a tunnel
    that is reopened make the counters wrap around, and a timeout that makes sessions panic.
  \<^item> \<open>Copy_Buffer\<close>, \<open>Bidirectional\<close> (\<open>aio.rs\<close>): the copy, one poll at a time, against scripted
    sockets; no byte is lost, repeated or reordered, the loop of a poll ends, and the state counts
    exactly the delivered bytes. \<open>Delivery\<close>: between sockets that go on in the end, both directions
    of a connection are copied completely, within a bounded number of polls. \<open>Client\<close>: a client
    from its arrival to its end, session, copy and state together. \<open>Connect\<close> (\<open>lib.rs\<close>,
    \<open>GenericStream\<close>, \<open>connect_remote\<close>): the stream to a remote, plain or encrypted.
  \<^item> \<open>Admin\<close> (\<open>lib.rs\<close>, \<open>start_tunnel\<close>): starting a tunnel, with the other tasks acting on the state
    while its listener is bound. The three front ends use it: \<open>Protocol\<close>
    (\<open>controller/protocol.rs\<close>, \<open>controller/protocol/codec.rs\<close>, \<open>controller.rs\<close>), the line protocol
    from the text of a request to the text of its response, and the loop over a connection;
    \<open>Rpc\<close> (\<open>rpc.rs\<close>), the JSON-RPC methods (both protocols satisfy one contract, the locale
    \<open>front_end\<close>); \<open>Startup\<close> (\<open>main.rs\<close>, \<open>config.rs\<close>), the initial tunnels,
    with \<open>Tls\<close> (\<open>state/tls.rs\<close>), the trusted certificates, and \<open>Help\<close> (\<open>config.rs\<close>), the printed
    help and its agreement with the parser.
  \<^item> \<open>Protocol_Spec\<close>, \<open>Rpc\<close>, \<open>Requests\<close>, \<open>Startup\<close>: every line gets one answer of the type of its
    request, in order, until \<open>EXIT\<close> or an error of the connection; requests are read back from their printed form; both
    protocols do the same; what a request does is a sequence of events of \<open>System\<close>, so the
    invariants above hold whatever is asked; a failed request did nothing; the status tells the
    tunnels and their connections, whatever happens while it is produced; the program opens every initial tunnel it can.
  \<^item> \<open>Servers\<close> (\<open>controller.rs\<close>, \<open>controller/protocol/codec.rs\<close>, \<open>rpc.rs\<close>, \<open>metrics.rs\<close>): the tasks of
    the control interface, of the JSON-RPC interface and of the metrics, and the codec of a
    control connection; \<open>Metrics_Endpoint\<close> (\<open>metrics.rs\<close>): the set-up of the metrics and the answer to
    one request for them.
  \<^item> \<open>Responder\<close>, \<open>Responder_Spec\<close> (\<open>examples/responder.rs\<close>): the load-test responder, its
    start and its protocols; its HTTP replies are read back, a request is consumed as a whole or not at all,
    and its cached date is the date.

  \<^bold>\<open>Correspondence.\<close> Records and constructors carry the source's names, with a two-letter prefix
  for fields (\<open>ti_\<close> for \<open>TunnelInfo\<close>, \<open>rs_\<close> for \<open>RemoteStats\<close>, and so on). A \<open>Result\<close> is a sum with
  the error on the left; \<open>None\<close> or \<open>Panicked\<close> is a panic. What the code takes from its
  environment (the time, the random draw, the outcome of binding, accepting, connecting,
  reading and writing) is an argument or an event, so the theorems hold for every behaviour of
  it. Counters are 64-bit words that wrap around, as in a release build. Logging is left out.

  \<^bold>\<open>Bounds.\<close> A session takes at most 131076 steps besides transfers: two for each of at most
  65535 retries, the rest before and after its loop. \<open>poll_copy\<close> is a partial function whose
  value \<open>None\<close> is an endless loop; it is proved to return for every buffer within its bounds. The
  polls of a connection are counted: one more than the sockets answer \<open>Pending\<close> is enough.
  A script of a socket is finite and answers \<open>Pending\<close> at its end, so a poll reads finitely
  many bytes.

  Printing an \<open>f32\<close> tries at most nine digits, which distinguish all its values. The loop over a
  control connection is a recursion over what was read from it; as the framed reader of the library
  does, it ends after the first error of the connection, which is answered (\<open>items_of\<close>).

  \<^bold>\<open>Not modelled.\<close> The servers of the JSON-RPC interface and of the metrics, which are libraries
  (what the program does with them is in \<open>Servers\<close>); the build without the feature \<open>metrics\<close>, which
  does not compile, since the statistics use its libraries unconditionally; the splitting of a byte stream into lines, a library's, whose results are
  inputs of the control loop and parameters of its codec; the command line and the JSON values,
  which libraries parse; logging.
\<close>

end
